(* ===== verification/Prelude.thy ===== *)
theory Prelude
  imports Main "HOL-Library.Word" "HOL-Library.AList" "HOL-Library.Sublist"
begin

text \<open>
  The shared vocabulary of the development: the machine integers of the code, the exceptions
  it throws, the state-and-exception computations in which its member functions are written,
  hash maps with the inserting \<open>operator[]\<close>, and the generic lemmas the components share.

  A member function that mutates its object is a computation \<open>('s, 'a) M\<close>: from a state to an
  outcome (\<open>Inl\<close> an exception, \<open>Inr\<close> a value) and the state at that moment. The state survives
  an exception, as it does in C++: what a function wrote before it threw stays written.
  A loop that never ends is the outcome \<open>Divergence\<close>, which no \<open>catch\<close> clause intercepts.
\<close>

section \<open>Machine integers\<close>

type_synonym u64 = "64 word"
type_synonym i64 = "64 word"
type_synonym u32 = "32 word"
type_synonym i32 = "32 word"

text \<open>
  \<open>std::uint64_t\<close> and \<open>std::uint32_t\<close> are words read with \<open>unat\<close>; \<open>std::int64_t\<close> and
  \<open>int32_t\<close> are the same words read with \<open>sint\<close>. The conversions are those of C++: between
  32 and 64 bits a signed source is sign-extended and a narrowing keeps the low bits.
\<close>

definition u64_of_i32 :: "i32 \<Rightarrow> u64" where
  "u64_of_i32 x = signed x"

definition i32_of_u64 :: "u64 \<Rightarrow> i32" where
  "i32_of_u64 x = ucast x"

definition i32_less :: "i32 \<Rightarrow> i32 \<Rightarrow> bool" where
  "i32_less a b \<longleftrightarrow> sint a < sint b"

section \<open>Exceptions\<close>

datatype error =
    Runtime_error string
  | Invalid_argument string
  | Out_of_range string
  | Divergence

fun what :: "error \<Rightarrow> string" where
  "what (Runtime_error m) = m"
| "what (Invalid_argument m) = m"
| "what (Out_of_range m) = m"
| "what Divergence = []"

section \<open>State-and-exception computations\<close>

type_synonym ('s, 'a) M = "'s \<Rightarrow> (error + 'a) \<times> 's"

named_theorems monad_defs \<open>definitions of the computation combinators\<close>
named_theorems pres \<open>rules that a computation preserves a predicate on its state\<close>

definition ret :: "'a \<Rightarrow> ('s, 'a) M" where
  [monad_defs]: "ret x = (\<lambda>s. (Inr x, s))"

definition raise :: "error \<Rightarrow> ('s, 'a) M" where
  [monad_defs]: "raise e = (\<lambda>s. (Inl e, s))"

definition mbind :: "('s, 'a) M \<Rightarrow> ('a \<Rightarrow> ('s, 'b) M) \<Rightarrow> ('s, 'b) M" where
  [monad_defs]: "mbind m f = (\<lambda>s. case m s of (Inl e, s') \<Rightarrow> (Inl e, s') | (Inr x, s') \<Rightarrow> f x s')"

definition mseq :: "('s, 'a) M \<Rightarrow> ('s, 'b) M \<Rightarrow> ('s, 'b) M" where
  [monad_defs]: "mseq m k = mbind m (\<lambda>_. k)"

definition mget :: "('s \<Rightarrow> ('s, 'a) M) \<Rightarrow> ('s, 'a) M" where
  [monad_defs]: "mget k = (\<lambda>s. k s s)"

definition mput :: "('s \<Rightarrow> 's) \<Rightarrow> ('s, unit) M" where
  [monad_defs]: "mput f = (\<lambda>s. (Inr (), f s))"

definition lift_result :: "error + 'a \<Rightarrow> ('s, 'a) M" where
  [monad_defs]: "lift_result r = (\<lambda>s. (r, s))"

definition mwhen :: "bool \<Rightarrow> ('s, unit) M \<Rightarrow> ('s, unit) M" where
  [monad_defs]: "mwhen b m = (if b then m else ret ())"

definition mtry :: "('s, 'a) M \<Rightarrow> (error \<Rightarrow> ('s, 'a) M) \<Rightarrow> ('s, 'a) M" where
  [monad_defs]: "mtry m h = (\<lambda>s. case m s of
       (Inl e, s') \<Rightarrow> (if e = Divergence then (Inl e, s') else h e s')
     | (Inr x, s') \<Rightarrow> (Inr x, s'))"

fun mdo :: "('s, unit) M list \<Rightarrow> ('s, unit) M" where
  "mdo [] = ret ()"
| "mdo (m # ms) = mseq m (mdo ms)"

fun mfor :: "'x list \<Rightarrow> ('x \<Rightarrow> ('s, unit) M) \<Rightarrow> ('s, unit) M" where
  "mfor [] f = ret ()"
| "mfor (x # xs) f = mseq (f x) (mfor xs f)"

text \<open>The same composition for results without a state.\<close>

definition rbind :: "error + 'a \<Rightarrow> ('a \<Rightarrow> error + 'b) \<Rightarrow> error + 'b" where
  "rbind r f = (case r of Inl e \<Rightarrow> Inl e | Inr x \<Rightarrow> f x)"

lemma rbind_simps [simp]:
  "rbind (Inl e) f = Inl e"
  "rbind (Inr x) f = f x"
  by (simp_all add: rbind_def)

lemma rbind_Inr_iff: "rbind r f = Inr y \<longleftrightarrow> (\<exists>x. r = Inr x \<and> f x = Inr y)"
  by (cases r) auto

lemma ret_app [simp]: "ret x s = (Inr x, s)"
  by (simp add: ret_def)

lemma raise_app [simp]: "raise e s = (Inl e, s)"
  by (simp add: raise_def)

lemma mget_app [simp]: "mget k s = k s s"
  by (simp add: mget_def)

lemma mput_app [simp]: "mput f s = (Inr (), f s)"
  by (simp add: mput_def)

lemma lift_result_app [simp]: "lift_result r s = (r, s)"
  by (simp add: lift_result_def)

lemma mbind_app: "mbind m f s = (case m s of (Inl e, s') \<Rightarrow> (Inl e, s') | (Inr x, s') \<Rightarrow> f x s')"
  by (simp add: mbind_def)

lemma mseq_app: "mseq m k s = (case m s of (Inl e, s') \<Rightarrow> (Inl e, s') | (Inr x, s') \<Rightarrow> k s')"
  by (simp add: mseq_def mbind_def)

lemma mbind_cong [fundef_cong]:
  assumes "s = s'" and "m s' = m' s'"
    and "\<And>x t. m' s' = (Inr x, t) \<Longrightarrow> f x t = f' x t"
  shows "mbind m f s = mbind m' f' s'"
  using assms by (auto simp: mbind_def split: sum.splits prod.splits)

lemma mseq_cong [fundef_cong]:
  assumes "s = s'" and "m s' = m' s'"
    and "\<And>x t. m' s' = (Inr x, t) \<Longrightarrow> k t = k' t"
  shows "mseq m k s = mseq m' k' s'"
  using assms by (auto simp: mseq_def intro: mbind_cong)

lemma mbind_Inr: "m s = (Inr x, s') \<Longrightarrow> mbind m f s = f x s'"
  by (simp add: mbind_def)

lemma mseq_Inr: "m s = (Inr x, s') \<Longrightarrow> mseq m k s = k s'"
  by (simp add: mseq_def mbind_def)

lemma mbind_Inl: "m s = (Inl e, s') \<Longrightarrow> mbind m f s = (Inl e, s')"
  by (simp add: mbind_def)

lemma mseq_Inl: "m s = (Inl e, s') \<Longrightarrow> mseq m k s = (Inl e, s')"
  by (simp add: mseq_def mbind_def)

lemma mseq_returns: "mseq m k s = (Inr y, s') \<longleftrightarrow> (\<exists>x t. m s = (Inr x, t) \<and> k t = (Inr y, s'))"
  by (auto simp: mseq_app split: prod.splits sum.splits)

lemma mseq_assoc: "mseq (mseq m k) l = mseq m (mseq k l)"
  by (rule ext) (simp add: mseq_app split: prod.splits sum.splits)

lemma mfor_append: "mfor (xs @ ys) f = mseq (mfor xs f) (mfor ys f)"
  by (induction xs) (simp_all add: mseq_assoc, simp add: mseq_app fun_eq_iff)

lemma mbind_mseq_ret: "mbind (mseq m (ret x)) f = mseq m (f x)"
  by (rule ext) (simp add: mbind_app mseq_app split: prod.splits sum.splits)

section \<open>Predicates a computation preserves\<close>

text \<open>
  \<open>preserves P m\<close>: from a state with \<open>P\<close>, the computation \<open>m\<close> ends in a state with \<open>P\<close>,
  whether it returns or throws. A field that \<open>m\<close> never writes is the case
  \<open>P = (\<lambda>s. f s = v)\<close>, written \<open>keeps f m\<close>. The rules are collected in \<open>pres\<close>, so that
  \<open>intro pres\<close> decomposes a whole handler.
\<close>

definition preserves :: "('s \<Rightarrow> bool) \<Rightarrow> ('s, 'a) M \<Rightarrow> bool" where
  "preserves P m \<longleftrightarrow> (\<forall>s. P s \<longrightarrow> P (snd (m s)))"

definition keeps :: "('s \<Rightarrow> 'v) \<Rightarrow> ('s, 'a) M \<Rightarrow> bool" where
  "keeps f m \<longleftrightarrow> (\<forall>s. f (snd (m s)) = f s)"

lemma preservesI: "(\<And>s. P s \<Longrightarrow> P (snd (m s))) \<Longrightarrow> preserves P m"
  by (simp add: preserves_def)

lemma preservesD: "preserves P m \<Longrightarrow> m s = (r, s') \<Longrightarrow> P s \<Longrightarrow> P s'"
  unfolding preserves_def by (metis snd_conv)

lemma preserves_run: "preserves P m \<Longrightarrow> P s \<Longrightarrow> P (snd (m s))"
  by (simp add: preserves_def)

lemma keepsD: "keeps f m \<Longrightarrow> m s = (r, s') \<Longrightarrow> f s' = f s"
  unfolding keeps_def by (metis snd_conv)

lemma keeps_preserves: "keeps f m \<Longrightarrow> preserves (\<lambda>s. P (f s)) m"
  by (simp add: keeps_def preserves_def)

lemma preserves_ret [pres]: "preserves P (ret x)"
  and preserves_raise [pres]: "preserves P (raise e)"
  and preserves_lift_result [pres]: "preserves P (lift_result r)"
  by (simp_all add: preserves_def)

lemma preserves_mbind [pres]:
  "preserves P m \<Longrightarrow> (\<And>x. preserves P (f x)) \<Longrightarrow> preserves P (mbind m f)"
  unfolding preserves_def mbind_def by (fastforce split: sum.splits prod.splits)

lemma preserves_mseq [pres]: "preserves P m \<Longrightarrow> preserves P k \<Longrightarrow> preserves P (mseq m k)"
  unfolding mseq_def by (rule preserves_mbind)

lemma preserves_mget [pres]: "(\<And>s. preserves P (k s)) \<Longrightarrow> preserves P (mget k)"
  by (simp add: preserves_def)

lemma preserves_mwhen [pres]: "(b \<Longrightarrow> preserves P m) \<Longrightarrow> preserves P (mwhen b m)"
  by (simp add: mwhen_def preserves_ret)

lemma preserves_mtry [pres]:
  "preserves P m \<Longrightarrow> (\<And>e. preserves P (h e)) \<Longrightarrow> preserves P (mtry m h)"
  unfolding preserves_def mtry_def by (fastforce split: sum.splits prod.splits)

lemma preserves_mdo [pres]: "list_all (preserves P) ms \<Longrightarrow> preserves P (mdo ms)"
  by (induction ms) (auto intro: pres)

lemma preserves_mfor [pres]: "(\<And>x. x \<in> set xs \<Longrightarrow> preserves P (f x)) \<Longrightarrow> preserves P (mfor xs f)"
  by (induction xs) (auto intro: pres)

lemma preserves_if [pres]:
  "(b \<Longrightarrow> preserves P m) \<Longrightarrow> (\<not> b \<Longrightarrow> preserves P k) \<Longrightarrow> preserves P (if b then m else k)"
  by simp

lemma preserves_case_option [pres]:
  "(x = None \<Longrightarrow> preserves P m) \<Longrightarrow> (\<And>y. x = Some y \<Longrightarrow> preserves P (f y)) \<Longrightarrow>
   preserves P (case x of None \<Rightarrow> m | Some y \<Rightarrow> f y)"
  by (cases x) auto

lemma preserves_mput: "(\<And>s. P s \<Longrightarrow> P (f s)) \<Longrightarrow> preserves P (mput f)"
  by (simp add: preserves_def)

lemma list_all_ConsI [pres]: "P x \<Longrightarrow> list_all P xs \<Longrightarrow> list_all P (x # xs)"
  by simp

lemma list_all_NilI [pres]: "list_all P []"
  by simp

text \<open>\<open>runs P m\<close>: from a state with \<open>P\<close>, the computation returns, in a state with \<open>P\<close>.\<close>

named_theorems total \<open>rules for computations that return\<close>

definition runs :: "('s \<Rightarrow> bool) \<Rightarrow> ('s, 'a) M \<Rightarrow> bool" where
  "runs P m \<longleftrightarrow> (\<forall>s. P s \<longrightarrow> (\<exists>x s'. m s = (Inr x, s') \<and> P s'))"

lemma runsD: "runs P m \<Longrightarrow> P s \<Longrightarrow> \<exists>x s'. m s = (Inr x, s') \<and> P s'"
  by (simp add: runs_def)

lemma runs_ret [total]: "runs P (ret x)"
  by (simp add: runs_def)

lemma runs_mbind [total]: "runs P m \<Longrightarrow> (\<And>x. runs P (f x)) \<Longrightarrow> runs P (mbind m f)"
  unfolding runs_def by (metis mbind_Inr)

lemma runs_mseq [total]: "runs P m \<Longrightarrow> runs P k \<Longrightarrow> runs P (mseq m k)"
  unfolding mseq_def by (rule runs_mbind)

lemma runs_mget [total]: "(\<And>s. P s \<Longrightarrow> runs P (k s)) \<Longrightarrow> runs P (mget k)"
  unfolding runs_def by simp

lemma runs_mwhen [total]: "(b \<Longrightarrow> runs P m) \<Longrightarrow> runs P (mwhen b m)"
  by (simp add: mwhen_def runs_ret)

lemma runs_mdo [total]: "list_all (runs P) ms \<Longrightarrow> runs P (mdo ms)"
  by (induction ms) (auto intro: runs_ret runs_mseq)

lemma runs_mfor [total]: "(\<And>x. x \<in> set xs \<Longrightarrow> runs P (f x)) \<Longrightarrow> runs P (mfor xs f)"
  by (induction xs) (auto intro: runs_ret runs_mseq)

lemma runs_mput: "(\<And>s. P s \<Longrightarrow> P (f s)) \<Longrightarrow> runs P (mput f)"
  by (simp add: runs_def)

lemma runs_case_option [total]:
  "(x = None \<Longrightarrow> runs P m) \<Longrightarrow> (\<And>y. x = Some y \<Longrightarrow> runs P (k y)) \<Longrightarrow>
   runs P (case x of None \<Rightarrow> m | Some y \<Rightarrow> k y)"
  by (cases x) auto

lemma list_all_total [total]: "Q x \<Longrightarrow> list_all Q xs \<Longrightarrow> list_all Q (x # xs)" "list_all Q []"
  by simp_all

section \<open>Hash maps\<close>

text \<open>
  \<open>std::unordered_map\<close> is an association list whose keys are distinct. \<open>operator[]\<close> on a
  missing key inserts the value-initialised element, also when it is only read, so that a
  read is a change of the map: \<open>touch\<close> is that insertion and \<open>val_or\<close> the value read.
\<close>

definition val_or :: "'v \<Rightarrow> ('k \<times> 'v) list \<Rightarrow> 'k \<Rightarrow> 'v" where
  "val_or d m k = (case map_of m k of None \<Rightarrow> d | Some v \<Rightarrow> v)"

definition touch :: "'v \<Rightarrow> 'k \<Rightarrow> ('k \<times> 'v) list \<Rightarrow> ('k \<times> 'v) list" where
  "touch d k m = (case map_of m k of None \<Rightarrow> AList.update k d m | Some _ \<Rightarrow> m)"

lemma val_or_update [simp]: "val_or d (AList.update k v m) k' = (if k' = k then v else val_or d m k')"
  by (auto simp: val_or_def update_conv')

lemma val_or_touch [simp]: "val_or d (touch d k m) k' = val_or d m k'"
  by (auto simp: val_or_def touch_def update_conv' split: option.splits)

lemma map_of_touch: "map_of (touch d k m) k' = (if k' = k then Some (val_or d m k) else map_of m k')"
  by (auto simp: val_or_def touch_def update_conv' split: option.splits)

lemma keys_touch: "fst ` set (touch d k m) = insert k (fst ` set m)"
  by (auto simp: touch_def dom_update map_of_eq_None_iff split: option.splits)
     (metis map_of_SomeD fst_conv image_eqI)

lemma distinct_touch: "distinct (map fst m) \<Longrightarrow> distinct (map fst (touch d k m))"
  by (auto simp: touch_def distinct_update split: option.splits)

section \<open>Lists\<close>

lemma map_of_filter_fst: "map_of (filter (\<lambda>e. P (fst e)) xs) k = (if P k then map_of xs k else None)"
  by (induction xs) auto

lemma takeWhile_eq_filter_wrt:
  assumes "sorted_wrt R xs" and "\<And>x y. R x y \<Longrightarrow> P y \<Longrightarrow> P x"
  shows "takeWhile P xs = filter P xs"
  using assms(1)
proof (induction xs)
  case (Cons x xs)
  show ?case
  proof (cases "P x")
    case False
    with Cons.prems assms(2) have "filter P xs = []" by (auto simp: filter_empty_conv)
    with False show ?thesis by simp
  qed (use Cons in auto)
qed simp

section \<open>Words\<close>

lemma u64_bound [simp]: "unat (x :: u64) < 18446744073709551616"
  using unsigned_less [of x] by simp

lemma unat_add_of_nat:
  "unat (a :: u64) + n < 2 ^ 64 \<Longrightarrow> unat (a + of_nat n) = unat a + n"
  by (simp add: unat_word_ariths unat_of_nat)

lemma unat_add_one: "unat (a :: u64) + 1 < 2 ^ 64 \<Longrightarrow> unat (a + 1) = unat a + 1"
  by (simp add: unat_word_ariths)

lemma unat_add_one_max: "(a :: u64) \<noteq> - 1 \<Longrightarrow> unat (a + 1) = unat a + 1"
  using unatSuc [of a] by (simp add: add.commute add_eq_0_iff)

lemma unat_u64_max [simp]: "unat (- 1 :: u64) = 18446744073709551615"
  by (simp add: unsigned_minus_1_eq_mask mask_eq_exp_minus_1)

lemma u64_up_measure: "(a :: u64) \<noteq> - 1 \<Longrightarrow> 2 ^ 64 - unat (a + 1) < 2 ^ 64 - unat a"
  using unat_add_one_max [of a] unsigned_less [of a, where 'a = nat]
  by (intro diff_less_mono2) simp_all

lemma unat_succ_less: "(a :: u64) < b \<Longrightarrow> unat (a + 1) = unat a + 1"
  by (rule unat_add_one_max) (metis word_order.extremum_strict)

lemma unat_pred: "(a :: u64) < b \<Longrightarrow> unat (b - 1) = unat b - 1"
  by (rule unat_minus_one) auto

lemma unat_pred_less: "(a :: u64) < b \<Longrightarrow> unat (b - 1) < unat b"
  by (simp add: unat_pred word_less_nat_alt)

end
