(* ===== verification/Proto.thy ===== *)
theory Proto
  imports Prelude
begin

text \<open>
  The messages of \<open>proto/command.proto\<close>, \<open>proto/raft.proto\<close> and \<open>proto/client.proto\<close>, one
  record per message with the fields in the order of the file. A proto3 enumeration is open,
  so each has a constructor for a number the file does not name.

  The generated C++ (\<open>SerializeToString\<close>, \<open>ParseFromString\<close>) is not part of the sources: it is
  the parameter \<open>codecs\<close> of every definition that encodes or decodes a message. What the code
  relies on is that parsing a serialised message gives the message back (\<open>codecs_ok\<close>) and,
  where a result is claimed, that serialising succeeds (\<open>codecs_total\<close>).
\<close>

section \<open>command.proto\<close>

datatype CommandType =
    COMMAND_TYPE_UNSPECIFIED | COMMAND_TYPE_PUT | COMMAND_TYPE_GET | COMMAND_TYPE_DELETE
  | COMMAND_TYPE_other i32

record Command =
  cmd_type :: CommandType
  cmd_client_id :: u64
  cmd_request_id :: u64
  cmd_key :: string
  cmd_value :: string

section \<open>raft.proto\<close>

record proto_RaftLogEntry =
  le_index :: u64
  le_term :: u64
  le_command :: string

record RequestVoteRequest =
  rv_term :: u64
  rv_candidate_id :: u64
  rv_last_log_index :: u64
  rv_last_log_term :: u64

record RequestVoteResponse =
  rvr_term :: u64
  rvr_vote_granted :: bool
  rvr_responder_id :: u64

record AppendEntriesRequest =
  ae_term :: u64
  ae_leader_id :: u64
  ae_prev_log_index :: u64
  ae_prev_log_term :: u64
  ae_entries :: "proto_RaftLogEntry list"
  ae_leader_commit :: u64

record AppendEntriesResponse =
  aer_term :: u64
  aer_success :: bool
  aer_match_index :: u64
  aer_responder_id :: u64

record SnapshotMetadata =
  sm_last_included_index :: u64
  sm_last_included_term :: u64

record SnapshotEntry =
  se_key :: string
  se_value :: string

record SnapshotState =
  ss_entries :: "SnapshotEntry list"
  ss_applied_requests :: "SnapshotEntry list"

record InstallSnapshotRequest =
  is_term :: u64
  is_leader_id :: u64
  is_last_included_index :: u64
  is_last_included_term :: u64
  is_offset :: u64
  is_data :: string
  is_done :: bool

record InstallSnapshotResponse =
  isr_term :: u64
  isr_success :: bool
  isr_responder_id :: u64
  isr_next_offset :: u64

record ReadIndexRequest =
  ri_term :: u64
  ri_leader_id :: u64

record ReadIndexResponse =
  rir_term :: u64
  rir_success :: bool
  rir_responder_id :: u64

datatype RpcType =
    TYPE_UNSPECIFIED | REQUEST_VOTE | REQUEST_VOTE_RESPONSE | APPEND_ENTRIES
  | APPEND_ENTRIES_RESPONSE | IDENTIFY | INSTALL_SNAPSHOT | INSTALL_SNAPSHOT_RESPONSE
  | READ_INDEX | READ_INDEX_RESPONSE | TYPE_other i32

record RaftRpc =
  msg_type :: RpcType
  msg_request_id :: u64
  msg_sender_id :: u64
  msg_payload :: string

section \<open>client.proto\<close>

datatype Operation =
    OPERATION_UNSPECIFIED | OPERATION_PUT | OPERATION_GET | OPERATION_DELETE
  | OPERATION_other i32

record ClientRequest =
  cq_request_id :: u64
  cq_operation :: Operation
  cq_key :: string
  cq_value :: string
  cq_client_id :: u64

datatype ResponseStatus =
    STATUS_UNSPECIFIED | STATUS_OK | STATUS_NOT_FOUND | STATUS_NOT_LEADER
  | STATUS_INVALID_REQUEST | STATUS_ERROR | STATUS_NOT_READY
  | STATUS_other i32

record ClientResponse =
  cs_request_id :: u64
  cs_status :: ResponseStatus
  cs_value :: string
  cs_message :: string

section \<open>The generated codecs, as a parameter\<close>

record 'm codec =
  serialize :: "'m \<Rightarrow> string option"
  parse :: "string \<Rightarrow> 'm option"

definition codec_ok :: "'m codec \<Rightarrow> bool" where
  "codec_ok c \<longleftrightarrow> (\<forall>m s. serialize c m = Some s \<longrightarrow> parse c s = Some m)"

definition codec_total :: "'m codec \<Rightarrow> bool" where
  "codec_total c \<longleftrightarrow> (\<forall>m. serialize c m \<noteq> None)"

record codecs =
  command_pb :: "Command codec"
  log_entry_pb :: "proto_RaftLogEntry codec"
  request_vote_pb :: "RequestVoteRequest codec"
  request_vote_response_pb :: "RequestVoteResponse codec"
  append_entries_pb :: "AppendEntriesRequest codec"
  append_entries_response_pb :: "AppendEntriesResponse codec"
  snapshot_metadata_pb :: "SnapshotMetadata codec"
  snapshot_state_pb :: "SnapshotState codec"
  install_snapshot_pb :: "InstallSnapshotRequest codec"
  install_snapshot_response_pb :: "InstallSnapshotResponse codec"
  read_index_pb :: "ReadIndexRequest codec"
  read_index_response_pb :: "ReadIndexResponse codec"
  rpc_pb :: "RaftRpc codec"
  client_request_pb :: "ClientRequest codec"
  client_response_pb :: "ClientResponse codec"

definition codecs_ok :: "codecs \<Rightarrow> bool" where
  "codecs_ok P \<longleftrightarrow>
     codec_ok (command_pb P) \<and> codec_ok (log_entry_pb P) \<and>
     codec_ok (request_vote_pb P) \<and> codec_ok (request_vote_response_pb P) \<and>
     codec_ok (append_entries_pb P) \<and> codec_ok (append_entries_response_pb P) \<and>
     codec_ok (snapshot_metadata_pb P) \<and> codec_ok (snapshot_state_pb P) \<and>
     codec_ok (install_snapshot_pb P) \<and> codec_ok (install_snapshot_response_pb P) \<and>
     codec_ok (read_index_pb P) \<and> codec_ok (read_index_response_pb P) \<and>
     codec_ok (rpc_pb P) \<and> codec_ok (client_request_pb P) \<and> codec_ok (client_response_pb P)"

definition codecs_total :: "codecs \<Rightarrow> bool" where
  "codecs_total P \<longleftrightarrow>
     codec_total (command_pb P) \<and> codec_total (log_entry_pb P) \<and>
     codec_total (request_vote_pb P) \<and> codec_total (request_vote_response_pb P) \<and>
     codec_total (append_entries_pb P) \<and> codec_total (append_entries_response_pb P) \<and>
     codec_total (snapshot_metadata_pb P) \<and> codec_total (snapshot_state_pb P) \<and>
     codec_total (install_snapshot_pb P) \<and> codec_total (install_snapshot_response_pb P) \<and>
     codec_total (read_index_pb P) \<and> codec_total (read_index_response_pb P) \<and>
     codec_total (rpc_pb P) \<and> codec_total (client_request_pb P) \<and>
     codec_total (client_response_pb P)"

lemma codec_parse: "codec_ok c \<Longrightarrow> serialize c m = Some s \<Longrightarrow> parse c s = Some m"
  by (simp add: codec_ok_def)

lemma codec_inject:
  "codec_ok c \<Longrightarrow> serialize c m = Some s \<Longrightarrow> serialize c m' = Some s \<Longrightarrow> m = m'"
  by (metis codec_parse option.inject)

lemma codec_totalE:
  assumes "codec_total c"
  obtains s where "serialize c m = Some s"
  using assms by (auto simp: codec_total_def)

end
