(* ===== verification/Cpp_Std.thy ===== *)
theory Cpp_Std
  imports Prelude "HOL-Library.Char_ord" "HOL-Library.List_Lexorder"
begin

text \<open>
  The parts of the C++ standard library that the sources use on strings and numbers:
  \<open>std::to_string\<close>, \<open>std::stoull\<close>, \<open>std::stoll\<close>, \<open>std::stoi\<close> (with the
  \<open>strtol\<close> rules: leading white space, an optional sign, the longest run of digits, a range
  check), \<open>std::string::find\<close> and \<open>rfind\<close> for one character, and the prefix test
  \<open>s.rfind(p, 0) == 0\<close>. The lemmas are the round trips of printing and scanning, on which the
  persisted counters and the storage keys rest.
\<close>

section \<open>Printing numbers\<close>

definition digit_char :: "nat \<Rightarrow> char" where
  "digit_char d = char_of (48 + d)"

fun dec :: "nat \<Rightarrow> string" where
  "dec n = (if n < 10 then [digit_char n] else dec (n div 10) @ [digit_char (n mod 10)])"

declare dec.simps [simp del]

definition to_string_u64 :: "u64 \<Rightarrow> string" where
  "to_string_u64 x = dec (unat x)"

definition to_string_int :: "int \<Rightarrow> string" where
  "to_string_int i = (if i < 0 then CHR ''-'' # dec (nat (- i)) else dec (nat i))"

definition to_string_i64 :: "i64 \<Rightarrow> string" where
  "to_string_i64 x = to_string_int (sint x)"

section \<open>Scanning numbers\<close>

definition is_space :: "char \<Rightarrow> bool" where
  "is_space c \<longleftrightarrow> of_char c = (32 :: nat) \<or> (9 \<le> (of_char c :: nat) \<and> (of_char c :: nat) \<le> 13)"

definition is_digit :: "char \<Rightarrow> bool" where
  "is_digit c \<longleftrightarrow> 48 \<le> (of_char c :: nat) \<and> (of_char c :: nat) \<le> 57"

definition digit_val :: "char \<Rightarrow> nat" where
  "digit_val c = of_char c - 48"

definition digits_val :: "string \<Rightarrow> nat" where
  "digits_val ds = foldl (\<lambda>v c. 10 * v + digit_val c) 0 ds"

fun sign_of :: "string \<Rightarrow> bool \<times> string" where
  "sign_of [] = (False, [])"
| "sign_of (c # cs) =
     (if c = CHR ''-'' then (True, cs) else if c = CHR ''+'' then (False, cs) else (False, c # cs))"

text \<open>
  \<open>strtol\<close> and its kin in base 10: whether a minus sign was read, the value of the digits, and
  the number of characters consumed; \<open>None\<close> when no digit was found.
\<close>

definition scan_number :: "string \<Rightarrow> (bool \<times> nat \<times> nat) option" where
  "scan_number s =
     (let r = dropWhile is_space s; (neg, body) = sign_of r; ds = takeWhile is_digit body
      in if ds = [] then None
         else Some (neg, digits_val ds, length s - length body + length ds))"

definition stoull :: "string \<Rightarrow> error + (u64 \<times> nat)" where
  "stoull s = (case scan_number s of
       None \<Rightarrow> Inl (Invalid_argument ''stoull'')
     | Some (neg, v, len) \<Rightarrow>
         if 2 ^ 64 \<le> v then Inl (Out_of_range ''stoull'')
         else Inr (if neg then - of_nat v else of_nat v, len))"

definition signed_in_range :: "nat \<Rightarrow> bool \<Rightarrow> nat \<Rightarrow> bool" where
  "signed_in_range w neg v \<longleftrightarrow> (if neg then v \<le> 2 ^ (w - 1) else v < 2 ^ (w - 1))"

definition stoll :: "string \<Rightarrow> error + (i64 \<times> nat)" where
  "stoll s = (case scan_number s of
       None \<Rightarrow> Inl (Invalid_argument ''stoll'')
     | Some (neg, v, len) \<Rightarrow>
         if \<not> signed_in_range 64 neg v then Inl (Out_of_range ''stoll'')
         else Inr (if neg then - of_nat v else of_nat v, len))"

definition stoi :: "string \<Rightarrow> error + (i32 \<times> nat)" where
  "stoi s = (case scan_number s of
       None \<Rightarrow> Inl (Invalid_argument ''stoi'')
     | Some (neg, v, len) \<Rightarrow>
         if \<not> signed_in_range 32 neg v then Inl (Out_of_range ''stoi'')
         else Inr (if neg then - of_nat v else of_nat v, len))"

section \<open>Searching strings\<close>

fun find_char :: "char \<Rightarrow> string \<Rightarrow> nat option" where
  "find_char c [] = None"
| "find_char c (x # xs) = (if x = c then Some 0 else map_option Suc (find_char c xs))"

definition rfind_char :: "char \<Rightarrow> string \<Rightarrow> nat option" where
  "rfind_char c s = map_option (\<lambda>i. length s - 1 - i) (find_char c (rev s))"

text \<open>\<open>s.rfind(p, 0) == 0\<close>: the search from position 0 backwards succeeds only at 0.\<close>

abbreviation has_prefix :: "string \<Rightarrow> string \<Rightarrow> bool" where
  "has_prefix p s \<equiv> prefix p s"

section \<open>Round trips\<close>

lemma of_char_digit_char [simp]: "d < 10 \<Longrightarrow> (of_char (digit_char d) :: nat) = 48 + d"
  by (simp add: digit_char_def of_char_of take_bit_eq_mod)

lemma is_digit_digit_char [simp]: "d < 10 \<Longrightarrow> is_digit (digit_char d)"
  by (simp add: is_digit_def)

lemma digit_val_digit_char [simp]: "d < 10 \<Longrightarrow> digit_val (digit_char d) = d"
  by (simp add: digit_val_def)

lemma digits_val_snoc [simp]: "digits_val (ds @ [c]) = 10 * digits_val ds + digit_val c"
  by (simp add: digits_val_def)

lemma digits_val_dec [simp]: "digits_val (dec n) = n"
proof (induction n rule: dec.induct)
  case (1 n)
  then show ?case
    by (subst dec.simps) (auto simp: digits_val_def [of "[_]"])
qed

lemma dec_digits: "list_all is_digit (dec n)"
proof (induction n rule: dec.induct)
  case (1 n)
  then show ?case by (subst dec.simps) auto
qed

lemma dec_not_Nil [simp]: "dec n \<noteq> []"
  by (subst dec.simps) simp

lemma dec_inject [simp]: "dec m = dec n \<longleftrightarrow> m = n"
  by (metis digits_val_dec)

lemma to_string_u64_inject [simp]: "to_string_u64 a = to_string_u64 b \<longleftrightarrow> a = b"
  by (simp add: to_string_u64_def word_unat_eq_iff)

lemma digit_not_space: "is_digit c \<Longrightarrow> \<not> is_space c"
  by (auto simp: is_digit_def is_space_def)

lemma digit_not_sign: "is_digit c \<Longrightarrow> c \<noteq> CHR ''-'' \<and> c \<noteq> CHR ''+''"
  by (auto simp: is_digit_def)

lemma scan_number_digits:
  assumes "list_all is_digit ds" and "ds \<noteq> []"
  shows "scan_number ds = Some (False, digits_val ds, length ds)"
    and "scan_number (CHR ''-'' # ds) = Some (True, digits_val ds, Suc (length ds))"
proof -
  obtain c cs where ds: "ds = c # cs" using assms(2) by (cases ds) auto
  have all: "takeWhile is_digit ds = ds"
    using assms(1) by (simp add: takeWhile_eq_all_conv list_all_iff)
  then have all': "takeWhile is_digit cs = cs" by (simp add: ds split: if_splits)
  have c: "is_digit c" "\<not> is_space c" "c \<noteq> CHR ''-''" "c \<noteq> CHR ''+''"
    using assms(1) digit_not_space digit_not_sign by (auto simp: ds)
  show "scan_number ds = Some (False, digits_val ds, length ds)"
    using all' c by (simp add: scan_number_def ds del: takeWhile_eq_all_conv)
  show "scan_number (CHR ''-'' # ds) = Some (True, digits_val ds, Suc (length ds))"
    using all' c by (simp add: scan_number_def ds is_space_def del: takeWhile_eq_all_conv)
qed

lemma scan_number_dec [simp]:
  "scan_number (dec n) = Some (False, n, length (dec n))"
  "scan_number (CHR ''-'' # dec n) = Some (True, n, Suc (length (dec n)))"
  using scan_number_digits [OF dec_digits dec_not_Nil, of n] by simp_all

lemma stoull_to_string [simp]: "stoull (to_string_u64 x) = Inr (x, length (to_string_u64 x))"
  by (simp add: stoull_def to_string_u64_def not_le)

lemma stoll_to_string [simp]: "stoll (to_string_i64 x) = Inr (x, length (to_string_i64 x))"
proof -
  have lo: "- (2 ^ 63) \<le> sint x" and hi: "sint x < 2 ^ 63"
    using sint_greater_eq [of x] sint_less [of x] by simp_all
  show ?thesis
  proof (cases "sint x < 0")
    case True
    then have "nat (- sint x) \<le> 2 ^ 63" using lo by simp
    moreover have "- (of_nat (nat (- sint x)) :: i64) = x" using True by simp
    ultimately show ?thesis using True
      by (simp add: stoll_def to_string_i64_def to_string_int_def signed_in_range_def)
  next
    case False
    then have "nat (sint x) < 2 ^ 63" using hi by (simp add: nat_less_iff)
    moreover have "(of_nat (nat (sint x)) :: i64) = x" using False by simp
    ultimately show ?thesis using False
      by (simp add: stoll_def to_string_i64_def to_string_int_def signed_in_range_def)
  qed
qed

lemma dec_no_char: "\<not> is_digit c \<Longrightarrow> c \<notin> set (dec n)"
  using dec_digits [of n] by (auto simp: list_all_iff)

lemma stoi_dec:
  assumes "n < 2 ^ 31"
  shows "stoi (dec n) = Inr (of_nat n, length (dec n))"
  using assms by (simp add: stoi_def signed_in_range_def)

lemma find_char_first: "c \<notin> set s \<Longrightarrow> find_char c (s @ c # t) = Some (length s)"
  by (induction s) auto

lemma rfind_char_last: "c \<notin> set t \<Longrightarrow> rfind_char c (s @ c # t) = Some (length s)"
  using find_char_first [of c "rev t" "rev s"] by (simp add: rfind_char_def)

lemma append_sep_inject:
  assumes "c \<notin> set xs" and "c \<notin> set ys" and "xs @ c # zs = ys @ c # ws"
  shows "xs = ys \<and> zs = ws"
  using assms by (induction xs arbitrary: ys) (auto simp: Cons_eq_append_conv append_eq_Cons_conv)

section \<open>The order of keys\<close>

text \<open>
  Strings are ordered lexicographically by byte value, the order of RocksDB's default
  comparator. The keys with a given prefix are an interval that starts at the prefix.
\<close>

lemma prefix_iff_take: "prefix p k \<longleftrightarrow> take (length p) k = p"
  by (auto simp: prefix_def) (metis append_take_drop_id)

lemma prefix_imp_le: "prefix p k \<Longrightarrow> p \<le> (k :: string)"
  by (induction p arbitrary: k) (auto simp: prefix_def)

lemma prefix_between:
  assumes "prefix p k'" and "p \<le> k" and "k \<le> (k' :: string)"
  shows "prefix p k"
  using assms
proof (induction p arbitrary: k k')
  case (Cons c p)
  from Cons.prems(1) obtain r' where k': "k' = c # r'" "prefix p r'" by (cases k') auto
  with Cons.prems obtain d r where k: "k = d # r" by (cases k) auto
  from Cons.prems have "d = c" and "p \<le> r" and "r \<le> r'"
    by (auto simp: k k' dest: order.antisym)
  with Cons.IH [of r' r] k'(2) show ?case by (simp add: k)
qed simp

end
