(* ===== verification/Rocks_KV_Store.thy ===== *)
theory Rocks_KV_Store
  imports Cpp_Std
begin

text \<open>
  \<open>src/rocks_kv_store.cpp\<close>: the key-value wrapper around one RocksDB instance.

  RocksDB is not part of the sources. A database handle is a value of the type parameter
  \<open>'db\<close> and the calls the wrapper makes are the record \<open>'db rocksdb\<close>. What the wrapper relies
  on is \<open>rocksdb_ok R \<alpha>\<close>: the handle stands for a finite map \<open>\<alpha> db\<close> from keys to values, a
  successful read returns what the map holds, a write batch is applied in order and entirely
  or not at all, and an iterator yields the entries in key order. Every call may fail.
  \<open>rocksdb_faultless\<close> is the additional hypothesis that no call fails.
\<close>

section \<open>The RocksDB interface, as a parameter\<close>

datatype status = Status_OK | Status_NotFound string | Status_Error string

fun ToString :: "status \<Rightarrow> string" where
  "ToString Status_OK = ''OK''"
| "ToString (Status_NotFound m) = m"
| "ToString (Status_Error m) = m"

fun IsNotFound :: "status \<Rightarrow> bool" where
  "IsNotFound (Status_NotFound _) = True"
| "IsNotFound _ = False"

datatype batch_op = Batch_Delete string | Batch_Put string string

datatype seek = SeekToFirst | Seek string

record 'db rocksdb =
  DB_Open :: "string \<Rightarrow> status \<times> 'db"
  DB_Put :: "'db \<Rightarrow> string \<Rightarrow> string \<Rightarrow> status \<times> 'db"
  DB_Get :: "'db \<Rightarrow> string \<Rightarrow> status \<times> string"
  DB_Delete :: "'db \<Rightarrow> string \<Rightarrow> status \<times> 'db"
  DB_Write :: "'db \<Rightarrow> batch_op list \<Rightarrow> status \<times> 'db"
  DB_GetSnapshot :: "'db \<Rightarrow> 'db option"
  DB_Iterate :: "'db \<Rightarrow> seek \<Rightarrow> (string \<times> string) list \<times> status"

type_synonym contents = "string \<rightharpoonup> string"

fun apply_op :: "batch_op \<Rightarrow> contents \<Rightarrow> contents" where
  "apply_op (Batch_Delete k) m = m(k := None)"
| "apply_op (Batch_Put k v) m = m(k \<mapsto> v)"

definition apply_batch :: "batch_op list \<Rightarrow> contents \<Rightarrow> contents" where
  "apply_batch ops m = fold apply_op ops m"

fun seek_from :: "seek \<Rightarrow> string" where
  "seek_from SeekToFirst = []"
| "seek_from (Seek k) = k"

definition rocksdb_ok :: "'db rocksdb \<Rightarrow> ('db \<Rightarrow> contents) \<Rightarrow> bool" where
  "rocksdb_ok R \<alpha> \<longleftrightarrow>
     (\<forall>db. finite (dom (\<alpha> db))) \<and>
     (\<forall>db k v. DB_Get R db k = (Status_OK, v) \<longrightarrow> \<alpha> db k = Some v) \<and>
     (\<forall>db k m v. DB_Get R db k = (Status_NotFound m, v) \<longrightarrow> \<alpha> db k = None) \<and>
     (\<forall>db k v db'. DB_Put R db k v = (Status_OK, db') \<longrightarrow> \<alpha> db' = (\<alpha> db)(k \<mapsto> v)) \<and>
     (\<forall>db k db'. DB_Delete R db k = (Status_OK, db') \<longrightarrow> \<alpha> db' = (\<alpha> db)(k := None)) \<and>
     (\<forall>db ops st db'. DB_Write R db ops = (st, db') \<longrightarrow>
        \<alpha> db' = apply_batch ops (\<alpha> db) \<or> (st \<noteq> Status_OK \<and> \<alpha> db' = \<alpha> db)) \<and>
     (\<forall>db sn. DB_GetSnapshot R db = Some sn \<longrightarrow> \<alpha> sn = \<alpha> db) \<and>
     (\<forall>db sk xs. DB_Iterate R db sk = (xs, Status_OK) \<longrightarrow>
        sorted_wrt (<) (map fst xs) \<and>
        (\<forall>k. map_of xs k = (if seek_from sk \<le> k then \<alpha> db k else None)))"

definition rocksdb_faultless :: "'db rocksdb \<Rightarrow> bool" where
  "rocksdb_faultless R \<longleftrightarrow>
     (\<forall>db k. fst (DB_Get R db k) = Status_OK \<or> IsNotFound (fst (DB_Get R db k))) \<and>
     (\<forall>db k v. fst (DB_Put R db k v) = Status_OK) \<and>
     (\<forall>db k. fst (DB_Delete R db k) = Status_OK) \<and>
     (\<forall>db ops. fst (DB_Write R db ops) = Status_OK) \<and>
     (\<forall>db. DB_GetSnapshot R db \<noteq> None) \<and>
     (\<forall>db sk. snd (DB_Iterate R db sk) = Status_OK)"

text \<open>A write whose status is an error has not changed the contents.\<close>

definition rocksdb_clean :: "'db rocksdb \<Rightarrow> ('db \<Rightarrow> contents) \<Rightarrow> bool" where
  "rocksdb_clean R \<alpha> \<longleftrightarrow>
     (\<forall>db ops st db'. DB_Write R db ops = (st, db') \<longrightarrow> st \<noteq> Status_OK \<longrightarrow> \<alpha> db' = \<alpha> db)"

section \<open>The wrapper\<close>

definition RocksKVStore_open :: "'db rocksdb \<Rightarrow> string \<Rightarrow> error + 'db" where
  "RocksKVStore_open R db_path =
     (let (status, raw_db) = DB_Open R db_path
      in if status \<noteq> Status_OK
         then Inl (Runtime_error (''failed to open RocksDB at '' @ db_path @ ToString status))
         else Inr raw_db)"

definition Put :: "'db rocksdb \<Rightarrow> string \<Rightarrow> string \<Rightarrow> ('db, unit) M" where
  "Put R key value = (\<lambda>db.
     let (status, db') = DB_Put R db key value
     in if status \<noteq> Status_OK
        then (Inl (Runtime_error (''RocksDB Put failed: '' @ ToString status)), db')
        else (Inr (), db'))"

definition Get :: "'db rocksdb \<Rightarrow> 'db \<Rightarrow> string \<Rightarrow> error + string option" where
  "Get R db key =
     (let (status, value) = DB_Get R db key
      in if IsNotFound status then Inr None
         else if status \<noteq> Status_OK
         then Inl (Runtime_error (''RocksDB Get failed: '' @ ToString status))
         else Inr (Some value))"

definition Delete :: "'db rocksdb \<Rightarrow> string \<Rightarrow> ('db, bool) M" where
  "Delete R key = (\<lambda>db. case Get R db key of
       Inl e \<Rightarrow> (Inl e, db)
     | Inr None \<Rightarrow> (Inr False, db)
     | Inr (Some _) \<Rightarrow>
         (let (status, db') = DB_Delete R db key
          in if status \<noteq> Status_OK
             then (Inl (Runtime_error (''RocksDB Delete failed: '' @ ToString status)), db')
             else (Inr True, db')))"

definition WriteAtomically ::
  "'db rocksdb \<Rightarrow> (string \<times> string) list \<Rightarrow> string list \<Rightarrow> ('db, unit) M" where
  "WriteAtomically R puts deletes = (\<lambda>db.
     let batch = map Batch_Delete deletes @ map (\<lambda>(key, value). Batch_Put key value) puts;
         (status, db') = DB_Write R db batch
     in if status \<noteq> Status_OK
        then (Inl (Runtime_error (''RocksDB atomic write failed: '' @ ToString status)), db')
        else (Inr (), db'))"

text \<open>The loop over the iterator: it stops at the first key without the prefix.\<close>

fun collect_entries :: "string \<Rightarrow> (string \<times> string) list \<Rightarrow> (string \<times> string) list" where
  "collect_entries p [] = []"
| "collect_entries p ((key, value) # rest) =
     (if p \<noteq> [] \<and> take (length p) key \<noteq> p then [] else (key, value) # collect_entries p rest)"

definition GetAllPrefixedEntries ::
  "'db rocksdb \<Rightarrow> 'db \<Rightarrow> string \<Rightarrow> error + (string \<times> string) list" where
  "GetAllPrefixedEntries R db p = (case DB_GetSnapshot R db of
       None \<Rightarrow> Inl (Runtime_error ''failed to create RocksDB snapshot'')
     | Some snapshot \<Rightarrow>
         (let (xs, status) = DB_Iterate R snapshot (if p = [] then SeekToFirst else Seek p);
              entries = collect_entries p xs
          in if status \<noteq> Status_OK
             then Inl (Runtime_error (''RocksDB iteration failed: '' @ ToString status))
             else Inr entries))"

definition GetAllUserEntries :: "'db rocksdb \<Rightarrow> 'db \<Rightarrow> error + (string \<times> string) list" where
  "GetAllUserEntries R db =
     rbind (GetAllPrefixedEntries R db [])
       (\<lambda>entries. Inr (filter (\<lambda>entry. \<not> has_prefix ''__raft/'' (fst entry)) entries))"

definition LoadSnapshot :: "'db rocksdb \<Rightarrow> 'db \<Rightarrow> error + (string \<times> string) option" where
  "LoadSnapshot R db =
     (let (metadata_status, metadata) = DB_Get R db ''__raft/snapshot_metadata'';
          (data_status, data) = DB_Get R db ''__raft/snapshot_data''
      in if IsNotFound metadata_status \<and> IsNotFound data_status then Inr None
         else if metadata_status \<noteq> Status_OK \<or> data_status \<noteq> Status_OK
         then Inl (Runtime_error ''incomplete or corrupted persisted snapshot'')
         else Inr (Some (metadata, data)))"

section \<open>The contract of the wrapper\<close>

definition put_all :: "(string \<times> string) list \<Rightarrow> contents \<Rightarrow> contents" where
  "put_all puts m = fold (\<lambda>(k, v) m. m(k \<mapsto> v)) puts m"

definition delete_all :: "string list \<Rightarrow> contents \<Rightarrow> contents" where
  "delete_all ks m = (\<lambda>k. if k \<in> set ks then None else m k)"

lemma put_all_simps [simp]:
  "put_all [] m = m"
  "put_all ((k, v) # puts) m = put_all puts (m(k \<mapsto> v))"
  by (simp_all add: put_all_def)

lemma put_all_append: "put_all (xs @ ys) m = put_all ys (put_all xs m)"
  by (simp add: put_all_def)

lemma put_all_other: "k \<notin> fst ` set puts \<Longrightarrow> put_all puts m k = m k"
  by (induction puts arbitrary: m) auto

lemma put_all_lookup: "put_all puts m k = (case map_of (rev puts) k of None \<Rightarrow> m k | Some v \<Rightarrow> Some v)"
  by (induction puts arbitrary: m) (auto simp: map_add_def split: option.splits)

lemma put_all_in:
  assumes "distinct (map fst puts)" and "(k, v) \<in> set puts"
  shows "put_all puts m k = Some v"
  using assms by (simp add: put_all_lookup map_of_is_SomeI rev_map [symmetric])

lemma put_all_distinct:
  assumes "distinct (map fst puts)"
  shows "put_all puts m k = (case map_of puts k of None \<Rightarrow> m k | Some v \<Rightarrow> Some v)"
proof -
  have "map_of (rev puts) = map_of puts"
    using assms by (subst map_of_inject_set) (auto simp: rev_map [symmetric])
  then show ?thesis by (simp add: put_all_lookup)
qed

lemma delete_all_empty [simp]: "delete_all [] m = m"
  by (simp add: delete_all_def)

lemma apply_batch_deletes: "apply_batch (map Batch_Delete ks) m = delete_all ks m"
  by (induction ks arbitrary: m) (auto simp: apply_batch_def delete_all_def fun_eq_iff)

lemma apply_batch_puts: "apply_batch (map (\<lambda>(k, v). Batch_Put k v) puts) m = put_all puts m"
  by (induction puts arbitrary: m) (auto simp: apply_batch_def)

lemma apply_batch_append: "apply_batch (xs @ ys) m = apply_batch ys (apply_batch xs m)"
  by (simp add: apply_batch_def)

lemma finite_put_all: "finite (dom m) \<Longrightarrow> finite (dom (put_all puts m))"
  by (induction puts arbitrary: m) auto

lemma collect_entries_eq: "collect_entries p xs = takeWhile (\<lambda>e. prefix p (fst e)) xs"
  by (induction p xs rule: collect_entries.induct) (auto simp: prefix_iff_take)

lemma collect_entries_spec:
  assumes sorted: "sorted_wrt (<) (map fst xs)"
    and lookup: "\<And>k. map_of xs k = (if p \<le> k then m k else None)"
  shows "sorted_wrt (<) (map fst (collect_entries p xs))"
    and "map_of (collect_entries p xs) k = (if prefix p k then m k else None)"
proof -
  have "p \<le> fst x" if "x \<in> set xs" for x
  proof (rule ccontr)
    assume "\<not> p \<le> fst x"
    then have "map_of xs (fst x) = None" by (simp add: lookup)
    with that show False by (simp add: map_of_eq_None_iff)
  qed
  moreover have "sorted_wrt (\<lambda>x y. fst x < fst y) xs"
    using sorted by (simp add: sorted_wrt_map)
  ultimately have "sorted_wrt (\<lambda>x y. p \<le> fst x \<and> fst x < fst y) xs"
    by (induction xs) auto
  then have filter: "collect_entries p xs = filter (\<lambda>e. prefix p (fst e)) xs"
    unfolding collect_entries_eq
    by (rule takeWhile_eq_filter_wrt) (auto intro: prefix_between less_imp_le)
  then show "sorted_wrt (<) (map fst (collect_entries p xs))"
    using sorted by (simp add: sorted_wrt_map sorted_wrt_filter)
  show "map_of (collect_entries p xs) k = (if prefix p k then m k else None)"
    using prefix_imp_le by (simp add: filter map_of_filter_fst lookup)
qed

text \<open>
  What the storage layers above rely on. A handle that is \<open>good\<close> stands for the map \<open>abs db\<close>;
  a read that returns is a lookup in it, a batch that returns has applied all deletions and
  then all insertions, a batch that throws has applied all or nothing, and a prefix scan that
  returns lists exactly the entries under the prefix, once each and in key order.
\<close>

locale kv_store =
  fixes good :: "'db \<Rightarrow> bool"
    and abs :: "'db \<Rightarrow> contents"
    and kv_get :: "'db \<Rightarrow> string \<Rightarrow> error + string option"
    and kv_write :: "(string \<times> string) list \<Rightarrow> string list \<Rightarrow> ('db, unit) M"
    and kv_scan :: "'db \<Rightarrow> string \<Rightarrow> error + (string \<times> string) list"
  assumes finite_abs: "good db \<Longrightarrow> finite (dom (abs db))"
    and get_lookup: "good db \<Longrightarrow> kv_get db k = Inr r \<Longrightarrow> r = abs db k"
    and write_abs: "good db \<Longrightarrow> kv_write puts dels db = (Inr u, db') \<Longrightarrow>
      abs db' = put_all puts (delete_all dels (abs db))"
    and write_atomic: "good db \<Longrightarrow> kv_write puts dels db = (Inl e, db') \<Longrightarrow>
      abs db' = abs db \<or> abs db' = put_all puts (delete_all dels (abs db))"
    and write_good: "good db \<Longrightarrow> kv_write puts dels db = (out, db') \<Longrightarrow> good db'"
    and scan_sorted: "good db \<Longrightarrow> kv_scan db p = Inr xs \<Longrightarrow> sorted_wrt (<) (map fst xs)"
    and scan_lookup: "good db \<Longrightarrow> kv_scan db p = Inr xs \<Longrightarrow>
      map_of xs k = (if prefix p k then abs db k else None)"
begin

lemma write_frame:
  assumes "good db" and "kv_write puts dels db = (r, db')"
    and "k \<notin> fst ` set puts" and "k \<notin> set dels"
  shows "abs db' k = abs db k"
proof -
  have "put_all puts (delete_all dels (abs db)) k = abs db k"
    using assms(3,4) by (simp add: put_all_other delete_all_def)
  then show ?thesis
    using assms(1,2) by (cases r) (auto dest: write_abs write_atomic)
qed

lemma read_back:
  assumes "good db" and "kv_write puts dels db = (Inr u, db')" and "kv_get db' k = Inr r"
    and "distinct (map fst puts)" and "(k, v) \<in> set puts"
  shows "r = Some v"
  using assms by (metis get_lookup write_abs write_good put_all_in)

lemma read_deleted:
  assumes "good db" and "kv_write puts dels db = (Inr u, db')" and "kv_get db' k = Inr r"
    and "k \<in> set dels" and "k \<notin> fst ` set puts"
  shows "r = None"
proof -
  have "r = put_all puts (delete_all dels (abs db)) k"
    using assms(1,2,3) by (metis get_lookup write_abs write_good)
  then show ?thesis using assms(4,5) by (simp add: put_all_other delete_all_def)
qed

lemma scan_distinct: "good db \<Longrightarrow> kv_scan db p = Inr xs \<Longrightarrow> distinct (map fst xs)"
  using scan_sorted strict_sorted_iff by blast

lemma scan_member:
  assumes "good db" and "kv_scan db p = Inr xs"
  shows "(k, v) \<in> set xs \<longleftrightarrow> prefix p k \<and> abs db k = Some v"
proof -
  have "(k, v) \<in> set xs \<longleftrightarrow> map_of xs k = Some v"
    using scan_distinct [OF assms] by (simp add: map_of_eq_Some_iff)
  then show ?thesis using scan_lookup [OF assms] by auto
qed

end

text \<open>The same interface on a device that never fails: every operation returns.\<close>

locale kv_store_total = kv_store +
  assumes get_returns: "good db \<Longrightarrow> \<exists>r. kv_get db k = Inr r"
    and write_returns: "good db \<Longrightarrow> \<exists>db'. kv_write puts dels db = (Inr (), db')"
    and scan_returns: "good db \<Longrightarrow> \<exists>xs. kv_scan db p = Inr xs"
begin

lemma get_eq: "good db \<Longrightarrow> kv_get db k = Inr (abs db k)"
  using get_returns get_lookup by metis

lemma write_eq:
  assumes "good db"
  obtains db' where "kv_write puts dels db = (Inr (), db')"
    and "abs db' = put_all puts (delete_all dels (abs db))" and "good db'"
  using assms write_returns write_abs write_good by metis

lemma scan_eq:
  assumes "good db"
  obtains xs where "kv_scan db p = Inr xs" and "distinct (map fst xs)"
    and "\<And>k. map_of xs k = (if prefix p k then abs db k else None)"
  using assms scan_returns scan_lookup scan_distinct by metis

end

text \<open>The same interface on a device whose failed writes have no effect.\<close>

locale kv_store_clean = kv_store +
  assumes write_clean: "good db \<Longrightarrow> kv_write puts dels db = (Inl e, db') \<Longrightarrow> abs db' = abs db"
begin

lemma write_outcome:
  assumes "good db" and "kv_write puts dels db = (r, db')"
  shows "abs db' = (case r of Inl _ \<Rightarrow> abs db | Inr _ \<Rightarrow> put_all puts (delete_all dels (abs db)))"
  using assms by (cases r) (auto dest: write_clean write_abs)

end

section \<open>The wrapper meets its contract\<close>

lemma rocksdb_ok_Write:
  "rocksdb_ok R \<alpha> \<Longrightarrow> DB_Write R db ops = (st, db') \<Longrightarrow>
   \<alpha> db' = apply_batch ops (\<alpha> db) \<or> (st \<noteq> Status_OK \<and> \<alpha> db' = \<alpha> db)"
  by (simp add: rocksdb_ok_def)

lemma rocksdb_ok_Iterate:
  assumes "rocksdb_ok R \<alpha>" and "DB_Iterate R db sk = (xs, Status_OK)"
  shows "sorted_wrt (<) (map fst xs)"
    and "map_of xs k = (if seek_from sk \<le> k then \<alpha> db k else None)"
  using assms by (simp_all add: rocksdb_ok_def)

lemma Get_lookup: "rocksdb_ok R \<alpha> \<Longrightarrow> Get R db k = Inr r \<Longrightarrow> r = \<alpha> db k"
  unfolding rocksdb_ok_def Get_def
  by (cases "DB_Get R db k"; cases "fst (DB_Get R db k)") (auto split: if_splits)

lemma WriteAtomically_cases:
  assumes "rocksdb_ok R \<alpha>" and "WriteAtomically R puts deletes db = (r, db')"
  shows "\<alpha> db' = put_all puts (delete_all deletes (\<alpha> db)) \<or> ((\<exists>e. r = Inl e) \<and> \<alpha> db' = \<alpha> db)"
proof -
  let ?b = "map Batch_Delete deletes @ map (\<lambda>(k, v). Batch_Put k v) puts"
  obtain st where w: "DB_Write R db ?b = (st, db')" and r: "st \<noteq> Status_OK \<longrightarrow> (\<exists>e. r = Inl e)"
    using assms(2) by (auto simp: WriteAtomically_def split: prod.splits if_splits)
  have "apply_batch ?b (\<alpha> db) = put_all puts (delete_all deletes (\<alpha> db))"
    by (simp add: apply_batch_append apply_batch_deletes apply_batch_puts)
  with rocksdb_ok_Write [OF assms(1) w] r show ?thesis by auto
qed

lemma GetAllPrefixedEntries_spec:
  assumes "rocksdb_ok R \<alpha>" and "GetAllPrefixedEntries R db p = Inr entries"
  shows "sorted_wrt (<) (map fst entries)"
    and "map_of entries k = (if prefix p k then \<alpha> db k else None)"
proof -
  from assms(2) obtain snapshot xs where sn: "DB_GetSnapshot R db = Some snapshot"
    and it: "DB_Iterate R snapshot (if p = [] then SeekToFirst else Seek p) = (xs, Status_OK)"
    and e: "entries = collect_entries p xs"
    by (auto simp: GetAllPrefixedEntries_def split: option.splits prod.splits if_splits)
  have start: "seek_from (if p = [] then SeekToFirst else Seek p) = p" by simp
  have sorted: "sorted_wrt (<) (map fst xs)"
    and lookup: "\<And>k. map_of xs k = (if p \<le> k then \<alpha> snapshot k else None)"
    using rocksdb_ok_Iterate [OF assms(1) it] by (simp_all add: start)
  have "\<alpha> snapshot = \<alpha> db" using assms(1) sn by (simp add: rocksdb_ok_def)
  then show "sorted_wrt (<) (map fst entries)"
    and "map_of entries k = (if prefix p k then \<alpha> db k else None)"
    using collect_entries_spec [OF sorted lookup] by (simp_all add: e)
qed

interpretation rocks: kv_store "\<lambda>_. rocksdb_ok R \<alpha>" \<alpha> "Get R" "WriteAtomically R"
  "GetAllPrefixedEntries R" for R \<alpha>
proof unfold_locales
  show "finite (dom (\<alpha> db))" if "rocksdb_ok R \<alpha>" for db
    using that by (simp add: rocksdb_ok_def)
  show "\<alpha> db' = put_all puts (delete_all dels (\<alpha> db))"
    if "rocksdb_ok R \<alpha>" and "WriteAtomically R puts dels db = (Inr u, db')" for db puts dels u db'
    using WriteAtomically_cases [OF that] by simp
  show "\<alpha> db' = \<alpha> db \<or> \<alpha> db' = put_all puts (delete_all dels (\<alpha> db))"
    if "rocksdb_ok R \<alpha>" and "WriteAtomically R puts dels db = (Inl e, db')" for db puts dels e db'
    using WriteAtomically_cases [OF that] by auto
  show "map_of xs k = (if prefix p k then \<alpha> db k else None)"
    if "rocksdb_ok R \<alpha>" and "GetAllPrefixedEntries R db p = Inr xs" for db p xs k
    using that by (rule GetAllPrefixedEntries_spec)
qed (auto dest: Get_lookup GetAllPrefixedEntries_spec(1))

lemma faultless_Get: "rocksdb_faultless R \<Longrightarrow> \<exists>r. Get R db k = Inr r"
  by (auto simp: rocksdb_faultless_def Get_def split_beta)

lemma faultless_Write:
  "rocksdb_faultless R \<Longrightarrow> \<exists>db'. WriteAtomically R puts deletes db = (Inr (), db')"
  by (simp add: rocksdb_faultless_def WriteAtomically_def split_beta)

lemma faultless_scan: "rocksdb_faultless R \<Longrightarrow> \<exists>xs. GetAllPrefixedEntries R db p = Inr xs"
  by (auto simp: rocksdb_faultless_def GetAllPrefixedEntries_def split_beta split: option.split)

interpretation rocks_total: kv_store_total "\<lambda>_. rocksdb_ok R \<alpha> \<and> rocksdb_faultless R" \<alpha> "Get R"
  "WriteAtomically R" "GetAllPrefixedEntries R" for R \<alpha>
proof unfold_locales
  show "map_of xs k = (if prefix p k then \<alpha> db k else None)"
    if "rocksdb_ok R \<alpha> \<and> rocksdb_faultless R" and "GetAllPrefixedEntries R db p = Inr xs" for db p xs k
    using that by (blast intro: rocks.scan_lookup)
qed (blast dest: rocks.finite_abs rocks.get_lookup rocks.write_abs rocks.write_atomic
       rocks.scan_sorted faultless_Get faultless_Write faultless_scan)+

interpretation rocks_clean: kv_store_clean "\<lambda>_. rocksdb_ok R \<alpha> \<and> rocksdb_clean R \<alpha>" \<alpha> "Get R"
  "WriteAtomically R" "GetAllPrefixedEntries R" for R \<alpha>
proof unfold_locales
  show "map_of xs k = (if prefix p k then \<alpha> db k else None)"
    if "rocksdb_ok R \<alpha> \<and> rocksdb_clean R \<alpha>" and "GetAllPrefixedEntries R db p = Inr xs" for db p xs k
    using that by (blast intro: rocks.scan_lookup)
  show "\<alpha> db' = \<alpha> db"
    if "rocksdb_ok R \<alpha> \<and> rocksdb_clean R \<alpha>" and "WriteAtomically R puts dels db = (Inl e, db')" for db puts dels e db'
    using that by (auto simp: rocksdb_clean_def WriteAtomically_def Let_def split: prod.splits if_splits)
qed (blast dest: rocks.finite_abs rocks.get_lookup rocks.write_abs rocks.write_atomic rocks.scan_sorted)+

lemma faultless_clean: "rocksdb_faultless R \<Longrightarrow> rocksdb_clean R \<alpha>"
  unfolding rocksdb_faultless_def rocksdb_clean_def by (metis fst_conv)

end
