(* ===== verification/Command_Applier.thy ===== *)
theory Command_Applier
  imports Proto Rocks_KV_Store
begin

text \<open>
  \<open>src/command_applier.cpp\<close>: the deterministic application of one committed command to the
  store. \<open>ApplyAtomically\<close> writes the effect of the command, the record that its request was
  applied and the progress counters in one batch.

  The abstract machine is a pair of maps, the user keys and the applied requests
  (\<open>kv_machine\<close>), with the transition \<open>spec_apply\<close>. \<open>abs_machine\<close> reads that pair from the
  contents of the store, and the refinement lemma says that a returning \<open>ApplyAtomically\<close> is
  one transition of the machine.
\<close>

section \<open>Definitions\<close>

definition RequestKey :: "Command \<Rightarrow> string" where
  "RequestKey command =
     ''__raft/client/'' @ to_string_u64 (cmd_client_id command) @ ''/'' @
     to_string_u64 (cmd_request_id command)"

definition SerializeCommand :: "codecs \<Rightarrow> Command \<Rightarrow> error + string" where
  "SerializeCommand P command = (case serialize (command_pb P) command of
       None \<Rightarrow> Inl (Runtime_error ''failed to serialize Raft command'')
     | Some serialized \<Rightarrow> Inr serialized)"

definition Apply :: "'db rocksdb \<Rightarrow> Command \<Rightarrow> ('db, unit) M" where
  "Apply R command = (case cmd_type command of
       COMMAND_TYPE_PUT \<Rightarrow> Put R (cmd_key command) (cmd_value command)
     | COMMAND_TYPE_DELETE \<Rightarrow> mbind (Delete R (cmd_key command)) (\<lambda>_. ret ())
     | COMMAND_TYPE_GET \<Rightarrow>
         raise (Invalid_argument ''GET command cannot be applied to the state machine'')
     | _ \<Rightarrow> raise (Invalid_argument ''unsupported command type''))"

definition IsApplied :: "'db rocksdb \<Rightarrow> 'db \<Rightarrow> Command \<Rightarrow> error + bool" where
  "IsApplied R db command =
     (if cmd_request_id command = 0 then Inr False
      else rbind (Get R db (RequestKey command)) (\<lambda>v. Inr (v \<noteq> None)))"

definition progress_puts :: "u64 \<Rightarrow> u64 \<Rightarrow> (string \<times> string) list" where
  "progress_puts log_idx commit_index =
     [(''__raft/commit_index'', to_string_u64 commit_index),
      (''__raft/last_applied'', to_string_u64 log_idx)]"

text \<open>The puts that the switch over the command type adds, or the exception it throws.\<close>

definition effect_puts :: "Command \<Rightarrow> error + (string \<times> string) list" where
  "effect_puts command = (case cmd_type command of
       COMMAND_TYPE_PUT \<Rightarrow> Inr [(cmd_key command, cmd_value command)]
     | COMMAND_TYPE_DELETE \<Rightarrow> Inr []
     | COMMAND_TYPE_GET \<Rightarrow>
         Inl (Invalid_argument ''GET command cannot be applied to the state machine'')
     | _ \<Rightarrow> Inl (Invalid_argument ''unsupported command type''))"

definition ApplyFresh ::
  "'db rocksdb \<Rightarrow> Command \<Rightarrow> string \<Rightarrow> u64 \<Rightarrow> u64 \<Rightarrow> ('db, unit) M" where
  "ApplyFresh R command serialized_command log_idx commit_index =
     mbind (lift_result (effect_puts command)) (\<lambda>effect.
       WriteAtomically R
         (progress_puts log_idx commit_index @ effect @
          (if cmd_request_id command \<noteq> 0 then [(RequestKey command, serialized_command)] else []))
         (if cmd_type command = COMMAND_TYPE_DELETE then [cmd_key command] else []))"

definition ApplyAtomically ::
  "codecs \<Rightarrow> 'db rocksdb \<Rightarrow> Command \<Rightarrow> u64 \<Rightarrow> u64 \<Rightarrow> ('db, unit) M" where
  "ApplyAtomically P R command log_idx commit_index =
     (if has_prefix ''__raft/'' (cmd_key command)
      then raise (Invalid_argument ''keys beginning with __raft/ are reserved'')
      else mbind (lift_result (SerializeCommand P command)) (\<lambda>serialized_command.
        if cmd_request_id command \<noteq> 0
        then mget (\<lambda>db. mbind (lift_result (Get R db (RequestKey command))) (\<lambda>previous.
          case previous of
            Some p \<Rightarrow>
              if p \<noteq> serialized_command
              then raise (Invalid_argument
                     ''client request id was reused with a different command'')
              else WriteAtomically R (progress_puts log_idx commit_index) []
          | None \<Rightarrow> ApplyFresh R command serialized_command log_idx commit_index))
        else ApplyFresh R command serialized_command log_idx commit_index))"

section \<open>The abstract machine\<close>

record kv_machine =
  user_keys :: contents
  applied :: "u64 \<times> u64 \<rightharpoonup> string"

definition effect_on :: "Command \<Rightarrow> contents \<Rightarrow> contents option" where
  "effect_on c u = (case cmd_type c of
       COMMAND_TYPE_PUT \<Rightarrow> Some (u(cmd_key c \<mapsto> cmd_value c))
     | COMMAND_TYPE_DELETE \<Rightarrow> Some (u(cmd_key c := None))
     | _ \<Rightarrow> None)"

definition spec_apply :: "codecs \<Rightarrow> Command \<Rightarrow> kv_machine \<Rightarrow> kv_machine option" where
  "spec_apply P c k =
     (let rid = (cmd_client_id c, cmd_request_id c) in
      if has_prefix ''__raft/'' (cmd_key c) then None
      else case serialize (command_pb P) c of
        None \<Rightarrow> None
      | Some s \<Rightarrow>
          if cmd_request_id c = 0
          then map_option (\<lambda>u. k\<lparr>user_keys := u\<rparr>) (effect_on c (user_keys k))
          else case applied k rid of
            Some p \<Rightarrow> if p = s then Some k else None
          | None \<Rightarrow> map_option (\<lambda>u. k\<lparr>user_keys := u, applied := (applied k)(rid \<mapsto> s)\<rparr>)
                      (effect_on c (user_keys k)))"

definition client_key :: "u64 \<times> u64 \<Rightarrow> string" where
  "client_key rid = ''__raft/client/'' @ to_string_u64 (fst rid) @ ''/'' @ to_string_u64 (snd rid)"

definition user_part :: "contents \<Rightarrow> contents" where
  "user_part m = (\<lambda>k. if has_prefix ''__raft/'' k then None else m k)"

definition applied_part :: "contents \<Rightarrow> (u64 \<times> u64 \<rightharpoonup> string)" where
  "applied_part m = (\<lambda>rid. m (client_key rid))"

definition abs_machine :: "contents \<Rightarrow> kv_machine" where
  "abs_machine m = \<lparr>user_keys = user_part m, applied = applied_part m\<rparr>"

section \<open>Keys\<close>

lemma slash_not_digit: "\<not> is_digit (CHR ''/'')"
  by (simp add: is_digit_def)

lemma slash_notin_to_string [simp]: "CHR ''/'' \<notin> set (to_string_u64 x)"
  using dec_no_char [OF slash_not_digit] by (simp add: to_string_u64_def)

lemma client_key_inject [simp]: "client_key r = client_key r' \<longleftrightarrow> r = r'"
proof
  assume "client_key r = client_key r'"
  then have "to_string_u64 (fst r) @ CHR ''/'' # to_string_u64 (snd r)
    = to_string_u64 (fst r') @ CHR ''/'' # to_string_u64 (snd r')"
    by (simp add: client_key_def)
  from append_sep_inject [OF _ _ this] show "r = r'" by (simp add: prod_eq_iff)
qed simp

lemma RequestKey_eq: "RequestKey c = client_key (cmd_client_id c, cmd_request_id c)"
  by (simp add: RequestKey_def client_key_def)

lemma client_key_reserved [simp]: "prefix ''__raft/'' (client_key r)"
  by (simp add: client_key_def)

lemma client_key_prefix [simp]: "prefix ''__raft/client/'' (client_key r)"
  by (simp add: client_key_def)

lemma not_client_key [simp]:
  "\<not> prefix ''__raft/client/'' k \<Longrightarrow> k \<noteq> client_key r"
  "\<not> prefix ''__raft/client/'' k \<Longrightarrow> client_key r \<noteq> k"
  using client_key_prefix by metis+

lemma user_part_upd:
  "user_part (m(k \<mapsto> v)) = (if prefix ''__raft/'' k then user_part m else (user_part m)(k \<mapsto> v))"
  "user_part (m(k := None)) = (if prefix ''__raft/'' k then user_part m else (user_part m)(k := None))"
  by (auto simp: user_part_def)

lemma applied_part_upd [simp]:
  "\<not> prefix ''__raft/client/'' k \<Longrightarrow> applied_part (m(k := v)) = applied_part m"
  "applied_part (m(client_key r \<mapsto> s)) = (applied_part m)(r \<mapsto> s)"
  by (auto simp: applied_part_def)

lemma user_not_client: "\<not> prefix ''__raft/'' k \<Longrightarrow> \<not> prefix ''__raft/client/'' k"
  by (auto simp: prefix_def)

section \<open>Refinement\<close>

text \<open>
  The contents of the store after the command was accepted; \<open>None\<close> where the code throws.
\<close>

definition fresh_contents :: "Command \<Rightarrow> string \<Rightarrow> u64 \<Rightarrow> u64 \<Rightarrow> contents \<Rightarrow> contents option" where
  "fresh_contents c s i j m = (case effect_puts c of
       Inl _ \<Rightarrow> None
     | Inr eff \<Rightarrow> Some (put_all (progress_puts i j @ eff @
          (if cmd_request_id c \<noteq> 0 then [(RequestKey c, s)] else []))
          (delete_all (if cmd_type c = COMMAND_TYPE_DELETE then [cmd_key c] else []) m)))"

definition apply_contents :: "codecs \<Rightarrow> Command \<Rightarrow> u64 \<Rightarrow> u64 \<Rightarrow> contents \<Rightarrow> contents option" where
  "apply_contents P c i j m =
     (if has_prefix ''__raft/'' (cmd_key c) then None
      else case serialize (command_pb P) c of
        None \<Rightarrow> None
      | Some s \<Rightarrow>
          if cmd_request_id c = 0 then fresh_contents c s i j m
          else case m (RequestKey c) of
            Some p \<Rightarrow> if p = s then Some (put_all (progress_puts i j) m) else None
          | None \<Rightarrow> fresh_contents c s i j m)"

lemma delete_all_single: "delete_all [k] m = m(k := None)"
  by (auto simp: delete_all_def)

lemma fresh_contents_user:
  assumes "\<not> prefix ''__raft/'' (cmd_key c)"
  shows "map_option user_part (fresh_contents c s i j m) = effect_on c (user_part m)"
  using assms
  by (auto simp: fresh_contents_def effect_puts_def effect_on_def progress_puts_def put_all_append
      RequestKey_eq user_part_upd delete_all_single split: CommandType.splits)

lemma fresh_contents_applied:
  assumes "\<not> prefix ''__raft/'' (cmd_key c)" and "fresh_contents c s i j m = Some m'"
  shows "applied_part m' = (if cmd_request_id c = 0 then applied_part m
           else (applied_part m)((cmd_client_id c, cmd_request_id c) \<mapsto> s))"
  using assms(2) user_not_client [OF assms(1)]
  by (auto simp: fresh_contents_def effect_puts_def progress_puts_def put_all_append RequestKey_eq
      delete_all_single split: CommandType.splits)

lemma apply_contents_refines:
  "map_option abs_machine (apply_contents P c i j m) = spec_apply P c (abs_machine m)"
proof (cases "prefix ''__raft/'' (cmd_key c) \<or> serialize (command_pb P) c = None")
  case True
  then show ?thesis by (auto simp: apply_contents_def spec_apply_def)
next
  case False
  then obtain s where user: "\<not> prefix ''__raft/'' (cmd_key c)" and s: "serialize (command_pb P) c = Some s"
    by auto
  let ?rid = "(cmd_client_id c, cmd_request_id c)"
  have progress: "abs_machine (put_all (progress_puts i j) m) = abs_machine m"
    by (simp add: progress_puts_def abs_machine_def user_part_upd)
  have fresh: "map_option abs_machine (fresh_contents c s i j m) =
    map_option (\<lambda>u. \<lparr>user_keys = u, applied = if cmd_request_id c = 0 then applied_part m
      else (applied_part m)(?rid \<mapsto> s)\<rparr>) (effect_on c (user_part m))"
    using fresh_contents_applied [OF user, of s i j m] fresh_contents_user [OF user, of s i j m, symmetric]
    by (cases "fresh_contents c s i j m") (auto simp: abs_machine_def)
  have prev: "applied_part m ?rid = m (RequestKey c)"
    by (simp add: applied_part_def RequestKey_eq)
  show ?thesis
    using user s progress fresh prev
    by (auto simp: apply_contents_def spec_apply_def abs_machine_def Let_def option.map_comp comp_def
        split: option.splits)
qed

lemma ApplyAtomically_app:
  "ApplyAtomically P R c i j db =
     (if has_prefix ''__raft/'' (cmd_key c)
      then (Inl (Invalid_argument ''keys beginning with __raft/ are reserved''), db)
      else case serialize (command_pb P) c of
        None \<Rightarrow> (Inl (Runtime_error ''failed to serialize Raft command''), db)
      | Some s \<Rightarrow>
          if cmd_request_id c = 0 then ApplyFresh R c s i j db
          else case Get R db (RequestKey c) of
            Inl e \<Rightarrow> (Inl e, db)
          | Inr None \<Rightarrow> ApplyFresh R c s i j db
          | Inr (Some p) \<Rightarrow>
              if p \<noteq> s
              then (Inl (Invalid_argument ''client request id was reused with a different command''), db)
              else WriteAtomically R (progress_puts i j) [] db)"
  by (simp add: ApplyAtomically_def SerializeCommand_def mbind_app split: option.split sum.split)

lemma ApplyFresh_returns:
  "rocksdb_ok R \<alpha> \<Longrightarrow> ApplyFresh R c s i j db = (Inr u, db') \<Longrightarrow>
   fresh_contents c s i j (\<alpha> db) = Some (\<alpha> db')"
  unfolding ApplyFresh_def fresh_contents_def
  by (cases "effect_puts c") (auto simp: mbind_app dest: rocks.write_abs)

lemma ApplyFresh_throws:
  "rocksdb_ok R \<alpha> \<Longrightarrow> ApplyFresh R c s i j db = (Inl e, db') \<Longrightarrow>
   \<alpha> db' = \<alpha> db \<or> fresh_contents c s i j (\<alpha> db) = Some (\<alpha> db')"
  unfolding ApplyFresh_def fresh_contents_def
  by (cases "effect_puts c") (auto simp: mbind_app dest: rocks.write_atomic)

lemma ApplyAtomically_result:
  assumes ok: "rocksdb_ok R \<alpha>" and run: "ApplyAtomically P R c i j db = (r, db')"
    and user: "\<not> prefix ''__raft/'' (cmd_key c)" and s: "serialize (command_pb P) c = Some s"
  obtains "\<exists>e. r = Inl e" and "db' = db"
  | "ApplyFresh R c s i j db = (r, db')"
    and "apply_contents P c i j (\<alpha> db) = fresh_contents c s i j (\<alpha> db)"
  | "WriteAtomically R (progress_puts i j) [] db = (r, db')"
    and "apply_contents P c i j (\<alpha> db) = Some (put_all (progress_puts i j) (\<alpha> db))"
proof (cases "cmd_request_id c = 0")
  case True
  then show ?thesis using run user s that(2) by (simp add: ApplyAtomically_app apply_contents_def)
next
  case rid: False
  note app = ApplyAtomically_app [of P R c i j db] apply_contents_def [of P c i j "\<alpha> db"]
  show ?thesis
  proof (cases "Get R db (RequestKey c)")
    case (Inl e)
    then show ?thesis using run user s rid that(1) by (auto simp: app)
  next
    case (Inr prev)
    from rocks.get_lookup [OF ok Inr] have prev: "\<alpha> db (RequestKey c) = prev" by simp
    show ?thesis
      using run user s rid that Inr prev by (cases prev) (auto simp: app split: if_splits)
  qed
qed

lemma ApplyAtomically_rejects:
  assumes "ApplyAtomically P R c i j db = (r, db')"
    and "prefix ''__raft/'' (cmd_key c) \<or> serialize (command_pb P) c = None"
  shows "(\<exists>e. r = Inl e) \<and> db' = db"
  using assms by (auto simp: ApplyAtomically_app split: if_splits)

lemma ApplyAtomically_returns:
  assumes ok: "rocksdb_ok R \<alpha>" and run: "ApplyAtomically P R c i j db = (Inr u, db')"
  shows "apply_contents P c i j (\<alpha> db) = Some (\<alpha> db')"
proof -
  obtain s where user: "\<not> prefix ''__raft/'' (cmd_key c)" and s: "serialize (command_pb P) c = Some s"
    using ApplyAtomically_rejects [OF run] by auto
  from ok run user s show ?thesis
  proof (cases rule: ApplyAtomically_result)
    case 2
    with ApplyFresh_returns [OF ok] show ?thesis by simp
  next
    case 3
    with rocks.write_abs [OF ok] show ?thesis by simp
  qed simp
qed

lemma ApplyAtomically_throws:
  assumes ok: "rocksdb_ok R \<alpha>" and run: "ApplyAtomically P R c i j db = (Inl e, db')"
  shows "\<alpha> db' = \<alpha> db \<or> apply_contents P c i j (\<alpha> db) = Some (\<alpha> db')"
proof (cases "prefix ''__raft/'' (cmd_key c) \<or> serialize (command_pb P) c = None")
  case True
  then show ?thesis using ApplyAtomically_rejects [OF run] by simp
next
  case False
  then obtain s where user: "\<not> prefix ''__raft/'' (cmd_key c)" and s: "serialize (command_pb P) c = Some s"
    by auto
  from ok run user s show ?thesis
  proof (cases rule: ApplyAtomically_result)
    case 2
    with ApplyFresh_throws [OF ok] show ?thesis by simp
  next
    case 3
    with rocks.write_atomic [OF ok 3(1)] show ?thesis by auto
  qed simp
qed

lemma apply_contents_progress:
  assumes "apply_contents P c i j m = Some m'"
  shows "m' ''__raft/commit_index'' = Some (to_string_u64 j)"
    and "m' ''__raft/last_applied'' = Some (to_string_u64 i)"
proof -
  have "cmd_key c \<noteq> ''__raft/commit_index'' \<and> ''__raft/commit_index'' \<noteq> cmd_key c \<and>
    cmd_key c \<noteq> ''__raft/last_applied'' \<and> ''__raft/last_applied'' \<noteq> cmd_key c"
    using assms by (auto simp: apply_contents_def dest!: sym [of _ "cmd_key c"] split: if_splits)
  with assms show "m' ''__raft/commit_index'' = Some (to_string_u64 j)"
    and "m' ''__raft/last_applied'' = Some (to_string_u64 i)"
    by (auto simp: apply_contents_def fresh_contents_def effect_puts_def progress_puts_def
        put_all_append RequestKey_def split: if_splits option.splits CommandType.splits)
qed

lemma apply_contents_frame:
  assumes "apply_contents P c i j m = Some m'"
    and "prefix ''__raft/'' k" and "\<not> prefix ''__raft/client/'' k"
    and "k \<noteq> ''__raft/commit_index''" and "k \<noteq> ''__raft/last_applied''"
  shows "m' k = m k"
  using assms
  by (auto simp: apply_contents_def fresh_contents_def effect_puts_def progress_puts_def
      put_all_append RequestKey_eq delete_all_def split: if_splits option.splits CommandType.splits)

lemma apply_contents_cong:
  assumes "abs_machine m = abs_machine m'"
  shows "map_option abs_machine (apply_contents P c i j m)
       = map_option abs_machine (apply_contents P c i' j' m')"
  by (simp add: apply_contents_refines assms)

lemma ApplyAtomically_accepts:
  assumes ok: "rocksdb_ok R \<alpha>" and live: "rocksdb_faultless R"
    and m': "apply_contents P c i j (\<alpha> db) = Some m'"
  obtains db' where "ApplyAtomically P R c i j db = (Inr (), db')" and "\<alpha> db' = m'"
proof -
  obtain r db' where run: "ApplyAtomically P R c i j db = (r, db')" by fastforce
  obtain s where user: "\<not> prefix ''__raft/'' (cmd_key c)" and s: "serialize (command_pb P) c = Some s"
    using m' by (auto simp: apply_contents_def split: if_splits option.splits)
  have get: "Get R db k = Inr (\<alpha> db k)" for k
    using ok live by (simp add: rocks_total.get_eq)
  have "r = Inr ()"
    using run m' user s get faultless_Write [OF live]
    by (auto simp: ApplyAtomically_app apply_contents_def ApplyFresh_def fresh_contents_def mbind_app
        split: if_splits option.splits sum.splits) (metis prod.inject)+
  with run ApplyAtomically_returns [OF ok, of P c i j db] m' that show ?thesis by auto
qed

lemma ApplyAtomically_refuses:
  assumes ok: "rocksdb_ok R \<alpha>" and run: "ApplyAtomically P R c i j db = (r, db')"
    and none: "apply_contents P c i j (\<alpha> db) = None"
  shows "\<exists>e. r = Inl e" and "\<alpha> db' = \<alpha> db"
proof -
  show "\<exists>e. r = Inl e" using ApplyAtomically_returns [OF ok] run none by (cases r) auto
  then show "\<alpha> db' = \<alpha> db" using ApplyAtomically_throws [OF ok, of P c i j db _ db'] run none by auto
qed

lemma spec_apply_records:
  "spec_apply P c k = Some k' \<Longrightarrow> cmd_request_id c \<noteq> 0 \<Longrightarrow>
   \<exists>s. serialize (command_pb P) c = Some s \<and>
     applied k' (cmd_client_id c, cmd_request_id c) = Some s"
  by (auto simp: spec_apply_def Let_def split: if_splits option.splits)

end
