(* ===== verification/Raft_Storage.thy ===== *)
theory Raft_Storage
  imports Command_Applier
begin

text \<open>
  \<open>src/raft_storage.cpp\<close>: how the Raft metadata, the log, the snapshot and the request records
  are laid out under the reserved \<open>__raft/\<close> keys of the store, and how they are read back.

  \<open>represents P m st\<close> says that the contents \<open>m\<close> of the store hold the persisted state \<open>st\<close>.
  The lemmas show that \<open>Load\<close> reads back a represented state, that \<open>PersistState\<close>,
  \<open>PersistLog\<close> and \<open>PersistSnapshot\<close> establish their part of the representation, and that
  a serialised snapshot parses to the entries it was made from.
\<close>

section \<open>Definitions\<close>

record RaftLogEntry =
  entry_term :: u64
  entry_command :: string

record PersistedRaftState =
  ps_current_term :: u64
  ps_voted_for :: i64
  ps_commit_index :: u64
  ps_last_applied :: u64
  ps_snapshot_index :: u64
  ps_snapshot_term :: u64
  ps_snapshot_data :: string
  ps_log :: "RaftLogEntry list"

record SnapshotContents =
  sc_entries :: "(string \<times> string) list"
  sc_applied_requests :: "(string \<times> string) list"

definition ParseUint64 :: "string option \<Rightarrow> string \<Rightarrow> error + u64" where
  "ParseUint64 value key = (case value of
       None \<Rightarrow> Inr 0
     | Some v \<Rightarrow> rbind (stoull v) (\<lambda>(result, parsed).
         if parsed \<noteq> length v then Inl (Runtime_error (''invalid persisted Raft value: '' @ key))
         else Inr result))"

definition ParseInt64 :: "string option \<Rightarrow> string \<Rightarrow> error + i64" where
  "ParseInt64 value key = (case value of
       None \<Rightarrow> Inr (- 1)
     | Some v \<Rightarrow> rbind (stoll v) (\<lambda>(result, parsed).
         if parsed \<noteq> length v then Inl (Runtime_error (''invalid persisted Raft value: '' @ key))
         else Inr result))"

definition AppliedRequestKey :: "u64 \<Rightarrow> u64 \<Rightarrow> string" where
  "AppliedRequestKey client_id request_id =
     ''__raft/client/'' @ to_string_u64 client_id @ ''/'' @ to_string_u64 request_id"

definition SerializeSnapshotMetadata :: "codecs \<Rightarrow> u64 \<Rightarrow> u64 \<Rightarrow> error + string" where
  "SerializeSnapshotMetadata P last_included_index last_included_term =
     (case serialize (snapshot_metadata_pb P)
        \<lparr>sm_last_included_index = last_included_index, sm_last_included_term = last_included_term\<rparr> of
       None \<Rightarrow> Inl (Runtime_error ''failed to serialize Raft snapshot metadata'')
     | Some serialized \<Rightarrow> Inr serialized)"

definition SerializeSnapshotState ::
  "codecs \<Rightarrow> (string \<times> string) list \<Rightarrow> (string \<times> string) list \<Rightarrow> error + string" where
  "SerializeSnapshotState P entries applied_requests =
     (case serialize (snapshot_state_pb P)
        \<lparr>ss_entries = map (\<lambda>(key, value). \<lparr>se_key = key, se_value = value\<rparr>) entries,
         ss_applied_requests =
           map (\<lambda>(key, value). \<lparr>se_key = key, se_value = value\<rparr>) applied_requests\<rparr> of
       None \<Rightarrow> Inl (Runtime_error ''failed to serialize Raft snapshot state'')
     | Some serialized \<Rightarrow> Inr serialized)"

text \<open>The two loops of \<open>ParseSnapshotState\<close>; the set of keys seen so far is threaded through.\<close>

fun parse_entries :: "string set \<Rightarrow> SnapshotEntry list \<Rightarrow> error + (string \<times> string) list" where
  "parse_entries keys [] = Inr []"
| "parse_entries keys (entry # rest) =
     (if has_prefix ''__raft/'' (se_key entry) \<or> se_key entry \<in> keys
      then Inl (Runtime_error ''invalid Raft snapshot key set'')
      else rbind (parse_entries (insert (se_key entry) keys) rest)
             (\<lambda>es. Inr ((se_key entry, se_value entry) # es)))"

fun parse_applied :: "string set \<Rightarrow> SnapshotEntry list \<Rightarrow> error + (string \<times> string) list" where
  "parse_applied keys [] = Inr []"
| "parse_applied keys (entry # rest) =
     (if se_key entry = [] \<or> find_char (CHR ''/'') (se_key entry) = None \<or> se_key entry \<in> keys
      then Inl (Runtime_error ''invalid applied request set'')
      else rbind (parse_applied (insert (se_key entry) keys) rest)
             (\<lambda>es. Inr ((se_key entry, se_value entry) # es)))"

definition ParseSnapshotState :: "codecs \<Rightarrow> string \<Rightarrow> error + SnapshotContents" where
  "ParseSnapshotState P serialized = (case parse (snapshot_state_pb P) serialized of
       None \<Rightarrow> Inl (Runtime_error ''invalid Raft snapshot state'')
     | Some state \<Rightarrow>
         rbind (parse_entries {} (ss_entries state)) (\<lambda>entries.
         rbind (parse_applied {} (ss_applied_requests state)) (\<lambda>applied_requests.
         Inr \<lparr>sc_entries = entries, sc_applied_requests = applied_requests\<rparr>)))"

definition LogKey :: "u64 \<Rightarrow> string" where
  "LogKey index = ''__raft/log/'' @ to_string_u64 index"

text \<open>The loop of \<open>Load\<close> over the log keys. It ends at a missing key or at the largest index.\<close>

function load_log :: "codecs \<Rightarrow> 'db rocksdb \<Rightarrow> 'db \<Rightarrow> u64 \<Rightarrow> error + RaftLogEntry list" where
  "load_log P R db index = (case Get R db (LogKey index) of
       Inl e \<Rightarrow> Inl e
     | Inr None \<Rightarrow> Inr []
     | Inr (Some serialized) \<Rightarrow>
         (case parse (log_entry_pb P) serialized of
            None \<Rightarrow> Inl (Runtime_error ''corrupted persisted Raft log'')
          | Some entry \<Rightarrow>
              if le_index entry \<noteq> index then Inl (Runtime_error ''corrupted persisted Raft log'')
              else if index = - 1 then Inl (Runtime_error ''Raft log index overflow'')
              else (case load_log P R db (index + 1) of
                      Inl e \<Rightarrow> Inl e
                    | Inr log \<Rightarrow> Inr (\<lparr>entry_term = le_term entry, entry_command = le_command entry\<rparr> # log))))"
  by pat_completeness auto
termination
  by (relation "measure (\<lambda>(P, R, db, index). 2 ^ 64 - unat index)")
     (auto simp del: power_numeral intro: u64_up_measure)

declare load_log.simps [simp del]

definition Load :: "codecs \<Rightarrow> 'db rocksdb \<Rightarrow> 'db \<Rightarrow> error + PersistedRaftState" where
  "Load P R db =
     rbind (LoadSnapshot R db) (\<lambda>persisted_snapshot.
     rbind (case persisted_snapshot of
         None \<Rightarrow> Inr (0, 0, [])
       | Some (meta, data) \<Rightarrow>
           (case parse (snapshot_metadata_pb P) meta of
              None \<Rightarrow> Inl (Runtime_error ''invalid persisted Raft snapshot metadata'')
            | Some metadata \<Rightarrow>
                if sm_last_included_index metadata = 0 \<or> sm_last_included_term metadata = 0
                then Inl (Runtime_error ''invalid persisted Raft snapshot metadata'')
                else rbind (ParseSnapshotState P data) (\<lambda>_.
                  Inr (sm_last_included_index metadata, sm_last_included_term metadata, data))))
       (\<lambda>(snapshot_index, snapshot_term, snapshot_data).
     rbind (rbind (Get R db ''__raft/current_term'') (\<lambda>v. ParseUint64 v ''__raft/current_term''))
       (\<lambda>current_term.
     rbind (rbind (Get R db ''__raft/voted_for'') (\<lambda>v. ParseInt64 v ''__raft/voted_for''))
       (\<lambda>voted_for.
     rbind (rbind (Get R db ''__raft/commit_index'') (\<lambda>v. ParseUint64 v ''__raft/commit_index''))
       (\<lambda>commit_index.
     rbind (rbind (Get R db ''__raft/last_applied'') (\<lambda>v. ParseUint64 v ''__raft/last_applied''))
       (\<lambda>last_applied.
     rbind (load_log P R db (snapshot_index + 1)) (\<lambda>log.
     Inr \<lparr>ps_current_term = current_term, ps_voted_for = voted_for,
          ps_commit_index = commit_index, ps_last_applied = last_applied,
          ps_snapshot_index = snapshot_index, ps_snapshot_term = snapshot_term,
          ps_snapshot_data = snapshot_data, ps_log = log\<rparr>)))))))"

definition GetAppliedCommand :: "'db rocksdb \<Rightarrow> 'db \<Rightarrow> u64 \<Rightarrow> u64 \<Rightarrow> error + string option" where
  "GetAppliedCommand R db client_id request_id = Get R db (AppliedRequestKey client_id request_id)"

definition GetAppliedRequests :: "'db rocksdb \<Rightarrow> 'db \<Rightarrow> error + (string \<times> string) list" where
  "GetAppliedRequests R db =
     rbind (GetAllPrefixedEntries R db ''__raft/client/'') (\<lambda>persisted.
       Inr (map (\<lambda>(key, value). (drop (length ''__raft/client/'') key, value)) persisted))"

definition state_puts :: "u64 \<Rightarrow> i64 \<Rightarrow> u64 \<Rightarrow> u64 \<Rightarrow> u64 \<Rightarrow> u64 \<Rightarrow> (string \<times> string) list" where
  "state_puts current_term voted_for commit_index last_applied snapshot_index snapshot_term =
     [(''__raft/current_term'', to_string_u64 current_term),
      (''__raft/voted_for'', to_string_i64 voted_for),
      (''__raft/commit_index'', to_string_u64 commit_index),
      (''__raft/last_applied'', to_string_u64 last_applied),
      (''__raft/snapshot_index'', to_string_u64 snapshot_index),
      (''__raft/snapshot_term'', to_string_u64 snapshot_term)]"

definition PersistState ::
  "'db rocksdb \<Rightarrow> u64 \<Rightarrow> i64 \<Rightarrow> u64 \<Rightarrow> u64 \<Rightarrow> u64 \<Rightarrow> u64 \<Rightarrow> ('db, unit) M" where
  "PersistState R current_term voted_for commit_index last_applied snapshot_index snapshot_term =
     WriteAtomically R
       (state_puts current_term voted_for commit_index last_applied snapshot_index snapshot_term) []"

text \<open>
  The loop that serialises the retained log; \<open>index\<close> is the index before the first entry, so
  that the entry at offset \<open>o\<close> is stored under \<open>index + (o + 1)\<close>.
\<close>

fun log_puts :: "codecs \<Rightarrow> u64 \<Rightarrow> RaftLogEntry list \<Rightarrow> error + (string \<times> string) list" where
  "log_puts P index [] = Inr []"
| "log_puts P index (e # log) =
     (case serialize (log_entry_pb P)
        \<lparr>le_index = index + 1, le_term = entry_term e, le_command = entry_command e\<rparr> of
        None \<Rightarrow> Inl (Runtime_error ''failed to serialize Raft log entry'')
      | Some serialized \<Rightarrow>
          rbind (log_puts P (index + 1) log) (\<lambda>puts. Inr ((LogKey (index + 1), serialized) # puts)))"

text \<open>\<open>for (index = 1; index <= snapshot_index; ++index)\<close>, called with \<open>index = 1\<close>.\<close>

function prefix_deletes :: "u64 \<Rightarrow> u64 \<Rightarrow> error + string list" where
  "prefix_deletes index snapshot_index =
     (if index \<le> snapshot_index
      then if index = - 1 then Inl Divergence
           else rbind (prefix_deletes (index + 1) snapshot_index) (\<lambda>keys. Inr (LogKey index # keys))
      else Inr [])"
  by pat_completeness auto
termination
  by (relation "measure (\<lambda>(index, snapshot_index). 2 ^ 64 - unat index)")
     (auto simp del: power_numeral intro: u64_up_measure)

declare prefix_deletes.simps [simp del]

text \<open>
  The loop over the log keys after the last entry, called with \<open>index = first\<close>. It has no bound:
  it runs until a key is missing, and were every key present it would come back to \<open>first\<close> and
  never end.
\<close>

function tail_deletes :: "'db rocksdb \<Rightarrow> 'db \<Rightarrow> u64 \<Rightarrow> u64 \<Rightarrow> error + string list" where
  "tail_deletes R db first index = (case Get R db (LogKey index) of
       Inl e \<Rightarrow> Inl e
     | Inr None \<Rightarrow> Inr []
     | Inr (Some _) \<Rightarrow>
         if index + 1 = first then Inl Divergence
         else rbind (tail_deletes R db first (index + 1)) (\<lambda>keys. Inr (LogKey index # keys)))"
  by pat_completeness auto
termination
proof (relation "measure (\<lambda>(R, db, first, index). unat (first - 1 - index))", goal_cases)
  case (2 R db first index v w)
  then have "first - 1 - index \<noteq> 0" by (auto simp: algebra_simps)
  then have "unat (first - 1 - index - 1) < unat (first - 1 - index)" by (rule measure_unat)
  then show ?case by (simp add: algebra_simps)
qed simp

declare tail_deletes.simps [simp del]

definition PersistLog :: "codecs \<Rightarrow> 'db rocksdb \<Rightarrow> u64 \<Rightarrow> RaftLogEntry list \<Rightarrow> ('db, unit) M" where
  "PersistLog P R snapshot_index log = mget (\<lambda>db.
     mbind (lift_result (log_puts P snapshot_index log)) (\<lambda>puts.
     mbind (lift_result (prefix_deletes 1 snapshot_index)) (\<lambda>front.
     let last_index = snapshot_index + of_nat (length log) in
     mbind (lift_result (tail_deletes R db (last_index + 1) (last_index + 1))) (\<lambda>tail.
     let deletes = front @ tail in
     mwhen (puts \<noteq> [] \<or> deletes \<noteq> []) (WriteAtomically R puts deletes)))))"

definition PersistSnapshot ::
  "codecs \<Rightarrow> 'db rocksdb \<Rightarrow> u64 \<Rightarrow> i64 \<Rightarrow> u64 \<Rightarrow> u64 \<Rightarrow> u64 \<Rightarrow> u64 \<Rightarrow> string \<Rightarrow> string \<Rightarrow>
   RaftLogEntry list \<Rightarrow> ('db, unit) M" where
  "PersistSnapshot P R current_term voted_for commit_index last_applied snapshot_index snapshot_term
     metadata data log = mget (\<lambda>db.
     let puts =
       state_puts current_term voted_for commit_index last_applied snapshot_index snapshot_term @
       [(''__raft/snapshot_metadata'', metadata), (''__raft/snapshot_data'', data)] in
     mbind (lift_result (prefix_deletes 1 snapshot_index)) (\<lambda>front.
     let last_index = snapshot_index + of_nat (length log) in
     mbind (lift_result (tail_deletes R db (last_index + 1) (last_index + 1))) (\<lambda>tail.
     mbind (lift_result (log_puts P snapshot_index log)) (\<lambda>entries.
     WriteAtomically R (puts @ entries) (front @ tail)))))"

definition ApplySnapshot ::
  "codecs \<Rightarrow> 'db rocksdb \<Rightarrow> SnapshotContents \<Rightarrow> u64 \<Rightarrow> i64 \<Rightarrow> u64 \<Rightarrow> u64 \<Rightarrow> u64 \<Rightarrow> u64 \<Rightarrow>
   RaftLogEntry list \<Rightarrow> ('db, unit) M" where
  "ApplySnapshot P R snapshot current_term voted_for commit_index last_applied snapshot_index
     snapshot_term log = mget (\<lambda>db.
     mbind (lift_result (SerializeSnapshotMetadata P snapshot_index snapshot_term)) (\<lambda>metadata.
     mbind (lift_result (SerializeSnapshotState P (sc_entries snapshot) (sc_applied_requests snapshot)))
       (\<lambda>data.
     let puts =
       state_puts current_term voted_for commit_index last_applied snapshot_index snapshot_term @
       [(''__raft/snapshot_metadata'', metadata), (''__raft/snapshot_data'', data)] in
     mbind (lift_result (GetAllUserEntries R db)) (\<lambda>user.
     mbind (lift_result (GetAllPrefixedEntries R db ''__raft/client/'')) (\<lambda>client.
     mbind (lift_result (GetAllPrefixedEntries R db ''__raft/log/'')) (\<lambda>old_log.
     let deletes = map fst user @ map fst client @ map fst old_log;
         snapshot_puts = sc_entries snapshot @
           map (\<lambda>(key, value). (''__raft/client/'' @ key, value)) (sc_applied_requests snapshot) in
     mbind (lift_result (log_puts P snapshot_index log)) (\<lambda>entries.
     WriteAtomically R (puts @ snapshot_puts @ entries) deletes)))))))"

section \<open>Keys\<close>

lemma LogKey_inject [simp]: "LogKey i = LogKey j \<longleftrightarrow> i = j"
  by (simp add: LogKey_def)

lemma LogKey_prefix [simp]:
  "prefix ''__raft/'' (LogKey i)" "prefix ''__raft/log/'' (LogKey i)"
  "\<not> prefix ''__raft/client/'' (LogKey i)"
  by (simp_all add: LogKey_def)

lemma AppliedRequestKey_eq: "AppliedRequestKey c r = client_key (c, r)"
  by (simp add: AppliedRequestKey_def client_key_def)

text \<open>The fixed keys of the Raft metadata.\<close>

definition meta_keys :: "string list" where
  "meta_keys = [''__raft/current_term'', ''__raft/voted_for'', ''__raft/commit_index'',
     ''__raft/last_applied'', ''__raft/snapshot_index'', ''__raft/snapshot_term'',
     ''__raft/snapshot_metadata'', ''__raft/snapshot_data'']"

lemma meta_keys_prefix:
  assumes "k \<in> set meta_keys"
  shows "prefix ''__raft/'' k" and "\<not> prefix ''__raft/client/'' k" and "\<not> prefix ''__raft/log/'' k"
  using assms by (auto simp: meta_keys_def)

lemma LogKey_not_meta [simp]: "LogKey i \<notin> set meta_keys"
  by (auto simp: meta_keys_def LogKey_def)

lemma LogKey_neq_client [simp]: "LogKey i \<noteq> client_key r"
  by (simp add: LogKey_def client_key_def)

lemma state_puts_keys: "fst ` set (state_puts a b c d e f) \<subseteq> set meta_keys"
  by (simp add: state_puts_def meta_keys_def)

section \<open>The stored log\<close>

fun log_stored :: "codecs \<Rightarrow> contents \<Rightarrow> u64 \<Rightarrow> RaftLogEntry list \<Rightarrow> bool" where
  "log_stored P m index [] \<longleftrightarrow> m (LogKey (index + 1)) = None"
| "log_stored P m index (e # log) \<longleftrightarrow>
     (case m (LogKey (index + 1)) of
        None \<Rightarrow> False
      | Some s \<Rightarrow> parse (log_entry_pb P) s =
          Some \<lparr>le_index = index + 1, le_term = entry_term e, le_command = entry_command e\<rparr>) \<and>
     log_stored P m (index + 1) log"

lemma load_log_stored:
  assumes get: "\<And>k. Get R db k = Inr (m k)"
  shows "log_stored P m index log \<Longrightarrow> unat index + length log < 2 ^ 64 - 1 \<Longrightarrow>
    load_log P R db (index + 1) = Inr log"
proof (induction log arbitrary: index)
  case Nil
  then show ?case by (subst load_log.simps) (simp add: get)
next
  case (Cons e log)
  have up: "unat (index + 1) = unat index + 1"
    using Cons.prems(2) by (intro unat_add_one) simp
  have ne: "index + 1 \<noteq> - 1"
  proof
    assume "index + 1 = - 1"
    then have "unat (index + 1) = unat (- 1 :: u64)" by (simp only:)
    with Cons.prems(2) up show False by simp
  qed
  have "load_log P R db (index + 1 + 1) = Inr log"
    using Cons.prems up by (intro Cons.IH) auto
  with Cons.prems(1) ne show ?case
    by (subst load_log.simps) (auto simp: get split: option.splits)
qed

lemma log_stored_cong:
  "(\<And>i. m' (LogKey i) = m (LogKey i)) \<Longrightarrow> log_stored P m' index log = log_stored P m index log"
  by (induction log arbitrary: index) auto

lemma log_puts_keys:
  "log_puts P index log = Inr puts \<Longrightarrow>
   map fst puts = map (\<lambda>j. LogKey (index + 1 + of_nat j)) [0..<length log]"
proof (induction log arbitrary: index puts)
  case (Cons e log)
  then obtain s rest where rest: "log_puts P (index + 1) log = Inr rest"
    and puts: "puts = (LogKey (index + 1), s) # rest"
    by (auto simp: rbind_Inr_iff split: option.splits)
  have "[0..<length (e # log)] = 0 # map Suc [0..<length log]"
    by (simp only: length_Cons upt_conv_Cons [OF zero_less_Suc] map_Suc_upt)
  then show ?case using Cons.IH [OF rest]
    by (simp add: puts comp_def add.assoc) 
qed simp

lemma log_puts_total:
  "codec_total (log_entry_pb P) \<Longrightarrow> \<exists>puts. log_puts P index l = Inr puts"
proof (induction l arbitrary: index)
  case (Cons e l)
  then obtain rest where "log_puts P (index + 1) l = Inr rest" by blast
  moreover obtain s where "serialize (log_entry_pb P)
      \<lparr>le_index = index + 1, le_term = entry_term e, le_command = entry_command e\<rparr> = Some s"
    using codec_totalE [OF Cons.prems] .
  ultimately show ?case by simp
qed simp

lemma of_nat_u64_less: "n < 2 ^ 64 \<Longrightarrow> k < 2 ^ 64 \<Longrightarrow> (of_nat n :: u64) = of_nat k \<longleftrightarrow> n = k"
  by (simp add: word_unat_eq_iff unat_of_nat)

lemma log_puts_distinct:
  assumes "log_puts P index log = Inr puts" and "length log < 2 ^ 64"
  shows "distinct (map fst puts)" and "LogKey (index + of_nat (length log) + 1) \<notin> fst ` set puts"
proof -
  have inj: "inj_on (\<lambda>j. LogKey (index + 1 + of_nat j)) {0..<Suc (length log)}"
    using assms(2) by (intro inj_onI) (simp add: of_nat_u64_less)
  show "distinct (map fst puts)"
    unfolding log_puts_keys [OF assms(1)] distinct_map
    using inj by (auto intro: inj_on_subset)
  show "LogKey (index + of_nat (length log) + 1) \<notin> fst ` set puts"
  proof
    assume "LogKey (index + of_nat (length log) + 1) \<in> fst ` set puts"
    then have "LogKey (index + of_nat (length log) + 1) \<in> set (map fst puts)" by simp
    then obtain k where "k < length log" and "LogKey (index + of_nat (length log) + 1) = LogKey (index + 1 + of_nat k)"
      unfolding log_puts_keys [OF assms(1)] by auto
    then show False using assms(2) of_nat_u64_less [of "length log" k] by simp
  qed
qed

lemma log_puts_stored:
  assumes ok: "codec_ok (log_entry_pb P)"
  shows "log_puts P index log = Inr puts \<Longrightarrow> (\<And>k v. (k, v) \<in> set puts \<Longrightarrow> m k = Some v) \<Longrightarrow>
    m (LogKey (index + of_nat (length log) + 1)) = None \<Longrightarrow> log_stored P m index log"
proof (induction log arbitrary: index puts)
  case (Cons e log)
  from Cons.prems(1) obtain s rest where rest: "log_puts P (index + 1) log = Inr rest"
    and s: "serialize (log_entry_pb P)
      \<lparr>le_index = index + 1, le_term = entry_term e, le_command = entry_command e\<rparr> = Some s"
    and puts: "puts = (LogKey (index + 1), s) # rest"
    by (auto simp: rbind_Inr_iff split: option.splits)
  have "log_stored P m (index + 1) log"
    using Cons.prems(2,3) by (intro Cons.IH [OF rest]) (auto simp: puts algebra_simps)
  moreover have "m (LogKey (index + 1)) = Some s" using Cons.prems(2) by (simp add: puts)
  ultimately show ?case using codec_parse [OF ok s] by simp
qed simp

lemma prefix_deletes_keys:
  "prefix_deletes index s = Inr ks \<Longrightarrow> set ks = LogKey ` {i. index \<le> i \<and> i \<le> s}"
proof (induction index s arbitrary: ks rule: prefix_deletes.induct)
  case (1 index s)
  show ?case
  proof (cases "index \<le> s")
    case False
    with "1.prems" show ?thesis by (subst (asm) prefix_deletes.simps) auto
  next
    case True
    with "1.prems" have ne: "index \<noteq> - 1" by (subst (asm) prefix_deletes.simps) auto
    with True "1.prems" obtain rest where rest: "prefix_deletes (index + 1) s = Inr rest"
      and ks: "ks = LogKey index # rest"
      by (subst (asm) prefix_deletes.simps) (auto simp: rbind_Inr_iff)
    have "{i. index \<le> i \<and> i \<le> s} = insert index {i. index + 1 \<le> i \<and> i \<le> s}"
      using True unat_add_one_max [OF ne] by (auto simp: word_le_nat_alt word_unat_eq_iff)
    with "1.IH" [OF True ne rest] show ?thesis by (simp add: ks)
  qed
qed

lemma prefix_deletes_returns:
  "s \<noteq> - 1 \<Longrightarrow> \<exists>ks. prefix_deletes index s = Inr ks"
proof (induction index s rule: prefix_deletes.induct)
  case (1 index s)
  show ?case
  proof (cases "index \<le> s")
    case False
    then show ?thesis by (subst prefix_deletes.simps) simp
  next
    case True
    with "1.prems" have ne: "index \<noteq> - 1" by (auto dest: word_order.extremum_uniqueI)
    from "1.IH" [OF True ne "1.prems"] True ne show ?thesis by (subst prefix_deletes.simps) auto
  qed
qed

lemma tail_deletes_keys:
  "tail_deletes R db first index = Inr ks \<Longrightarrow> (\<And>k r. Get R db k = Inr r \<Longrightarrow> r = m k) \<Longrightarrow>
    set ks \<subseteq> range LogKey \<and> (LogKey index \<in> set ks \<or> m (LogKey index) = None)"
proof (induction R db first index arbitrary: ks rule: tail_deletes.induct)
  case (1 R db first index)
  show ?case
  proof (cases "Get R db (LogKey index) = Inr None")
    case True
    with "1.prems" show ?thesis by (subst (asm) tail_deletes.simps) auto
  next
    case False
    with "1.prems"(1) obtain v rest where v: "Get R db (LogKey index) = Inr (Some v)"
      and ne: "index + 1 \<noteq> first" and rest: "tail_deletes R db first (index + 1) = Inr rest"
      and ks: "ks = LogKey index # rest"
      by (subst (asm) tail_deletes.simps) (auto simp: rbind_Inr_iff split: sum.splits option.splits if_splits)
    from "1.IH" [OF v refl ne rest "1.prems"(2)] show ?thesis by (auto simp: ks)
  qed
qed

lemma tail_deletes_returns:
  assumes get: "\<And>k. Get R db k = Inr (m k)" and free: "m (LogKey j) = None"
  shows "unat (j - index) \<le> unat (first - 1 - index) \<Longrightarrow> \<exists>ks. tail_deletes R db first index = Inr ks"
proof (induction "unat (j - index)" arbitrary: index)
  case 0
  then have "j = index" by (simp add: unat_eq_0)
  with free show ?case by (subst tail_deletes.simps) (simp add: get)
next
  case (Suc d)
  then have ne: "j - index \<noteq> 0" by auto
  have "0 < unat (first - 1 - index)" using Suc.prems Suc.hyps(2) by linarith
  then have nf: "first - 1 - index \<noteq> 0" by (metis unat_0 less_irrefl)
  have step: "index + 1 \<noteq> first"
  proof
    assume "index + 1 = first"
    then have "first - 1 - index = 0" by (simp flip: \<open>index + 1 = first\<close>)
    with nf show False by simp
  qed
  have "unat (j - (index + 1)) = unat (j - index) - 1"
    and "unat (first - 1 - (index + 1)) = unat (first - 1 - index) - 1"
    using unat_minus_one [OF ne] unat_minus_one [OF nf] by (simp_all add: algebra_simps)
  with Suc have "\<exists>ks. tail_deletes R db first (index + 1) = Inr ks" by (intro Suc.hyps(1)) auto
  with step show ?case by (subst tail_deletes.simps) (auto simp: get split: option.split)
qed

section \<open>Reading back what was written\<close>

definition snapshot_stored :: "codecs \<Rightarrow> contents \<Rightarrow> u64 \<Rightarrow> u64 \<Rightarrow> string \<Rightarrow> bool" where
  "snapshot_stored P m index term data \<longleftrightarrow>
     (case (m ''__raft/snapshot_metadata'', m ''__raft/snapshot_data'') of
        (None, None) \<Rightarrow> index = 0 \<and> term = 0 \<and> data = []
      | (Some x, Some y) \<Rightarrow>
          parse (snapshot_metadata_pb P) x =
            Some \<lparr>sm_last_included_index = index, sm_last_included_term = term\<rparr> \<and>
          index \<noteq> 0 \<and> term \<noteq> 0 \<and> y = data \<and> (\<exists>c. ParseSnapshotState P data = Inr c)
      | _ \<Rightarrow> False)"

definition represents :: "codecs \<Rightarrow> contents \<Rightarrow> PersistedRaftState \<Rightarrow> bool" where
  "represents P m st \<longleftrightarrow>
     ParseUint64 (m ''__raft/current_term'') ''__raft/current_term'' = Inr (ps_current_term st) \<and>
     ParseInt64 (m ''__raft/voted_for'') ''__raft/voted_for'' = Inr (ps_voted_for st) \<and>
     ParseUint64 (m ''__raft/commit_index'') ''__raft/commit_index'' = Inr (ps_commit_index st) \<and>
     ParseUint64 (m ''__raft/last_applied'') ''__raft/last_applied'' = Inr (ps_last_applied st) \<and>
     snapshot_stored P m (ps_snapshot_index st) (ps_snapshot_term st) (ps_snapshot_data st) \<and>
     log_stored P m (ps_snapshot_index st) (ps_log st)"

lemma ParseUint64_to_string [simp]: "ParseUint64 (Some (to_string_u64 x)) key = Inr x"
  by (simp add: ParseUint64_def)

lemma ParseInt64_to_string [simp]: "ParseInt64 (Some (to_string_i64 x)) key = Inr x"
  by (simp add: ParseInt64_def)

lemma LoadSnapshot_eq:
  assumes "rocksdb_ok R \<alpha>" and "rocksdb_faultless R"
  shows "LoadSnapshot R db =
    (case (\<alpha> db ''__raft/snapshot_metadata'', \<alpha> db ''__raft/snapshot_data'') of
       (None, None) \<Rightarrow> Inr None
     | (Some x, Some y) \<Rightarrow> Inr (Some (x, y))
     | _ \<Rightarrow> Inl (Runtime_error ''incomplete or corrupted persisted snapshot''))"
proof -
  have get: "Get R db k = Inr (\<alpha> db k)" for k
    using assms by (simp add: rocks_total.get_eq)
  show ?thesis
    using get [of "''__raft/snapshot_metadata''"] get [of "''__raft/snapshot_data''"]
    by (cases "\<alpha> db ''__raft/snapshot_metadata''"; cases "\<alpha> db ''__raft/snapshot_data''")
       (auto simp: LoadSnapshot_def Get_def split: if_splits prod.splits)
qed

lemma Load_represents:
  assumes "rocksdb_ok R \<alpha>" and "rocksdb_faultless R"
    and rep: "represents P (\<alpha> db) st"
    and room: "unat (ps_snapshot_index st) + length (ps_log st) < 2 ^ 64 - 1"
  shows "Load P R db = Inr st"
proof -
  have get: "Get R db k = Inr (\<alpha> db k)" for k
    using assms(1,2) by (simp add: rocks_total.get_eq)
  have log: "load_log P R db (ps_snapshot_index st + 1) = Inr (ps_log st)"
    using rep room by (intro load_log_stored [OF get]) (auto simp: represents_def)
  have snap: "snapshot_stored P (\<alpha> db) (ps_snapshot_index st) (ps_snapshot_term st) (ps_snapshot_data st)"
    using rep by (simp add: represents_def)
  show ?thesis
    using rep snap log
    by (auto simp: Load_def LoadSnapshot_eq [OF assms(1,2)] get represents_def snapshot_stored_def
        split: option.splits)
qed

text \<open>What each write does to the parts of the representation.\<close>

lemma PersistState_abs:
  "rocksdb_ok R \<alpha> \<Longrightarrow> PersistState R a b c d e f db = (Inr u, db') \<Longrightarrow>
   \<alpha> db' = put_all (state_puts a b c d e f) (\<alpha> db)"
  unfolding PersistState_def by (drule (1) rocks.write_abs) simp

lemma state_puts_get:
  "put_all (state_puts a b c d e f) m ''__raft/current_term'' = Some (to_string_u64 a)"
  "put_all (state_puts a b c d e f) m ''__raft/voted_for'' = Some (to_string_i64 b)"
  "put_all (state_puts a b c d e f) m ''__raft/commit_index'' = Some (to_string_u64 c)"
  "put_all (state_puts a b c d e f) m ''__raft/last_applied'' = Some (to_string_u64 d)"
  "put_all (state_puts a b c d e f) m ''__raft/snapshot_metadata'' = m ''__raft/snapshot_metadata''"
  "put_all (state_puts a b c d e f) m ''__raft/snapshot_data'' = m ''__raft/snapshot_data''"
  by (simp_all add: state_puts_def)

lemma state_puts_frame: "k \<notin> set meta_keys \<Longrightarrow> put_all (state_puts a b c d e f) m k = m k"
  using state_puts_keys by (intro put_all_other) blast

lemma represents_PersistState:
  assumes "represents P m st"
  shows "represents P (put_all (state_puts a b c d e f) m)
    (st\<lparr>ps_current_term := a, ps_voted_for := b, ps_commit_index := c, ps_last_applied := d\<rparr>)"
proof -
  have "log_stored P (put_all (state_puts a b c d e f) m) i l = log_stored P m i l" for i l
    by (rule log_stored_cong) (simp add: state_puts_frame)
  then show ?thesis
    using assms by (simp add: represents_def snapshot_stored_def state_puts_get)
qed

lemma PersistLog_abs:
  assumes ok: "rocksdb_ok R \<alpha>" and run: "PersistLog P R s log db = (Inr u, db')"
  obtains puts dels where "log_puts P s log = Inr puts"
    and "\<alpha> db' = put_all puts (delete_all dels (\<alpha> db))"
    and "set dels \<subseteq> range LogKey"
    and "LogKey (s + of_nat (length log) + 1) \<in> set dels \<or> \<alpha> db (LogKey (s + of_nat (length log) + 1)) = None"
proof -
  let ?last = "s + of_nat (length log)"
  note run' = run [unfolded PersistLog_def, simplified, unfolded mbind_app, simplified]
  obtain puts where puts: "log_puts P s log = Inr puts"
    using run' by (cases "log_puts P s log") auto
  obtain front where front: "prefix_deletes 1 s = Inr front"
    using run' puts by (cases "prefix_deletes 1 s") (auto simp: mbind_app)
  obtain tail where tail: "tail_deletes R db (?last + 1) (?last + 1) = Inr tail"
    using run' puts front
    by (cases "tail_deletes R db (?last + 1) (?last + 1)") (auto simp: mbind_app Let_def)
  have "\<alpha> db' = put_all puts (delete_all (front @ tail) (\<alpha> db))"
    using run' puts front tail rocks.write_abs [OF ok]
    by (auto simp: mbind_app Let_def mwhen_def split: if_splits)
  moreover have td: "set tail \<subseteq> range LogKey \<and>
      (LogKey (?last + 1) \<in> set tail \<or> \<alpha> db (LogKey (?last + 1)) = None)"
    using tail by (rule tail_deletes_keys) (rule rocks.get_lookup [OF ok])
  moreover have "set (front @ tail) \<subseteq> range LogKey"
    using prefix_deletes_keys [OF front] td by auto
  moreover have "LogKey (?last + 1) \<in> set (front @ tail) \<or> \<alpha> db (LogKey (?last + 1)) = None"
    using td by auto
  ultimately show ?thesis using that puts by blast
qed

lemma PersistLog_stored:
  assumes ok: "rocksdb_ok R \<alpha>" and pb: "codec_ok (log_entry_pb P)"
    and run: "PersistLog P R s log db = (Inr u, db')" and room: "length log < 2 ^ 64"
  shows "log_stored P (\<alpha> db') s log" and "k \<notin> range LogKey \<Longrightarrow> \<alpha> db' k = \<alpha> db k"
proof -
  from ok run obtain puts dels where puts: "log_puts P s log = Inr puts"
    and abs: "\<alpha> db' = put_all puts (delete_all dels (\<alpha> db))"
    and dels: "set dels \<subseteq> range LogKey"
    and past: "LogKey (s + of_nat (length log) + 1) \<in> set dels \<or>
      \<alpha> db (LogKey (s + of_nat (length log) + 1)) = None"
    by (rule PersistLog_abs)
  note dist = log_puts_distinct [OF puts room]
  have "\<alpha> db' (LogKey (s + of_nat (length log) + 1)) = None"
    using past dist(2) by (auto simp: abs put_all_other delete_all_def)
  then show "log_stored P (\<alpha> db') s log"
    using put_all_in [OF dist(1)] by (intro log_puts_stored [OF pb puts]) (auto simp: abs)
  have "fst ` set puts \<subseteq> range LogKey"
    using arg_cong [OF log_puts_keys [OF puts], of set] by auto
  then have "k \<notin> fst ` set puts" and "k \<notin> set dels" if "k \<notin> range LogKey"
    using that dels by blast+
  then show "\<alpha> db' k = \<alpha> db k" if "k \<notin> range LogKey"
    using that by (simp add: abs put_all_other delete_all_def)
qed

lemma meta_not_LogKey: "k \<in> set meta_keys \<Longrightarrow> k \<notin> range LogKey"
  using LogKey_not_meta by blast

lemma represents_PersistLog:
  assumes "log_stored P m' (ps_snapshot_index st) log"
    and frame: "\<And>k. k \<in> set meta_keys \<Longrightarrow> m' k = m k"
    and "represents P m st"
  shows "represents P m' (st\<lparr>ps_log := log\<rparr>)"
proof -
  note keys = frame [unfolded meta_keys_def, simplified]
  show ?thesis using assms(1,3) by (simp add: represents_def snapshot_stored_def keys)
qed

section \<open>Snapshots\<close>

lemma parse_entries_iff:
  "parse_entries keys xs = Inr es \<longleftrightarrow>
     es = map (\<lambda>e. (se_key e, se_value e)) xs \<and> distinct (map se_key xs) \<and>
     (\<forall>e\<in>set xs. \<not> prefix ''__raft/'' (se_key e) \<and> se_key e \<notin> keys)"
  by (induction keys xs arbitrary: es rule: parse_entries.induct)
     (auto simp: rbind_Inr_iff image_iff dest: sym)

lemma find_char_None: "find_char c s = None \<longleftrightarrow> c \<notin> set s"
  by (induction s) auto

lemma parse_applied_iff:
  "parse_applied keys xs = Inr es \<longleftrightarrow>
     es = map (\<lambda>e. (se_key e, se_value e)) xs \<and> distinct (map se_key xs) \<and>
     (\<forall>e\<in>set xs. CHR ''/'' \<in> set (se_key e) \<and> se_key e \<notin> keys)"
  by (induction keys xs arbitrary: es rule: parse_applied.induct)
     (auto simp: rbind_Inr_iff find_char_None image_iff dest: sym)

text \<open>The key sets that a snapshot may hold.\<close>

definition snapshot_keys_ok :: "(string \<times> string) list \<Rightarrow> (string \<times> string) list \<Rightarrow> bool" where
  "snapshot_keys_ok entries requests \<longleftrightarrow>
     distinct (map fst entries) \<and> (\<forall>e\<in>set entries. \<not> prefix ''__raft/'' (fst e)) \<and>
     distinct (map fst requests) \<and> (\<forall>e\<in>set requests. CHR ''/'' \<in> set (fst e))"

lemma ParseSnapshotState_Serialize:
  assumes "codec_ok (snapshot_state_pb P)" and "SerializeSnapshotState P entries requests = Inr s"
  shows "ParseSnapshotState P s = Inr c \<longleftrightarrow> snapshot_keys_ok entries requests \<and>
    c = \<lparr>sc_entries = entries, sc_applied_requests = requests\<rparr>"
proof -
  let ?f = "\<lambda>(key, value). \<lparr>se_key = key, se_value = value\<rparr>"
  have "serialize (snapshot_state_pb P)
      \<lparr>ss_entries = map ?f entries, ss_applied_requests = map ?f requests\<rparr> = Some s"
    using assms(2) by (simp add: SerializeSnapshotState_def split: option.splits)
  from codec_parse [OF assms(1) this]
  have p: "parse (snapshot_state_pb P) s =
      Some \<lparr>ss_entries = map ?f entries, ss_applied_requests = map ?f requests\<rparr>" .
  have f: "map (\<lambda>e. (se_key e, se_value e)) (map ?f xs) = xs" "map se_key (map ?f xs) = map fst xs" for xs
    by (induction xs) auto
  show ?thesis
    by (auto simp: ParseSnapshotState_def p rbind_Inr_iff parse_entries_iff parse_applied_iff
        snapshot_keys_ok_def f split_beta simp del: map_map)
qed

lemma GetAllUserEntries_spec:
  assumes "rocksdb_ok R \<alpha>" and "GetAllUserEntries R db = Inr es"
  shows "distinct (map fst es)" and "map_of es = user_part (\<alpha> db)"
    and "e \<in> set es \<Longrightarrow> \<not> prefix ''__raft/'' (fst e)"
proof -
  from assms(2) obtain xs where xs: "GetAllPrefixedEntries R db [] = Inr xs"
    and es: "es = filter (\<lambda>e. \<not> prefix ''__raft/'' (fst e)) xs"
    by (auto simp: GetAllUserEntries_def rbind_Inr_iff)
  show "distinct (map fst es)"
    using rocks.scan_distinct [OF assms(1) xs] by (simp add: es distinct_map_filter)
  show "map_of es = user_part (\<alpha> db)"
    using rocks.scan_lookup [OF assms(1) xs]
    by (auto simp: es user_part_def map_of_filter_fst [where P = "\<lambda>k. \<not> prefix ''__raft/'' k"])
  show "e \<in> set es \<Longrightarrow> \<not> prefix ''__raft/'' (fst e)" by (simp add: es)
qed

lemma client_strip: "prefix ''__raft/client/'' k \<Longrightarrow> ''__raft/client/'' @ drop (length ''__raft/client/'') k = k"
  by (auto simp: prefix_def)

lemma GetAppliedRequests_spec:
  assumes "rocksdb_ok R \<alpha>" and "GetAppliedRequests R db = Inr rs"
  shows "distinct (map fst rs)" and "map_of rs k = \<alpha> db (''__raft/client/'' @ k)"
proof -
  let ?d = "drop (length ''__raft/client/'') :: string \<Rightarrow> string"
  from assms(2) obtain xs where xs: "GetAllPrefixedEntries R db ''__raft/client/'' = Inr xs"
    and rs: "rs = map (\<lambda>(key, value). (?d key, value)) xs"
    by (auto simp: GetAppliedRequests_def rbind_Inr_iff)
  have strip: "''__raft/client/'' @ ?d x = x" if "x \<in> fst ` set xs" for x
    using that rocks.scan_member [OF assms(1) xs] by (intro client_strip) auto
  have keys: "map fst rs = map ?d (map fst xs)" by (auto simp: rs)
  have "inj_on ?d (fst ` set xs)"
    by (rule inj_on_inverseI [where g = "\<lambda>k. ''__raft/client/'' @ k"]) (rule strip)
  then show dist: "distinct (map fst rs)"
    unfolding keys distinct_map [of ?d] set_map using rocks.scan_distinct [OF assms(1) xs] by blast
  have "(k, v) \<in> set rs \<longleftrightarrow> (''__raft/client/'' @ k, v) \<in> set xs" for v
  proof
    assume "(k, v) \<in> set rs"
    then obtain x where x: "(x, v) \<in> set xs" and k: "k = ?d x" by (auto simp: rs)
    from x have "x \<in> fst ` set xs" by force
    from strip [OF this] x show "(''__raft/client/'' @ k, v) \<in> set xs" unfolding k by simp
  next
    assume "(''__raft/client/'' @ k, v) \<in> set xs"
    then have "(?d (''__raft/client/'' @ k), v) \<in> set rs" unfolding rs by force
    then show "(k, v) \<in> set rs" by simp
  qed
  then have "map_of rs k = Some v \<longleftrightarrow> \<alpha> db (''__raft/client/'' @ k) = Some v" for v
    using rocks.scan_member [OF assms(1) xs] dist by (simp add: map_of_eq_Some_iff)
  then show "map_of rs k = \<alpha> db (''__raft/client/'' @ k)" by (metis option.exhaust)
qed

text \<open>Every record of an applied request is stored under the key of some request.\<close>

definition client_keys_wf :: "contents \<Rightarrow> bool" where
  "client_keys_wf m \<longleftrightarrow>
     (\<forall>k. prefix ''__raft/client/'' k \<longrightarrow> m k \<noteq> None \<longrightarrow> CHR ''/'' \<in> set (drop (length ''__raft/client/'') k))"

lemma snapshot_keys_of_store:
  assumes "rocksdb_ok R \<alpha>" and "GetAllUserEntries R db = Inr es" and "GetAppliedRequests R db = Inr rs"
    and "client_keys_wf (\<alpha> db)"
  shows "snapshot_keys_ok es rs"
proof -
  have "CHR ''/'' \<in> set (fst e)" if "e \<in> set rs" for e
  proof -
    have "map_of rs (fst e) \<noteq> None" using that by (simp add: map_of_eq_None_iff)
    then have "\<alpha> db (''__raft/client/'' @ fst e) \<noteq> None"
      by (simp add: GetAppliedRequests_spec(2) [OF assms(1,3)])
    with assms(4) have "CHR ''/'' \<in> set (drop (length ''__raft/client/'') (''__raft/client/'' @ fst e))"
      unfolding client_keys_wf_def by (metis prefixI)
    then show ?thesis by simp
  qed
  then show ?thesis
    using GetAllUserEntries_spec [OF assms(1,2)] GetAppliedRequests_spec(1) [OF assms(1,3)]
    by (simp add: snapshot_keys_ok_def)
qed

lemma ApplySnapshot_abs:
  assumes ok: "rocksdb_ok R \<alpha>"
    and run: "ApplySnapshot P R sc ct vf ci la si st log db = (Inr u, db')"
  obtains metadata data entries where
    "SerializeSnapshotMetadata P si st = Inr metadata"
    and "SerializeSnapshotState P (sc_entries sc) (sc_applied_requests sc) = Inr data"
    and "log_puts P si log = Inr entries"
    and "\<alpha> db' = put_all
      (state_puts ct vf ci la si st @
       [(''__raft/snapshot_metadata'', metadata), (''__raft/snapshot_data'', data)] @
       sc_entries sc @ map (\<lambda>(key, value). (''__raft/client/'' @ key, value)) (sc_applied_requests sc) @
       entries)
      (\<lambda>k. if \<not> prefix ''__raft/'' k \<or> prefix ''__raft/client/'' k \<or> prefix ''__raft/log/'' k
           then None else \<alpha> db k)"
proof -
  note run' = run [unfolded ApplySnapshot_def, simplified, unfolded mbind_app, simplified]
  obtain metadata where metadata: "SerializeSnapshotMetadata P si st = Inr metadata"
    using run' by (cases "SerializeSnapshotMetadata P si st") auto
  obtain data where data: "SerializeSnapshotState P (sc_entries sc) (sc_applied_requests sc) = Inr data"
    using run' metadata
    by (cases "SerializeSnapshotState P (sc_entries sc) (sc_applied_requests sc)") (auto simp: mbind_app)
  obtain us where us: "GetAllUserEntries R db = Inr us"
    using run' metadata data by (cases "GetAllUserEntries R db") (auto simp: mbind_app)
  obtain cs where cs: "GetAllPrefixedEntries R db ''__raft/client/'' = Inr cs"
    using run' metadata data us
    by (cases "GetAllPrefixedEntries R db ''__raft/client/''") (auto simp: mbind_app)
  obtain ls where ls: "GetAllPrefixedEntries R db ''__raft/log/'' = Inr ls"
    using run' metadata data us cs
    by (cases "GetAllPrefixedEntries R db ''__raft/log/''") (auto simp: mbind_app)
  obtain entries where entries: "log_puts P si log = Inr entries"
    using run' metadata data us cs ls by (cases "log_puts P si log") (auto simp: mbind_app Let_def)
  let ?puts = "state_puts ct vf ci la si st @
       [(''__raft/snapshot_metadata'', metadata), (''__raft/snapshot_data'', data)] @
       sc_entries sc @ map (\<lambda>(key, value). (''__raft/client/'' @ key, value)) (sc_applied_requests sc) @
       entries"
  let ?dels = "map fst us @ map fst cs @ map fst ls"
  have "WriteAtomically R ?puts ?dels db = (Inr u, db')"
    using run' metadata data us cs ls entries by (simp add: mbind_app Let_def)
  from rocks.write_abs [OF ok this] have "\<alpha> db' = put_all ?puts (delete_all ?dels (\<alpha> db))" .
  moreover have "delete_all ?dels (\<alpha> db) =
      (\<lambda>k. if \<not> prefix ''__raft/'' k \<or> prefix ''__raft/client/'' k \<or> prefix ''__raft/log/'' k
           then None else \<alpha> db k)"
  proof
    fix k
    have "k \<in> fst ` set us \<longleftrightarrow> user_part (\<alpha> db) k \<noteq> None"
      using GetAllUserEntries_spec(2) [OF ok us] by (metis map_of_eq_None_iff)
    moreover have "k \<in> fst ` set cs \<longleftrightarrow> prefix ''__raft/client/'' k \<and> \<alpha> db k \<noteq> None"
      using rocks.scan_lookup [OF ok cs, of k] by (metis map_of_eq_None_iff)
    moreover have "k \<in> fst ` set ls \<longleftrightarrow> prefix ''__raft/log/'' k \<and> \<alpha> db k \<noteq> None"
      using rocks.scan_lookup [OF ok ls, of k] by (metis map_of_eq_None_iff)
    ultimately show "delete_all ?dels (\<alpha> db) k =
      (if \<not> prefix ''__raft/'' k \<or> prefix ''__raft/client/'' k \<or> prefix ''__raft/log/'' k
       then None else \<alpha> db k)"
      by (auto simp: delete_all_def user_part_def)
  qed
  ultimately show ?thesis using that metadata data entries by simp
qed

lemma log_puts_range: "log_puts P index log = Inr puts \<Longrightarrow> fst ` set puts \<subseteq> range LogKey"
  by (simp only: set_map [symmetric] log_puts_keys) auto

lemma disjoint_classes:
  assumes "A \<subseteq> M" and "L \<subseteq> K" and "E \<subseteq> {k. \<not> U k}" and "C \<subseteq> {k. V k}"
    and "\<forall>k\<in>M. U k \<and> \<not> V k \<and> k \<notin> K" and "\<forall>k\<in>K. U k \<and> \<not> V k"
    and "\<forall>k. \<not> U k \<longrightarrow> \<not> V k"
  shows "\<not> U k \<Longrightarrow> k \<notin> A \<and> k \<notin> C \<and> k \<notin> L"
    and "V k \<Longrightarrow> k \<notin> A \<and> k \<notin> E \<and> k \<notin> L"
    and "k \<in> K \<Longrightarrow> k \<notin> A \<and> k \<notin> E \<and> k \<notin> C"
    and "k \<in> M \<Longrightarrow> k \<notin> E \<and> k \<notin> C \<and> k \<notin> L"
  using assms by blast+

text \<open>
  The batch of \<open>ApplySnapshot\<close> writes four disjoint classes of keys: the metadata, the user
  keys, the request records and the log.
\<close>

lemma snapshot_batch:
  assumes keys: "snapshot_keys_ok E Q" and log: "fst ` set L \<subseteq> range LogKey"
    and meta: "fst ` set A \<subseteq> set meta_keys"
    and empty: "\<forall>k. \<not> prefix ''__raft/'' k \<or> prefix ''__raft/client/'' k \<longrightarrow> m0 k = None"
  defines "m' \<equiv> put_all (A @ E @ map (\<lambda>(key, value). (''__raft/client/'' @ key, value)) Q @ L) m0"
  shows "user_part m' = map_of E"
    and "m' (''__raft/client/'' @ k) = map_of Q k"
    and "m' (LogKey i) = put_all L m0 (LogKey i)"
    and "key \<in> set meta_keys \<Longrightarrow> m' key = put_all A m0 key"
proof -
  let ?C = "map (\<lambda>(key, value). (''__raft/client/'' @ key, value)) Q"
  have C: "fst ` set ?C \<subseteq> {k. prefix ''__raft/client/'' k}" by force
  have E: "fst ` set E \<subseteq> {k. \<not> prefix ''__raft/'' k}" "distinct (map fst E)"
    and Q: "distinct (map fst Q)"
    using keys by (auto simp: snapshot_keys_ok_def)
  have M: "\<forall>k\<in>set meta_keys. prefix ''__raft/'' k \<and> \<not> prefix ''__raft/client/'' k \<and> k \<notin> range LogKey"
    using meta_keys_prefix meta_not_LogKey by simp
  have K: "\<forall>k\<in>range LogKey. prefix ''__raft/'' k \<and> \<not> prefix ''__raft/client/'' k"
    by simp
  have V: "\<forall>k. \<not> prefix ''__raft/'' k \<longrightarrow> \<not> prefix ''__raft/client/'' k"
    using user_not_client by blast
  note classes = disjoint_classes [OF meta log E(1) C M K V]
  show "user_part m' = map_of E"
  proof
    fix k
    show "user_part m' k = map_of E k"
    proof (cases "prefix ''__raft/'' k")
      case True
      then have "k \<notin> fst ` set E" using E(1) by auto
      then have "map_of E k = None" by (simp only: map_of_eq_None_iff not_False_eq_True)
      with True show ?thesis by (simp add: user_part_def)
    next
      case False
      then have c: "k \<notin> fst ` set A" "k \<notin> fst ` set ?C" "k \<notin> fst ` set L" using classes(1) by blast+
      have "m' k = put_all E (put_all A m0) k"
        unfolding m'_def put_all_append by (simp only: put_all_other [OF c(3)] put_all_other [OF c(2)])
      with False show ?thesis
        by (simp add: put_all_distinct [OF E(2)] put_all_other [OF c(1)] empty user_part_def split: option.split)
    qed
  qed
  have dC: "distinct (map fst ?C)"
    using Q by (simp add: comp_def split_beta distinct_map inj_on_def)
  have qC: "map_of ?C (''__raft/client/'' @ k) = map_of Q k" for k
    by (induction Q) auto
  have c: "''__raft/client/'' @ k \<notin> fst ` set A" "''__raft/client/'' @ k \<notin> fst ` set E"
    "''__raft/client/'' @ k \<notin> fst ` set L"
    using classes(2) [of "''__raft/client/'' @ k"] by simp_all
  have "m' (''__raft/client/'' @ k) = put_all ?C (put_all E (put_all A m0)) (''__raft/client/'' @ k)"
    unfolding m'_def put_all_append by (simp only: put_all_other [OF c(3)])
  also have "\<dots> = map_of Q k"
    by (simp only: put_all_distinct [OF dC] put_all_other [OF c(2)] put_all_other [OF c(1)] qC)
       (simp add: empty split: option.split)
  finally show "m' (''__raft/client/'' @ k) = map_of Q k" .
  show "m' (LogKey i) = put_all L m0 (LogKey i)"
  proof -
    have c: "LogKey i \<notin> fst ` set A" "LogKey i \<notin> fst ` set E" "LogKey i \<notin> fst ` set ?C"
      using classes(3) [OF rangeI, of i] by blast+
    show ?thesis
      unfolding m'_def put_all_append put_all_lookup [of L]
      by (simp only: put_all_other [OF c(3)] put_all_other [OF c(2)] put_all_other [OF c(1)])
  qed
  show "m' key = put_all A m0 key" if "key \<in> set meta_keys"
  proof -
    have c: "key \<notin> fst ` set E" "key \<notin> fst ` set ?C" "key \<notin> fst ` set L"
      using classes(4) [OF that] by blast+
    show ?thesis
      unfolding m'_def put_all_append
      by (simp only: put_all_other [OF c(3)] put_all_other [OF c(2)] put_all_other [OF c(1)])
  qed
qed

text \<open>The puts of the metadata in both snapshot operations.\<close>

definition meta_puts ::
    "u64 \<Rightarrow> i64 \<Rightarrow> u64 \<Rightarrow> u64 \<Rightarrow> u64 \<Rightarrow> u64 \<Rightarrow> string \<Rightarrow> string \<Rightarrow> (string \<times> string) list" where
  "meta_puts ct vf ci la si st metadata data = state_puts ct vf ci la si st @
     [(''__raft/snapshot_metadata'', metadata), (''__raft/snapshot_data'', data)]"

lemma meta_puts_keys: "fst ` set (meta_puts ct vf ci la si st metadata data) = set meta_keys"
  by (auto simp: meta_puts_def state_puts_def meta_keys_def)

lemma put_all_meta:
  assumes "k \<in> set meta_keys"
  shows "put_all (meta_puts ct vf ci la si st metadata data) m k = map_of (meta_puts ct vf ci la si st metadata data) k"
proof -
  have "distinct (map fst (meta_puts ct vf ci la si st metadata data))"
    by (simp add: meta_puts_def state_puts_def)
  moreover have "map_of (meta_puts ct vf ci la si st metadata data) k \<noteq> None"
    using assms by (simp only: map_of_eq_None_iff meta_puts_keys) simp
  ultimately show ?thesis by (auto simp: put_all_distinct)
qed

text \<open>What the metadata keys and the log keys of a store say, together.\<close>

lemma represents_meta:
  assumes "\<And>k. k \<in> set meta_keys \<Longrightarrow> m k = map_of (meta_puts ct vf ci la si st metadata data) k"
    and "log_stored P m si log" and "codecs_ok P" and "SerializeSnapshotMetadata P si st = Inr metadata"
    and "ParseSnapshotState P data = Inr c" and "si \<noteq> 0" and "st \<noteq> 0"
  shows "represents P m \<lparr>ps_current_term = ct, ps_voted_for = vf, ps_commit_index = ci,
      ps_last_applied = la, ps_snapshot_index = si, ps_snapshot_term = st, ps_snapshot_data = data,
      ps_log = log\<rparr>"
proof -
  have "parse (snapshot_metadata_pb P) metadata =
      Some \<lparr>sm_last_included_index = si, sm_last_included_term = st\<rparr>"
    using assms(3,4)
    by (auto simp: SerializeSnapshotMetadata_def codecs_ok_def intro: codec_parse split: option.splits)
  moreover have "m ''__raft/snapshot_metadata'' = Some metadata" "m ''__raft/snapshot_data'' = Some data"
    "m ''__raft/current_term'' = Some (to_string_u64 ct)" "m ''__raft/voted_for'' = Some (to_string_i64 vf)"
    "m ''__raft/commit_index'' = Some (to_string_u64 ci)" "m ''__raft/last_applied'' = Some (to_string_u64 la)"
    by (subst assms(1); simp add: meta_keys_def meta_puts_def state_puts_def)+
  ultimately show ?thesis
    using assms(2,5-7) by (simp add: represents_def snapshot_stored_def)
qed

text \<open>A batch that puts the entries of a log, over contents without the key behind the last of them.\<close>

lemma put_log_stored:
  assumes "codecs_ok P" and entries: "log_puts P si log = Inr entries" and room: "length log < 2 ^ 64"
    and lk: "\<And>i. m (LogKey i) = put_all entries m0 (LogKey i)"
    and past: "m0 (LogKey (si + of_nat (length log) + 1)) = None"
  shows "log_stored P m si log"
proof (rule log_puts_stored [OF _ entries])
  note dist = log_puts_distinct [OF entries room]
  show "codec_ok (log_entry_pb P)" using assms(1) by (simp add: codecs_ok_def)
  show "m k = Some v" if "(k, v) \<in> set entries" for k v
  proof -
    have "k \<in> fst ` set entries" using that by (rule image_eqI [rotated]) simp
    then obtain i where "k = LogKey i" using log_puts_range [OF entries] by (auto dest: subsetD)
    then show ?thesis using lk [of i] put_all_in [OF dist(1) that] by (simp only:)
  qed
  show "m (LogKey (si + of_nat (length log) + 1)) = None"
    unfolding lk put_all_other [OF dist(2)] by (rule past)
qed

lemma ApplySnapshot_stored:
  assumes ok: "rocksdb_ok R \<alpha>" and pb: "codecs_ok P"
    and run: "ApplySnapshot P R sc ct vf ci la si st log db = (Inr u, db')"
    and keys: "snapshot_keys_ok (sc_entries sc) (sc_applied_requests sc)"
    and room: "length log < 2 ^ 64"
  obtains metadata data where "SerializeSnapshotMetadata P si st = Inr metadata"
    and "SerializeSnapshotState P (sc_entries sc) (sc_applied_requests sc) = Inr data"
    and "log_stored P (\<alpha> db') si log"
    and "\<And>k. k \<in> set meta_keys \<Longrightarrow> \<alpha> db' k = map_of (meta_puts ct vf ci la si st metadata data) k"
    and "user_part (\<alpha> db') = map_of (sc_entries sc)"
    and "\<And>k. \<alpha> db' (''__raft/client/'' @ k) = map_of (sc_applied_requests sc) k"
proof -
  from ok run obtain metadata data entries where
    metadata: "SerializeSnapshotMetadata P si st = Inr metadata"
    and data: "SerializeSnapshotState P (sc_entries sc) (sc_applied_requests sc) = Inr data"
    and entries: "log_puts P si log = Inr entries"
    and abs: "\<alpha> db' = put_all
      (meta_puts ct vf ci la si st metadata data @
       sc_entries sc @ map (\<lambda>(key, value). (''__raft/client/'' @ key, value)) (sc_applied_requests sc) @
       entries)
      (\<lambda>k. if \<not> prefix ''__raft/'' k \<or> prefix ''__raft/client/'' k \<or> prefix ''__raft/log/'' k
           then None else \<alpha> db k)" (is "_ = put_all (?A @ _) ?m0")
    by (rule ApplySnapshot_abs) (simp add: meta_puts_def)
  have A: "fst ` set ?A \<subseteq> set meta_keys" by (simp only: meta_puts_keys subset_refl)
  have empty: "\<forall>k. \<not> prefix ''__raft/'' k \<or> prefix ''__raft/client/'' k \<longrightarrow> ?m0 k = None" by simp
  note batch = snapshot_batch [OF keys log_puts_range [OF entries] A empty, folded abs]
  have "log_stored P (\<alpha> db') si log"
    by (rule put_log_stored [OF pb entries room batch(3)]) simp
  moreover have "\<alpha> db' k = map_of ?A k" if "k \<in> set meta_keys" for k
    using batch(4) [OF that] put_all_meta [OF that] by (simp only:)
  ultimately show ?thesis using that metadata data batch(1,2) by blast
qed

lemma ApplySnapshot_installs:
  assumes ok: "rocksdb_ok R \<alpha>" and pb: "codecs_ok P"
    and run: "ApplySnapshot P R sc ct vf ci la si st log db = (Inr u, db')"
    and keys: "snapshot_keys_ok (sc_entries sc) (sc_applied_requests sc)"
    and nz: "si \<noteq> 0" "st \<noteq> 0" and room: "length log < 2 ^ 64"
  obtains data where "SerializeSnapshotState P (sc_entries sc) (sc_applied_requests sc) = Inr data"
    and "user_part (\<alpha> db') = map_of (sc_entries sc)"
    and "\<And>k. \<alpha> db' (''__raft/client/'' @ k) = map_of (sc_applied_requests sc) k"
    and "represents P (\<alpha> db') \<lparr>ps_current_term = ct, ps_voted_for = vf, ps_commit_index = ci,
      ps_last_applied = la, ps_snapshot_index = si, ps_snapshot_term = st, ps_snapshot_data = data,
      ps_log = log\<rparr>"
proof -
  obtain metadata data where
    metadata: "SerializeSnapshotMetadata P si st = Inr metadata"
    and data: "SerializeSnapshotState P (sc_entries sc) (sc_applied_requests sc) = Inr data"
    and logs: "log_stored P (\<alpha> db') si log"
    and meta: "\<And>k. k \<in> set meta_keys \<Longrightarrow> \<alpha> db' k = map_of (meta_puts ct vf ci la si st metadata data) k"
    and parts: "user_part (\<alpha> db') = map_of (sc_entries sc)"
      "\<And>k. \<alpha> db' (''__raft/client/'' @ k) = map_of (sc_applied_requests sc) k"
    using ApplySnapshot_stored [OF ok pb run keys room] by metis
  obtain c where c: "ParseSnapshotState P data = Inr c"
    using ParseSnapshotState_Serialize [OF _ data] keys pb by (auto simp: codecs_ok_def)
  from that [OF data parts represents_meta [OF meta logs pb metadata c nz]] show ?thesis by simp
qed

lemma PersistSnapshot_abs:
  assumes ok: "rocksdb_ok R \<alpha>"
    and run: "PersistSnapshot P R ct vf ci la s st metadata data log db = (Inr u, db')"
  obtains entries dels where "log_puts P s log = Inr entries"
    and "\<alpha> db' = put_all ((state_puts ct vf ci la s st @
      [(''__raft/snapshot_metadata'', metadata), (''__raft/snapshot_data'', data)]) @ entries)
      (delete_all dels (\<alpha> db))"
    and "set dels \<subseteq> range LogKey"
    and "LogKey (s + of_nat (length log) + 1) \<in> set dels \<or> \<alpha> db (LogKey (s + of_nat (length log) + 1)) = None"
proof -
  let ?last = "s + of_nat (length log)"
  note run' = run [unfolded PersistSnapshot_def Let_def, simplified, unfolded mbind_app, simplified]
  obtain front where front: "prefix_deletes 1 s = Inr front"
    using run' by (cases "prefix_deletes 1 s") auto
  obtain tail where tail: "tail_deletes R db (?last + 1) (?last + 1) = Inr tail"
    using run' front by (cases "tail_deletes R db (?last + 1) (?last + 1)") (auto simp: mbind_app)
  obtain entries where entries: "log_puts P s log = Inr entries"
    using run' front tail by (cases "log_puts P s log") (auto simp: mbind_app)
  let ?puts = "(state_puts ct vf ci la s st @
      [(''__raft/snapshot_metadata'', metadata), (''__raft/snapshot_data'', data)]) @ entries"
  have "WriteAtomically R ?puts (front @ tail) db = (Inr u, db')"
    using run' front tail entries by (simp add: mbind_app)
  from rocks.write_abs [OF ok this]
  have "\<alpha> db' = put_all ?puts (delete_all (front @ tail) (\<alpha> db))" .
  moreover have td: "set tail \<subseteq> range LogKey \<and>
      (LogKey (?last + 1) \<in> set tail \<or> \<alpha> db (LogKey (?last + 1)) = None)"
    using tail by (rule tail_deletes_keys) (rule rocks.get_lookup [OF ok])
  moreover have "set (front @ tail) \<subseteq> range LogKey"
    using prefix_deletes_keys [OF front] td by auto
  moreover have "LogKey (?last + 1) \<in> set (front @ tail) \<or> \<alpha> db (LogKey (?last + 1)) = None"
    using td by auto
  ultimately show ?thesis using that entries by blast
qed

lemma PersistSnapshot_stored:
  assumes ok: "rocksdb_ok R \<alpha>" and pb: "codecs_ok P"
    and run: "PersistSnapshot P R ct vf ci la s st metadata data log db = (Inr u, db')"
    and room: "length log < 2 ^ 64"
  shows "log_stored P (\<alpha> db') s log"
    and "k \<in> set meta_keys \<Longrightarrow> \<alpha> db' k = map_of (meta_puts ct vf ci la s st metadata data) k"
    and "k \<notin> set meta_keys \<Longrightarrow> k \<notin> range LogKey \<Longrightarrow> \<alpha> db' k = \<alpha> db k"
proof -
  from ok run obtain entries dels where entries: "log_puts P s log = Inr entries"
    and abs: "\<alpha> db' = put_all (meta_puts ct vf ci la s st metadata data @ entries)
      (delete_all dels (\<alpha> db))" (is "_ = put_all (?A @ _) ?m0")
    and dels: "set dels \<subseteq> range LogKey"
    and past: "LogKey (s + of_nat (length log) + 1) \<in> set dels \<or>
      \<alpha> db (LogKey (s + of_nat (length log) + 1)) = None"
    by (rule PersistSnapshot_abs) (simp add: meta_puts_def)
  have A: "fst ` set ?A = set meta_keys" by (rule meta_puts_keys)
  have L: "fst ` set entries \<subseteq> range LogKey" by (rule log_puts_range [OF entries])
  have lk: "\<alpha> db' (LogKey i) = put_all entries ?m0 (LogKey i)" for i
  proof -
    have c: "LogKey i \<notin> fst ` set ?A" unfolding A by (rule LogKey_not_meta)
    show ?thesis
      unfolding abs put_all_append [of ?A entries] put_all_lookup [of entries]
      by (simp only: put_all_other [OF c])
  qed
  show "log_stored P (\<alpha> db') s log"
    by (rule put_log_stored [OF pb entries room lk]) (use past in \<open>auto simp: delete_all_def\<close>)
  show "\<alpha> db' k = map_of ?A k" if "k \<in> set meta_keys"
  proof -
    have c: "k \<notin> fst ` set entries" using L that meta_not_LogKey by blast
    show ?thesis
      unfolding abs put_all_append [of ?A entries] put_all_other [OF c] by (rule put_all_meta [OF that])
  qed
  show "\<alpha> db' k = \<alpha> db k" if "k \<notin> set meta_keys" and "k \<notin> range LogKey"
  proof -
    have c: "k \<notin> fst ` set ?A" "k \<notin> fst ` set entries" and d: "k \<notin> set dels"
      unfolding A using that L dels by blast+
    show ?thesis
      unfolding abs put_all_append [of ?A entries] put_all_other [OF c(2)] put_all_other [OF c(1)]
      using d by (simp add: delete_all_def)
  qed
qed

lemma PersistSnapshot_represents:
  assumes ok: "rocksdb_ok R \<alpha>" and pb: "codecs_ok P"
    and run: "PersistSnapshot P R ct vf ci la s st metadata data log db = (Inr u, db')"
    and metadata: "SerializeSnapshotMetadata P s st = Inr metadata"
    and data: "ParseSnapshotState P data = Inr c"
    and nz: "s \<noteq> 0" "st \<noteq> 0" and room: "length log < 2 ^ 64"
  shows "represents P (\<alpha> db') \<lparr>ps_current_term = ct, ps_voted_for = vf, ps_commit_index = ci,
      ps_last_applied = la, ps_snapshot_index = s, ps_snapshot_term = st, ps_snapshot_data = data,
      ps_log = log\<rparr>"
    and "k \<notin> set meta_keys \<Longrightarrow> k \<notin> range LogKey \<Longrightarrow> \<alpha> db' k = \<alpha> db k"
  using PersistSnapshot_stored [OF ok pb run room] metadata data nz
  by (auto intro: represents_meta [OF _ _ pb])

lemma PersistLog_returns:
  assumes "rocksdb_ok R \<alpha>" and "rocksdb_faultless R" and "codecs_total P"
    and "s \<noteq> - 1" and "\<alpha> d (LogKey j) = None"
  shows "\<exists>d'. PersistLog P R s l d = (Inr (), d')"
proof -
  have get: "Get R d k = Inr (\<alpha> d k)" for k
    using assms(1,2) by (simp add: rocks_total.get_eq)
  obtain puts where puts: "log_puts P s l = Inr puts"
    using log_puts_total [of P s l] assms(3) by (auto simp: codecs_total_def)
  obtain front where front: "prefix_deletes 1 s = Inr front"
    using prefix_deletes_returns [OF assms(4)] by blast
  let ?i = "s + of_nat (length l) + 1"
  have "unat (j - ?i) \<le> 18446744073709551615"
    using u64_bound [of "j - ?i"] by linarith
  then have "unat (j - ?i) \<le> unat (?i - 1 - ?i)"
    by simp
  then obtain tail where tail: "tail_deletes R d ?i ?i = Inr tail"
    using tail_deletes_returns [OF get assms(5)] by blast
  have "\<exists>d'. WriteAtomically R p q d = (Inr (), d')" for p q
    using rocks_total.write_returns [of R \<alpha>] assms(1,2) by blast
  then show ?thesis
    by (auto simp: PersistLog_def mbind_app puts front tail Let_def mwhen_def)
qed

end
