(* ===== verification/Framing.thy ===== *)
theory Framing
  imports Cpp_Std
begin

text \<open>
  The length-prefixed framing that \<open>src/raft_node.cpp\<close> and \<open>src/client_server.cpp\<close> share: a
  four-byte big-endian length, then the payload, at most 16 MiB.

  The receive buffer of the network library is the string of its readable bytes. One turn of
  the receive loop is \<open>next_frame\<close>; \<open>deframe\<close> is the whole loop without the handler.
  The lemmas are the round trip of a frame and the independence of the loop from how the byte
  stream is cut into deliveries.
\<close>

section \<open>Definitions\<close>

definition kMaxFrameSize :: nat where
  "kMaxFrameSize = 16 * 1024 * 1024"

definition ReadNetworkUint32 :: "string \<Rightarrow> nat" where
  "ReadNetworkUint32 data = foldl (\<lambda>v c. 256 * v + of_char c) 0 (take 4 data)"

definition htonl_bytes :: "nat \<Rightarrow> string" where
  "htonl_bytes n =
     map char_of [n div 2 ^ 24 mod 256, n div 2 ^ 16 mod 256, n div 2 ^ 8 mod 256, n mod 256]"

definition frame_or :: "string \<Rightarrow> string \<Rightarrow> error + string" where
  "frame_or too_large payload =
     (if kMaxFrameSize < length payload then Inl (Runtime_error too_large)
      else Inr (htonl_bytes (length payload) @ payload))"

definition Frame :: "string \<Rightarrow> error + string" where
  "Frame payload = frame_or ''Raft RPC frame is too large'' payload"

datatype frame_step = Need_more | Too_large | Frame_ready string string

definition next_frame :: "string \<Rightarrow> frame_step" where
  "next_frame buffer =
     (if length buffer < 4 then Need_more
      else let payload_size = ReadNetworkUint32 buffer in
        if kMaxFrameSize < payload_size then Too_large
        else if length buffer < 4 + payload_size then Need_more
        else Frame_ready (take payload_size (drop 4 buffer)) (drop (4 + payload_size) buffer))"

lemma next_frame_shrinks: "next_frame buffer = Frame_ready payload rest \<Longrightarrow> length rest < length buffer"
  by (auto simp: next_frame_def Let_def split: if_splits)

text \<open>The payloads the loop hands out, the bytes it leaves, and whether it met an oversized length.\<close>

function deframe :: "string \<Rightarrow> string list \<times> string \<times> bool" where
  "deframe buffer = (case next_frame buffer of
       Need_more \<Rightarrow> ([], buffer, False)
     | Too_large \<Rightarrow> ([], buffer, True)
     | Frame_ready payload rest \<Rightarrow> (let (ps, r, bad) = deframe rest in (payload # ps, r, bad)))"
  by pat_completeness auto
termination
  by (relation "measure length") (auto dest: next_frame_shrinks)

declare deframe.simps [simp del]

section \<open>Lemmas\<close>

lemma bytes_of_u32:
  assumes "n < 2 ^ 32"
  shows "256 * (256 * (256 * (n div 2 ^ 24 mod 256) + n div 2 ^ 16 mod 256) + n div 2 ^ 8 mod 256) + n mod 256 = (n :: nat)"
proof -
  have "n div 2 ^ 24 < 256" using assms by (simp add: less_mult_imp_div_less)
  then have "n div 2 ^ 24 mod 256 = n div 2 ^ 24" by simp
  moreover have "n div 2 ^ 16 = 256 * (n div 2 ^ 24) + n div 2 ^ 16 mod 256"
    using mult_div_mod_eq [of 256 "n div 2 ^ 16"] by (simp flip: div_mult2_eq)
  moreover have "n div 2 ^ 8 = 256 * (n div 2 ^ 16) + n div 2 ^ 8 mod 256"
    using mult_div_mod_eq [of 256 "n div 2 ^ 8"] by (simp flip: div_mult2_eq)
  moreover have "n = 256 * (n div 2 ^ 8) + n mod 256"
    using mult_div_mod_eq [of 256 n] by simp
  ultimately show ?thesis by metis
qed

lemma htonl_bytes_length [simp]: "length (htonl_bytes n) = 4"
  by (simp add: htonl_bytes_def)

lemma ReadNetworkUint32_htonl: "n < 2 ^ 32 \<Longrightarrow> ReadNetworkUint32 (htonl_bytes n @ s) = n"
  using bytes_of_u32 [of n]
  by (simp add: ReadNetworkUint32_def htonl_bytes_def of_char_of take_bit_eq_mod)

lemma ReadNetworkUint32_append: "4 \<le> length s \<Longrightarrow> ReadNetworkUint32 (s @ t) = ReadNetworkUint32 s"
  by (simp add: ReadNetworkUint32_def)

lemma kMaxFrameSize_u32: "kMaxFrameSize < 2 ^ 32"
  by (simp add: kMaxFrameSize_def)

lemma next_frame_Frame:
  assumes "frame_or e payload = Inr f"
  shows "next_frame (f @ rest) = Frame_ready payload rest"
proof -
  have n: "length payload \<le> kMaxFrameSize" and f: "f = htonl_bytes (length payload) @ payload"
    using assms by (auto simp: frame_or_def split: if_splits)
  then have "length payload < 2 ^ 32" using kMaxFrameSize_u32 by simp
  then have "ReadNetworkUint32 (f @ rest) = length payload"
    by (simp add: f ReadNetworkUint32_htonl)
  then show ?thesis using n by (simp add: next_frame_def f Let_def)
qed

lemma next_frame_append:
  "next_frame a = Frame_ready p rest \<Longrightarrow> next_frame (a @ b) = Frame_ready p (rest @ b)"
  "next_frame a = Too_large \<Longrightarrow> next_frame (a @ b) = Too_large"
  by (auto simp: next_frame_def Let_def ReadNetworkUint32_append split: if_splits)

lemma deframe_append:
  "deframe a = (ps, r, bad) \<Longrightarrow>
   deframe (a @ b) = (if bad then (ps, r @ b, True)
     else let (qs, r', bad') = deframe (r @ b) in (ps @ qs, r', bad'))"
proof (induction a arbitrary: ps r bad rule: deframe.induct)
  case (1 a)
  show ?case
  proof (cases "next_frame a")
    case Need_more
    with "1.prems" show ?thesis by (subst (asm) deframe.simps) (auto split: prod.splits)
  next
    case Too_large
    with "1.prems" show ?thesis
      by (subst (asm) deframe.simps, subst deframe.simps) (auto simp: next_frame_append)
  next
    case (Frame_ready p rest)
    obtain ps' where rest: "deframe rest = (ps', r, bad)" and ps: "ps = p # ps'"
      using "1.prems" Frame_ready by (subst (asm) deframe.simps) (auto split: prod.splits)
    show ?thesis
      using "1.IH" [OF Frame_ready rest]
      by (subst deframe.simps) (auto simp: next_frame_append(1) [OF Frame_ready] ps split: prod.splits)
  qed
qed

lemma deframe_frames:
  assumes "list_all2 (\<lambda>p f. frame_or e p = Inr f) ps fs"
  shows "deframe (concat fs @ rest) = (let (qs, r, bad) = deframe rest in (ps @ qs, r, bad))"
  using assms
proof (induction ps fs rule: list_all2_induct)
  case (Cons p ps f fs)
  then show ?case
    by (subst deframe.simps) (simp add: next_frame_Frame [OF Cons.hyps(1)] split: prod.splits)
qed (simp split: prod.splits)

lemma deframe_Nil [simp]: "deframe [] = ([], [], False)"
  by (subst deframe.simps) (simp add: next_frame_def)

lemma deframe_Frame: "frame_or e p = Inr f \<Longrightarrow> deframe f = ([p], [], False)"
  using deframe_frames [of e "[p]" "[f]" "[]"] by simp

text \<open>The successive reads of one connection: the unread rest of a read is kept for the next.\<close>

fun feed :: "string list \<Rightarrow> string \<Rightarrow> string list \<times> string \<times> bool" where
  "feed [] buffer = ([], buffer, False)"
| "feed (chunk # chunks) buffer =
     (let (ps, rest, bad) = deframe (buffer @ chunk)
      in if bad then (ps, rest, True)
         else let (qs, r, bad') = feed chunks rest in (ps @ qs, r, bad'))"

lemma deframe_rest: "deframe a = (ps, r, False) \<Longrightarrow> deframe r = ([], r, False)"
proof (induction a arbitrary: ps rule: deframe.induct)
  case (1 a)
  show ?case
  proof (cases "next_frame a")
    case Need_more
    with "1.prems" show ?thesis by (subst (asm) deframe.simps) (auto simp: deframe.simps [of r])
  next
    case Too_large
    with "1.prems" show ?thesis by (subst (asm) deframe.simps) simp
  next
    case (Frame_ready p rest)
    with "1.prems" "1.IH" show ?thesis
      by (subst (asm) deframe.simps) (auto split: prod.splits)
  qed
qed

lemma feed_deframe:
  "deframe (buffer @ concat chunks) = (ps, r, False) \<Longrightarrow> deframe buffer = ([], buffer, False) \<Longrightarrow>
   feed chunks buffer = (ps, r, False)"
proof (induction chunks arbitrary: buffer ps)
  case (Cons chunk chunks)
  obtain qs r1 bad where d: "deframe (buffer @ chunk) = (qs, r1, bad)" by (cases "deframe (buffer @ chunk)")
  obtain qs' r' bad' where d': "deframe (r1 @ concat chunks) = (qs', r', bad')"
    by (cases "deframe (r1 @ concat chunks)")
  have "\<not> bad" and "ps = qs @ qs'" and "r' = r" and "\<not> bad'"
    using deframe_append [OF d, of "concat chunks"] Cons.prems(1) d' by (auto split: if_splits)
  then show ?case
    using Cons.IH [of r1 qs'] d d' deframe_rest [of "buffer @ chunk" qs r1] by simp
qed simp

section \<open>The receive loops\<close>

text \<open>A callback runs once per delivery, over what its last run left and what has arrived.\<close>

primrec deliveries :: "(string \<Rightarrow> ('s, string) M) \<Rightarrow> string list \<Rightarrow> string \<Rightarrow> ('s, string) M" where
  "deliveries callback [] buffer = ret buffer"
| "deliveries callback (chunk # chunks) buffer = mbind (callback (buffer @ chunk)) (deliveries callback chunks)"

text \<open>
  The contract of a message callback: as long as the buffer holds a whole frame it is handled and
  dropped, an oversized length is rejected, and what is left stays in the buffer. The callback of
  the node and the callback of the client server are instances.
\<close>

locale receive_loop =
  fixes loop :: "string \<Rightarrow> ('s, string) M"
    and handle :: "string \<Rightarrow> ('s, unit) M"
    and reject :: "('s, unit) M"
  assumes loop_step: "loop buffer s = (case next_frame buffer of
       Need_more \<Rightarrow> (Inr buffer, s)
     | Too_large \<Rightarrow> mseq reject (ret buffer) s
     | Frame_ready payload rest \<Rightarrow> mseq (handle payload) (loop rest) s)"
begin

lemma loop_frames:
  "loop buffer = (case deframe buffer of (payloads, rest, bad) \<Rightarrow>
     mseq (mfor payloads handle) (if bad then mseq reject (ret rest) else ret rest))"
proof (induction buffer rule: deframe.induct)
  case (1 buffer)
  show ?case
  proof (cases "next_frame buffer")
    case (Frame_ready payload rest)
    obtain payloads r bad where d: "deframe rest = (payloads, r, bad)" by (cases "deframe rest")
    have "loop buffer s = mseq (handle payload) (loop rest) s" for s by (simp add: loop_step [of buffer] Frame_ready)
    then have "loop buffer = mseq (handle payload) (loop rest)" by blast
    also note "1.IH" [OF Frame_ready]
    finally show ?thesis by (subst deframe.simps) (simp add: Frame_ready d mseq_assoc)
  qed (rule ext, subst loop_step, subst deframe.simps, simp add: mseq_app)+
qed

lemma preserves_loop:
  assumes "\<And>payload. payload \<in> set (fst (deframe buffer)) \<Longrightarrow> preserves P (handle payload)" and "preserves P reject"
  shows "preserves P (loop buffer)"
  using assms by (auto simp: loop_frames intro!: pres split: prod.splits)

lemma deliveries_deframe:
  "deframe (buffer @ concat chunks) = (ps, r, False) \<Longrightarrow> deframe buffer = ([], buffer, False) \<Longrightarrow>
   deliveries loop chunks buffer = mseq (mfor ps handle) (ret r)"
proof (induction chunks arbitrary: buffer ps)
  case (Cons chunk chunks)
  obtain qs r1 bad where d: "deframe (buffer @ chunk) = (qs, r1, bad)" by (cases "deframe (buffer @ chunk)")
  obtain qs' r' bad' where d': "deframe (r1 @ concat chunks) = (qs', r', bad')"
    by (cases "deframe (r1 @ concat chunks)")
  have parts: "\<not> bad" "ps = qs @ qs'" "r' = r" "\<not> bad'"
    using deframe_append [OF d, of "concat chunks"] Cons.prems(1) d' by (auto split: if_splits)
  have "deliveries loop chunks r1 = mseq (mfor qs' handle) (ret r)"
    using d d' parts deframe_rest [of "buffer @ chunk" qs r1] by (intro Cons.IH) simp_all
  moreover have "loop (buffer @ chunk) = mseq (mfor qs handle) (ret r1)"
    using parts(1) by (simp only: loop_frames d prod.case if_False)
  ultimately show ?case
    by (simp only: deliveries.simps mbind_mseq_ret parts(2) mfor_append mseq_assoc)
qed (simp add: mseq_app fun_eq_iff)

lemma deliveries_frames:
  assumes "list_all2 (\<lambda>p f. frame_or e p = Inr f) ps fs" and "concat chunks = concat fs"
  shows "deliveries loop chunks [] = mseq (mfor ps handle) (ret [])"
  using deframe_frames [OF assms(1), of "[]"] by (intro deliveries_deframe) (simp_all add: assms(2))

end

end
