(* ===== verification/Raft_State.thy ===== *)
theory Raft_State
  imports Raft_Storage Framing
begin

text \<open>
  The state of one \<open>RaftNode\<close> (\<open>include/raft_node.hpp\<close>) and the member functions of
  \<open>src/raft_node.cpp\<close> that read it: the index arithmetic over the retained log and the log
  comparison of an election.

  A connection of the network library is a number that stands for the pointer; whether it is
  connected is asked of the environment, which answers from the history of what the node did
  (\<open>trace\<close>). Sending, closing, arming and cancelling a timer, completing a promise and
  opening a client are entries of that history. A timer callback is the data its closure
  captured.

  The hash maps that the code only ever indexes are total functions, since \<open>operator[]\<close> on a
  missing key reads the value-initialised element. \<open>next_index_\<close> and \<open>match_index_\<close>, which
  are also searched and iterated over, and the two connection maps are association lists.

  \<open>raft_thread\<close> and \<open>raft_loop\<close> say whether the thread is joinable and the loop pointer set.
\<close>

section \<open>Types\<close>

type_synonym conn = nat
type_synonym promise = nat
type_synonym timer = nat

datatype Role = Follower | Candidate | Leader

record RaftPeer =
  peer_id :: i32
  peer_endpoint :: string

record PendingReadIndex =
  pri_request_id :: u64
  pri_term :: u64
  pri_read_index :: u64
  pri_acknowledgements :: "i32 set"
  pri_result :: promise

datatype callback =
    ElectionTimeout
  | HeartbeatTick
  | ReadIndexTimeout "promise option"
  | AppendTimeout i32 u64 u64 conn
  | SnapshotTimeout i32 u64 u64 conn
  | WaitForCommit u64 promise

datatype io =
    Send conn string
  | Shutdown conn
  | RunAfter timer int callback
  | CancelTimer timer
  | SetValue promise bool
  | ServerStart string int
  | ServerStop
  | ClientConnect i32 string int
  | ClientStop i32

record 'db node =
  server_id :: i32
  endpoint :: string
  listen_port :: i32
  peers :: "RaftPeer list"
  clients :: "i32 list"
  outbound_connections :: "(i32 \<times> conn) list"
  inbound_connections :: "(i32 \<times> conn) list"
  db :: 'db
  log :: "RaftLogEntry list"
  snapshot_index :: u64
  snapshot_term :: u64
  snapshot_data :: string
  incoming_snapshot_index :: u64
  incoming_snapshot_term :: u64
  incoming_snapshot_data :: string
  incoming_snapshot_active :: bool
  snapshot_in_progress :: bool
  current_term :: u64
  voted_for :: i64
  commit_index :: u64
  last_applied :: u64
  next_index :: "(i32 \<times> u64) list"
  match_index :: "(i32 \<times> u64) list"
  rpc_inflight :: "i32 \<Rightarrow> bool"
  rpc_generation :: "i32 \<Rightarrow> u64"
  rpc_request_id :: "i32 \<Rightarrow> u64"
  rpc_has_entries :: "i32 \<Rightarrow> bool"
  rpc_snapshot :: "i32 \<Rightarrow> bool"
  rpc_snapshot_offset :: "i32 \<Rightarrow> u64"
  vote_request_id :: "i32 \<Rightarrow> u64"
  granted_votes :: "i32 set"
  pending_read_indexes :: "PendingReadIndex list"
  active_read_index :: "PendingReadIndex option"
  next_rpc_id :: u64
  votes_received :: nat
  role :: Role
  election_timer :: "timer option"
  heartbeat_timer :: "timer option"
  read_index_timer :: "timer option"
  ready :: bool
  leader :: bool
  stopping :: bool
  raft_thread :: bool
  raft_loop :: bool
  startup_finished :: bool
  startup_error :: "error option"
  trace :: "io list"
  next_timer :: timer

record 'db env =
  env_pb :: codecs
  env_rocks :: "'db rocksdb"
  env_connected :: "io list \<Rightarrow> conn \<Rightarrow> bool"

type_synonym ('db, 'a) N = "('db node, 'a) M"

definition kMaxEntriesPerRpc :: u64 where "kMaxEntriesPerRpc = 64"
definition kSnapshotThreshold :: u64 where "kSnapshotThreshold = 8"
definition kSnapshotChunkSize :: nat where "kSnapshotChunkSize = 256 * 1024"

text \<open>Intervals and timeouts are in milliseconds.\<close>

definition kHeartbeatInterval :: int where "kHeartbeatInterval = 100"
definition kElectionTimeout :: int where "kElectionTimeout = 700"
definition kRpcTimeout :: int where "kRpcTimeout = 350"
definition kCommitPoll :: int where "kCommitPoll = 10"

section \<open>Computations on a node\<close>

definition on_db :: "('db, 'a) M \<Rightarrow> ('db, 'a) N" where
  "on_db m = (\<lambda>n. case m (db n) of (r, d) \<Rightarrow> (r, n\<lparr>db := d\<rparr>))"

definition emit :: "io \<Rightarrow> ('db, unit) N" where
  "emit x = mput (\<lambda>n. n\<lparr>trace := trace n @ [x]\<rparr>)"

definition run_after :: "int \<Rightarrow> callback \<Rightarrow> ('db, timer) N" where
  "run_after delay cb = mget (\<lambda>n.
     mseq (mput (\<lambda>n. n\<lparr>next_timer := Suc (next_timer n)\<rparr>))
       (mseq (emit (RunAfter (next_timer n) delay cb)) (ret (next_timer n))))"

definition connected :: "'db env \<Rightarrow> 'db node \<Rightarrow> conn \<Rightarrow> bool" where
  "connected E n c = env_connected E (trace n) c"

text \<open>
  The frame rules: a predicate that does not look at what a step writes is preserved by it.
\<close>

lemma preserves_emit [pres]:
  "(\<And>n. P n \<Longrightarrow> P (n\<lparr>trace := trace n @ [x]\<rparr>)) \<Longrightarrow> preserves P (emit x)"
  unfolding emit_def by (rule preserves_mput)

lemma preserves_run_after [pres]:
  "(\<And>n k. P n \<Longrightarrow> P (n\<lparr>next_timer := k\<rparr>)) \<Longrightarrow>
   (\<And>n k. P n \<Longrightarrow> P (n\<lparr>trace := trace n @ [RunAfter k delay cb]\<rparr>)) \<Longrightarrow>
   preserves P (run_after delay cb)"
  unfolding run_after_def by (intro pres preserves_mput)

lemma preserves_on_db:
  "(\<And>n d. P n \<Longrightarrow> P (n\<lparr>db := d\<rparr>)) \<Longrightarrow> preserves P (on_db m)"
  unfolding on_db_def by (auto simp: preserves_def split: prod.splits)

section \<open>The retained log\<close>

definition LastIndex :: "'db node \<Rightarrow> u64" where
  "LastIndex n = snapshot_index n + of_nat (length (log n))"

definition LastTerm :: "'db node \<Rightarrow> u64" where
  "LastTerm n = (if log n = [] then snapshot_term n else entry_term (last (log n)))"

definition LogOffset :: "'db node \<Rightarrow> u64 \<Rightarrow> error + nat" where
  "LogOffset n index =
     (if index \<le> snapshot_index n \<or> LastIndex n < index
      then Inl (Out_of_range ''Raft log index is outside retained log'')
      else Inr (unat (index - snapshot_index n - 1)))"

text \<open>
  The guards of \<open>TermAt\<close> are those of \<open>LogOffset\<close>, so its call never throws; the \<open>Inl\<close> branch
  is unreachable.
\<close>

definition TermAt :: "'db node \<Rightarrow> u64 \<Rightarrow> u64" where
  "TermAt n index =
     (if index = snapshot_index n then snapshot_term n
      else if index \<le> snapshot_index n \<or> LastIndex n < index then 0
      else case LogOffset n index of Inl _ \<Rightarrow> 0 | Inr offset \<Rightarrow> entry_term (log n ! offset))"

definition IsCandidateLogUpToDate :: "'db node \<Rightarrow> u64 \<Rightarrow> u64 \<Rightarrow> bool" where
  "IsCandidateLogUpToDate n index term \<longleftrightarrow>
     LastTerm n < term \<or> (term = LastTerm n \<and> LastIndex n \<le> index)"

section \<open>Connections\<close>

definition ConnectionForPeer :: "'db node \<Rightarrow> i32 \<Rightarrow> conn option" where
  "ConnectionForPeer n peer =
     map_of (if i32_less (server_id n) peer then outbound_connections n else inbound_connections n) peer"

definition ParseEndpoint :: "string \<Rightarrow> error + (string \<times> int)" where
  "ParseEndpoint ep = (case rfind_char CHR '':'' ep of
       None \<Rightarrow> Inl (Invalid_argument ''Raft endpoint must use host:port format'')
     | Some separator \<Rightarrow>
         if separator = 0 \<or> length ep \<le> separator + 1
         then Inl (Invalid_argument ''Raft endpoint must use host:port format'')
         else rbind (stoi (drop (separator + 1) ep)) (\<lambda>(port, _).
           if sint port < 1 \<or> 65535 < sint port
           then Inl (Invalid_argument ''Raft endpoint port is out of range'')
           else Inr (take separator ep, sint port)))"

definition ResetPeerRpcState :: "i32 \<Rightarrow> conn option \<Rightarrow> ('db, unit) N" where
  "ResetPeerRpcState peer connection = mget (\<lambda>n.
     if connection \<noteq> None \<and> ConnectionForPeer n peer \<noteq> connection then ret ()
     else mput (\<lambda>n. n\<lparr>
       rpc_inflight := (rpc_inflight n)(peer := False),
       rpc_request_id := (rpc_request_id n)(peer := 0),
       rpc_has_entries := (rpc_has_entries n)(peer := False),
       rpc_snapshot := (rpc_snapshot n)(peer := False),
       rpc_snapshot_offset := (rpc_snapshot_offset n)(peer := 0),
       rpc_generation := (rpc_generation n)(peer := rpc_generation n peer + 1)\<rparr>))"

section \<open>The node as a replica of its storage\<close>

definition Node_PersistState :: "'db env \<Rightarrow> ('db, unit) N" where
  "Node_PersistState E = mget (\<lambda>n.
     on_db (PersistState (env_rocks E) (current_term n) (voted_for n) (commit_index n)
       (last_applied n) (snapshot_index n) (snapshot_term n)))"

definition Node_PersistLog :: "'db env \<Rightarrow> ('db, unit) N" where
  "Node_PersistLog E = mget (\<lambda>n.
     on_db (PersistLog (env_pb E) (env_rocks E) (snapshot_index n) (log n)))"

section \<open>Applying committed entries\<close>

function apply_loop :: "'db env \<Rightarrow> ('db, unit) N" where
  "apply_loop E n =
     (if last_applied n < commit_index n
      then case LogOffset n (last_applied n + 1) of
          Inl e \<Rightarrow> (Inl e, n)
        | Inr offset \<Rightarrow>
            (case parse (command_pb (env_pb E)) (entry_command (log n ! offset)) of
               None \<Rightarrow> (Inl (Runtime_error ''invalid committed Raft command''), n)
             | Some command \<Rightarrow>
                 (case ApplyAtomically (env_pb E) (env_rocks E) command (last_applied n + 1)
                     (commit_index n) (db n) of
                    (Inl e, d) \<Rightarrow> (Inl e, n\<lparr>db := d\<rparr>)
                  | (Inr _, d) \<Rightarrow>
                      apply_loop E (n\<lparr>db := d, last_applied := last_applied n + 1\<rparr>)))
      else (Inr (), n))"
  by pat_completeness auto
termination
  by (relation "measure (\<lambda>(E, n). unat (commit_index n) - unat (last_applied n))")
     (auto simp: unat_succ_less word_less_nat_alt intro: diff_less_mono2)

declare apply_loop.simps [simp del]

definition TakeSnapshot :: "'db env \<Rightarrow> ('db, unit) N" where
  "TakeSnapshot E = mget (\<lambda>n.
     let new_snapshot_index = commit_index n;
         new_snapshot_term = TermAt n new_snapshot_index in
     if new_snapshot_term = 0 then raise (Runtime_error ''cannot snapshot an empty Raft term'')
     else
     mbind (lift_result (GetAllUserEntries (env_rocks E) (db n))) (\<lambda>entries.
     mbind (lift_result (GetAppliedRequests (env_rocks E) (db n))) (\<lambda>applied_requests.
     mbind (lift_result (SerializeSnapshotMetadata (env_pb E) new_snapshot_index new_snapshot_term))
       (\<lambda>metadata.
     mbind (lift_result (SerializeSnapshotState (env_pb E) entries applied_requests)) (\<lambda>data.
     let erase_count = unat (new_snapshot_index - snapshot_index n) in
     if length (log n) < erase_count
     then raise (Runtime_error ''snapshot exceeds retained Raft log'')
     else
     let suffix = drop erase_count (log n) in
     mseq (on_db (PersistSnapshot (env_pb E) (env_rocks E) (current_term n) (voted_for n)
         (commit_index n) (last_applied n) new_snapshot_index new_snapshot_term metadata data suffix))
       (mput (\<lambda>n. n\<lparr>snapshot_index := new_snapshot_index, snapshot_term := new_snapshot_term,
          snapshot_data := data, log := suffix\<rparr>)))))))"

definition CreateSnapshotIfNeeded :: "'db env \<Rightarrow> ('db, unit) N" where
  "CreateSnapshotIfNeeded E = mget (\<lambda>n.
     if snapshot_in_progress n \<or> commit_index n \<le> snapshot_index n \<or>
        commit_index n - snapshot_index n < kSnapshotThreshold
     then ret ()
     else mdo [
       mput (\<lambda>n. n\<lparr>snapshot_in_progress := True\<rparr>),
       mtry (TakeSnapshot E)
         (\<lambda>e. mseq (mput (\<lambda>n. n\<lparr>snapshot_in_progress := False\<rparr>)) (raise e)),
       mput (\<lambda>n. n\<lparr>snapshot_in_progress := False\<rparr>)])"

definition ApplyCommitted :: "'db env \<Rightarrow> ('db, unit) N" where
  "ApplyCommitted E = mdo [
     mget (\<lambda>n. mwhen (last_applied n < snapshot_index n)
       (mput (\<lambda>n. n\<lparr>last_applied := snapshot_index n\<rparr>))),
     apply_loop E,
     Node_PersistState E,
     CreateSnapshotIfNeeded E]"

definition LoadState :: "'db env \<Rightarrow> ('db, unit) N" where
  "LoadState E = mget (\<lambda>n.
     mbind (lift_result (Load (env_pb E) (env_rocks E) (db n))) (\<lambda>state. mdo [
       mput (\<lambda>n. n\<lparr>
         snapshot_index := ps_snapshot_index state,
         snapshot_term := ps_snapshot_term state,
         snapshot_data := ps_snapshot_data state,
         current_term := ps_current_term state,
         voted_for := ps_voted_for state,
         commit_index := max (ps_commit_index state) (ps_snapshot_index state),
         last_applied := max (ps_last_applied state) (ps_snapshot_index state),
         log := ps_log state\<rparr>),
       mput (\<lambda>n. n\<lparr>commit_index := min (commit_index n) (LastIndex n)\<rparr>),
       mput (\<lambda>n. n\<lparr>last_applied := min (last_applied n) (commit_index n)\<rparr>),
       ApplyCommitted E]))"

section \<open>Frame rules\<close>

text \<open>
  \<open>quiet B P\<close>: the predicate does not look at the timers, the connections and the bookkeeping of
  outstanding requests, and it stays true when the history grows by an entry with \<open>B\<close>; only
  sent frames may fail \<open>B\<close>. \<open>makes E B T\<close>: the frames of messages of type \<open>T\<close> satisfy \<open>B\<close>.
  \<open>store_quiet P\<close>: the predicate does not look at what applying committed entries and taking a
  snapshot write.
\<close>

named_theorems frame \<open>predicates with \<open>quiet\<close>, the first premise, are preserved\<close>
named_theorems store_frame \<open>predicates with \<open>store_quiet\<close> are preserved\<close>

definition quiet :: "(io \<Rightarrow> bool) \<Rightarrow> ('db node \<Rightarrow> bool) \<Rightarrow> bool" where
  "quiet B P \<longleftrightarrow> (\<forall>x. (\<forall>c f. x \<noteq> Send c f) \<longrightarrow> B x) \<and> (\<forall>n. P n \<longrightarrow>
     (\<forall>x. B x \<longrightarrow> P (n\<lparr>trace := trace n @ [x]\<rparr>)) \<and> (\<forall>x. P (n\<lparr>next_timer := x\<rparr>)) \<and>
     (\<forall>x. P (n\<lparr>next_rpc_id := x\<rparr>)) \<and> (\<forall>x. P (n\<lparr>rpc_inflight := x\<rparr>)) \<and>
     (\<forall>x. P (n\<lparr>rpc_request_id := x\<rparr>)) \<and> (\<forall>x. P (n\<lparr>rpc_has_entries := x\<rparr>)) \<and>
     (\<forall>x. P (n\<lparr>rpc_snapshot := x\<rparr>)) \<and> (\<forall>x. P (n\<lparr>rpc_snapshot_offset := x\<rparr>)) \<and>
     (\<forall>x. P (n\<lparr>rpc_generation := x\<rparr>)) \<and> (\<forall>x. P (n\<lparr>vote_request_id := x\<rparr>)) \<and>
     (\<forall>x. P (n\<lparr>election_timer := x\<rparr>)) \<and> (\<forall>x. P (n\<lparr>heartbeat_timer := x\<rparr>)) \<and>
     (\<forall>x. P (n\<lparr>read_index_timer := x\<rparr>)) \<and> (\<forall>x. P (n\<lparr>next_index := x\<rparr>)) \<and>
     (\<forall>x. P (n\<lparr>clients := x\<rparr>)) \<and> (\<forall>x. P (n\<lparr>outbound_connections := x\<rparr>)) \<and>
     (\<forall>x. P (n\<lparr>inbound_connections := x\<rparr>)))"

definition frame_of :: "'db env \<Rightarrow> RpcType \<Rightarrow> string \<Rightarrow> string \<Rightarrow> bool" where
  "frame_of E T payload f \<longleftrightarrow> (\<exists>rid sid s.
     serialize (rpc_pb (env_pb E))
       \<lparr>msg_type = T, msg_request_id = rid, msg_sender_id = sid, msg_payload = payload\<rparr> = Some s \<and>
     Frame s = Inr f)"

definition makes :: "'db env \<Rightarrow> (io \<Rightarrow> bool) \<Rightarrow> RpcType \<Rightarrow> bool" where
  "makes E B T \<longleftrightarrow> (\<forall>c payload f. frame_of E T payload f \<longrightarrow> B (Send c f))"

lemma makes_True [simp, intro]: "makes E (\<lambda>_. True) T"
  by (simp add: makes_def)

definition store_quiet :: "('db node \<Rightarrow> bool) \<Rightarrow> bool" where
  "store_quiet P \<longleftrightarrow> (\<forall>n. P n \<longrightarrow>
     (\<forall>x. P (n\<lparr>db := x\<rparr>)) \<and> (\<forall>x. P (n\<lparr>last_applied := x\<rparr>)) \<and>
     (\<forall>x. P (n\<lparr>snapshot_index := x\<rparr>)) \<and> (\<forall>x. P (n\<lparr>snapshot_term := x\<rparr>)) \<and>
     (\<forall>x. P (n\<lparr>snapshot_data := x\<rparr>)) \<and> (\<forall>x. P (n\<lparr>log := x\<rparr>)) \<and>
     (\<forall>x. P (n\<lparr>snapshot_in_progress := x\<rparr>)))"

lemma quietD:
  assumes "quiet B P" and "P n"
  shows "P (n\<lparr>next_timer := k\<rparr>)" "P (n\<lparr>next_rpc_id := u\<rparr>)"
    "P (n\<lparr>rpc_inflight := fb\<rparr>)" "P (n\<lparr>rpc_request_id := fu\<rparr>)" "P (n\<lparr>rpc_has_entries := fb\<rparr>)"
    "P (n\<lparr>rpc_snapshot := fb\<rparr>)" "P (n\<lparr>rpc_snapshot_offset := fu\<rparr>)"
    "P (n\<lparr>rpc_generation := fu\<rparr>)" "P (n\<lparr>vote_request_id := fu\<rparr>)"
    "P (n\<lparr>election_timer := ot\<rparr>)" "P (n\<lparr>heartbeat_timer := ot\<rparr>)" "P (n\<lparr>read_index_timer := ot\<rparr>)"
    "P (n\<lparr>next_index := ni\<rparr>)" "P (n\<lparr>clients := cl\<rparr>)"
    "P (n\<lparr>outbound_connections := cs\<rparr>)" "P (n\<lparr>inbound_connections := cs\<rparr>)"
  using assms by (simp_all add: quiet_def)

lemma quiet_trace:
  assumes "quiet B P" and "P n"
  shows "P (n\<lparr>trace := trace n @ [Shutdown c]\<rparr>)" "P (n\<lparr>trace := trace n @ [RunAfter k delay cb]\<rparr>)"
    "P (n\<lparr>trace := trace n @ [CancelTimer k]\<rparr>)" "P (n\<lparr>trace := trace n @ [SetValue pr b]\<rparr>)"
    "P (n\<lparr>trace := trace n @ [ServerStart host port]\<rparr>)" "P (n\<lparr>trace := trace n @ [ServerStop]\<rparr>)"
    "P (n\<lparr>trace := trace n @ [ClientConnect i host port]\<rparr>)" "P (n\<lparr>trace := trace n @ [ClientStop i]\<rparr>)"
    "B (Send c f) \<Longrightarrow> P (n\<lparr>trace := trace n @ [Send c f]\<rparr>)"
  using assms by (simp_all add: quiet_def)

lemma store_quietD:
  assumes "store_quiet P" and "P n"
  shows "P (n\<lparr>db := d\<rparr>)" "P (n\<lparr>last_applied := u\<rparr>)" "P (n\<lparr>snapshot_index := u\<rparr>)"
    "P (n\<lparr>snapshot_term := u\<rparr>)" "P (n\<lparr>snapshot_data := sd\<rparr>)" "P (n\<lparr>log := l\<rparr>)"
    "P (n\<lparr>snapshot_in_progress := b\<rparr>)"
  using assms by (simp_all add: store_quiet_def)

lemma preserves_Node_PersistState [store_frame]:
  "(\<And>n d. P n \<Longrightarrow> P (n\<lparr>db := d\<rparr>)) \<Longrightarrow> preserves P (Node_PersistState E)"
  unfolding Node_PersistState_def by (intro pres preserves_on_db)

lemma preserves_Node_PersistLog [store_frame]:
  "(\<And>n d. P n \<Longrightarrow> P (n\<lparr>db := d\<rparr>)) \<Longrightarrow> preserves P (Node_PersistLog E)"
  unfolding Node_PersistLog_def by (intro pres preserves_on_db)

lemma preserves_apply_loop:
  assumes step: "\<And>n c i j. P n \<Longrightarrow>
      P (n\<lparr>db := snd (ApplyAtomically (env_pb E) (env_rocks E) c i j (db n))\<rparr>)"
    and applied: "\<And>n a. P n \<Longrightarrow> P (n\<lparr>last_applied := a\<rparr>)"
  shows "preserves P (apply_loop E)"
proof (rule preservesI)
  show "P (snd (apply_loop E n))" if "P n" for n
    using that
  proof (induction "unat (commit_index n) - unat (last_applied n)" arbitrary: n rule: less_induct)
    case less
    have db: "P (n\<lparr>db := d\<rparr>)"
      if "ApplyAtomically (env_pb E) (env_rocks E) c i j (db n) = (r, d)" for c i j r d
      using step [OF less.prems, of c i j] that by simp
    have "P (snd (apply_loop E (n\<lparr>db := d, last_applied := last_applied n + 1\<rparr>)))"
      if "ApplyAtomically (env_pb E) (env_rocks E) c i j (db n) = (r, d)"
        and "last_applied n < commit_index n" for c i j r d
      using that applied [OF db [OF that(1)]]
      by (intro less.hyps) (auto simp: unat_succ_less word_less_nat_alt intro: diff_less_mono2)
    then show ?case
      by (subst apply_loop.simps)
         (auto simp: less.prems dest: db split: sum.splits option.splits prod.splits)
  qed
qed

lemma TakeSnapshot_cases:
  obtains (fails) e where "TakeSnapshot E n = (Inl e, n)"
  | (writes) entries requests metadata data where
      "TermAt n (commit_index n) \<noteq> 0"
      "GetAllUserEntries (env_rocks E) (db n) = Inr entries"
      "GetAppliedRequests (env_rocks E) (db n) = Inr requests"
      "SerializeSnapshotMetadata (env_pb E) (commit_index n) (TermAt n (commit_index n)) = Inr metadata"
      "SerializeSnapshotState (env_pb E) entries requests = Inr data"
      "unat (commit_index n - snapshot_index n) \<le> length (log n)"
      "TakeSnapshot E n =
        (case PersistSnapshot (env_pb E) (env_rocks E) (current_term n) (voted_for n)
            (commit_index n) (last_applied n) (commit_index n) (TermAt n (commit_index n))
            metadata data (drop (unat (commit_index n - snapshot_index n)) (log n)) (db n) of
           (Inl e, d) \<Rightarrow> (Inl e, n\<lparr>db := d\<rparr>)
         | (Inr _, d) \<Rightarrow> (Inr (), n\<lparr>db := d, snapshot_index := commit_index n,
             snapshot_term := TermAt n (commit_index n), snapshot_data := data,
             log := drop (unat (commit_index n - snapshot_index n)) (log n)\<rparr>))"
proof -
  note defs = TakeSnapshot_def mbind_app mseq_app on_db_def Let_def
  consider "TermAt n (commit_index n) = 0"
    | e where "TermAt n (commit_index n) \<noteq> 0" "GetAllUserEntries (env_rocks E) (db n) = Inl e"
    | entries e where "TermAt n (commit_index n) \<noteq> 0"
        "GetAllUserEntries (env_rocks E) (db n) = Inr entries"
        "GetAppliedRequests (env_rocks E) (db n) = Inl e"
    | entries requests e where "TermAt n (commit_index n) \<noteq> 0"
        "GetAllUserEntries (env_rocks E) (db n) = Inr entries"
        "GetAppliedRequests (env_rocks E) (db n) = Inr requests"
        "SerializeSnapshotMetadata (env_pb E) (commit_index n) (TermAt n (commit_index n)) = Inl e"
    | entries requests metadata e where "TermAt n (commit_index n) \<noteq> 0"
        "GetAllUserEntries (env_rocks E) (db n) = Inr entries"
        "GetAppliedRequests (env_rocks E) (db n) = Inr requests"
        "SerializeSnapshotMetadata (env_pb E) (commit_index n) (TermAt n (commit_index n)) = Inr metadata"
        "SerializeSnapshotState (env_pb E) entries requests = Inl e"
    | entries requests metadata data where "TermAt n (commit_index n) \<noteq> 0"
        "GetAllUserEntries (env_rocks E) (db n) = Inr entries"
        "GetAppliedRequests (env_rocks E) (db n) = Inr requests"
        "SerializeSnapshotMetadata (env_pb E) (commit_index n) (TermAt n (commit_index n)) = Inr metadata"
        "SerializeSnapshotState (env_pb E) entries requests = Inr data"
    by (metis sumE)
  then show ?thesis
  proof cases
    case 6
    show ?thesis
    proof (cases "length (log n) < unat (commit_index n - snapshot_index n)")
      case True
      with 6 show ?thesis by (intro fails) (simp add: defs)
    next
      case False
      with 6 show ?thesis
        by (intro writes [OF 6]) (auto simp: defs split: prod.splits sum.splits)
    qed
  qed (auto intro: fails simp: defs)
qed

lemma preserves_CreateSnapshotIfNeeded_take:
  assumes "preserves P (TakeSnapshot E)" and "\<And>n x. P n \<Longrightarrow> P (n\<lparr>snapshot_in_progress := x\<rparr>)"
  shows "preserves P (CreateSnapshotIfNeeded E)"
  unfolding CreateSnapshotIfNeeded_def by (intro pres preserves_mput assms)

lemma preserves_ApplyCommitted_parts:
  assumes "\<And>n c i j. P n \<Longrightarrow>
      P (n\<lparr>db := snd (ApplyAtomically (env_pb E) (env_rocks E) c i j (db n))\<rparr>)"
    and "\<And>n a. P n \<Longrightarrow> P (n\<lparr>last_applied := a\<rparr>)"
    and "preserves P (Node_PersistState E)" and "preserves P (TakeSnapshot E)"
    and "\<And>n x. P n \<Longrightarrow> P (n\<lparr>snapshot_in_progress := x\<rparr>)"
  shows "preserves P (ApplyCommitted E)"
  unfolding ApplyCommitted_def
  by (intro pres preserves_mput preserves_apply_loop preserves_CreateSnapshotIfNeeded_take assms)

lemma preserves_ApplyCommitted [store_frame]:
  assumes "store_quiet P"
  shows "preserves P (ApplyCommitted E)"
proof (intro preserves_ApplyCommitted_parts)
  show "preserves P (TakeSnapshot E)"
    unfolding TakeSnapshot_def Let_def
    by (intro pres preserves_mput preserves_on_db store_quietD [OF assms])
qed (auto intro: preserves_Node_PersistState store_quietD [OF assms])

lemma preserves_ResetPeerRpcState [frame]:
  assumes "quiet B P"
  shows "preserves P (ResetPeerRpcState peer c)"
  unfolding ResetPeerRpcState_def by (intro pres preserves_mput quietD [OF assms])

section \<open>Endpoints\<close>

lemma ParseEndpoint_format:
  assumes "host \<noteq> []" and "1 \<le> port" and "port \<le> 65535"
  shows "ParseEndpoint (host @ CHR '':'' # dec port) = Inr (host, int port)"
proof -
  have "CHR '':'' \<notin> set (dec port)" by (rule dec_no_char) (simp add: is_digit_def)
  then have sep: "rfind_char CHR '':'' (host @ CHR '':'' # dec port) = Some (length host)"
    by (rule rfind_char_last)
  have "sint (word_of_nat port :: i32) = int port"
    using assms(3) by (simp add: signed_of_nat signed_take_bit_int_eq_self)
  then show ?thesis
    using assms by (simp add: ParseEndpoint_def sep stoi_dec)
qed

end
