(* ===== verification/Mem_Instance.thy ===== *)
theory Mem_Instance
  imports Raft_State
begin

text \<open>
  Concrete instances of the two parameters of the development, on which its hypotheses hold: a
  store kept as an association list, and codecs that write the fields of a message as
  length-prefixed strings. The concrete runs that show a property at work are runs on them; no
  property depends on them.
\<close>

section \<open>A store in memory\<close>

type_synonym mem = "(string \<times> string) list"

fun mem_op :: "batch_op \<Rightarrow> mem \<Rightarrow> mem" where
  "mem_op (Batch_Delete k) m = AList.delete k m"
| "mem_op (Batch_Put k v) m = AList.update k v m"

definition mem_iterate :: "mem \<Rightarrow> seek \<Rightarrow> (string \<times> string) list" where
  "mem_iterate m sk = filter (\<lambda>e. seek_from sk \<le> fst e) (sort_key fst (AList.clearjunk m))"

definition mem_rocks :: "mem rocksdb" where
  "mem_rocks = \<lparr>
     DB_Open = (\<lambda>_. (Status_OK, [])),
     DB_Put = (\<lambda>m k v. (Status_OK, AList.update k v m)),
     DB_Get = (\<lambda>m k. case map_of m k of None \<Rightarrow> (Status_NotFound [], []) | Some v \<Rightarrow> (Status_OK, v)),
     DB_Delete = (\<lambda>m k. (Status_OK, AList.delete k m)),
     DB_Write = (\<lambda>m ops. (Status_OK, fold mem_op ops m)),
     DB_GetSnapshot = Some,
     DB_Iterate = (\<lambda>m sk. (mem_iterate m sk, Status_OK))\<rparr>"

lemma mem_write: "map_of (fold mem_op ops m) = apply_batch ops (map_of m)"
proof (induction ops arbitrary: m)
  case (Cons op ops)
  have "map_of (mem_op op m) = apply_op op (map_of m)"
    by (cases op) (auto simp: update_conv' delete_conv')
  then show ?case by (simp add: Cons apply_batch_def)
qed (simp add: apply_batch_def)

lemma distinct_sorted: "distinct (map fst (sort_key fst (AList.clearjunk m)))"
proof -
  have "distinct (map fst (AList.clearjunk m))" by (rule distinct_clearjunk)
  then show ?thesis by (simp add: distinct_map)
qed

lemma mem_iterate_sorted: "sorted_wrt (<) (map fst (mem_iterate m sk))"
proof -
  have "sorted_wrt (<) (map fst (sort_key fst (AList.clearjunk m)))"
    using distinct_sorted [of m] by (simp add: strict_sorted_iff)
  then show ?thesis
    by (simp add: mem_iterate_def sorted_wrt_map sorted_wrt_filter)
qed

lemma mem_iterate_lookup:
  "map_of (mem_iterate m sk) k = (if seek_from sk \<le> k then map_of m k else None)"
proof -
  have "map_of (sort_key fst (AList.clearjunk m)) = map_of (AList.clearjunk m)"
    using distinct_sorted [of m] distinct_clearjunk [of m]
    by (subst map_of_inject_set) simp_all
  then show ?thesis
    by (simp add: mem_iterate_def map_of_filter_fst [where P = "\<lambda>k. seek_from sk \<le> k"] map_of_clearjunk)
qed

lemma mem_rocks_ok: "rocksdb_ok mem_rocks map_of"
  by (auto simp: rocksdb_ok_def mem_rocks_def finite_dom_map_of update_conv' delete_conv' mem_write
      mem_iterate_sorted mem_iterate_lookup split: option.splits)

lemma mem_rocks_faultless: "rocksdb_faultless mem_rocks"
  by (auto simp: rocksdb_faultless_def mem_rocks_def split: option.splits)

section \<open>Length-prefixed fields\<close>

definition netstr :: "string \<Rightarrow> string" where
  "netstr s = dec (length s) @ CHR '':'' # s"

fun nets :: "string list \<Rightarrow> string" where
  "nets [] = []"
| "nets (x # xs) = netstr x @ nets xs"

definition read_net :: "string \<Rightarrow> (string \<times> string) option" where
  "read_net s =
     (case dropWhile is_digit s of
        [] \<Rightarrow> None
      | c # rest \<Rightarrow>
          let k = digits_val (takeWhile is_digit s)
          in if c = CHR '':'' \<and> k \<le> length rest then Some (take k rest, drop k rest) else None)"

function read_nets :: "string \<Rightarrow> string list option" where
  "read_nets s =
     (if s = [] then Some []
      else case read_net s of
          None \<Rightarrow> None
        | Some (x, rest) \<Rightarrow> map_option (\<lambda>xs. x # xs) (read_nets rest))"
  by pat_completeness auto
termination
proof (relation "measure length", goal_cases)
  case (2 s xr x rest)
  then have "length rest < length (dropWhile is_digit s)"
    by (auto simp: read_net_def Let_def split: list.splits if_splits)
  with length_dropWhile_le [of is_digit s] show ?case by simp
qed simp

declare read_nets.simps [simp del]

lemma read_net_netstr: "read_net (netstr x @ rest) = Some (x, rest)"
proof -
  have c: "\<not> is_digit CHR '':''" by (simp add: is_digit_def)
  have "\<forall>d \<in> set (dec (length x)). is_digit d" using dec_digits by (simp add: list_all_iff)
  then have "takeWhile is_digit (netstr x @ rest) = dec (length x)"
    and "dropWhile is_digit (netstr x @ rest) = CHR '':'' # x @ rest"
    by (simp_all add: netstr_def takeWhile_append2 dropWhile_append2 c)
  then show ?thesis by (simp add: read_net_def digits_val_dec)
qed

lemma read_nets_nets [simp]: "read_nets (nets xs) = Some xs"
proof (induction xs)
  case (Cons x xs)
  have "nets (x # xs) \<noteq> []" by (simp add: netstr_def)
  then show ?case
    by (subst read_nets.simps) (simp add: read_net_netstr Cons)
qed (simp add: read_nets.simps)

section \<open>Codecs\<close>

definition num :: "string \<Rightarrow> u64 option" where
  "num s = (case ParseUint64 (Some s) [] of Inl _ \<Rightarrow> None | Inr x \<Rightarrow> Some x)"

definition flag :: "bool \<Rightarrow> string" where
  "flag b = (if b then ''1'' else ''0'')"

lemma num_to_string [simp]: "num (to_string_u64 x) = Some x"
  by (simp add: num_def)

lemma flag_eq [simp]: "flag b = ''1'' \<longleftrightarrow> b"
  by (simp add: flag_def)

definition net_codec :: "('m \<Rightarrow> string list) \<Rightarrow> (string list \<Rightarrow> 'm option) \<Rightarrow> 'm codec" where
  "net_codec f g = \<lparr>serialize = (\<lambda>m. Some (nets (f m))),
     parse = (\<lambda>s. case read_nets s of None \<Rightarrow> None | Some xs \<Rightarrow> g xs)\<rparr>"

lemma net_codec_ok: "(\<And>m. g (f m) = Some m) \<Longrightarrow> codec_ok (net_codec f g)"
  by (auto simp: codec_ok_def net_codec_def)

lemma net_codec_total: "codec_total (net_codec f g)"
  by (simp add: codec_total_def net_codec_def)

text \<open>A named enumerator is written as a letter, an unnamed one as its number.\<close>

definition pick :: "(string \<times> 'e) list \<Rightarrow> (i32 \<Rightarrow> 'e) \<Rightarrow> string \<Rightarrow> 'e option" where
  "pick names other s = (case map_of names s of
       Some e \<Rightarrow> Some e
     | None \<Rightarrow> map_option (\<lambda>x. other (ucast x)) (num s))"

lemma pick_other: "(\<forall>n \<in> fst ` set names. num n = None) \<Longrightarrow>
  pick names other (to_string_u64 (ucast x)) = Some (other x)"
proof -
  assume "\<forall>n \<in> fst ` set names. num n = None"
  then have "map_of names (to_string_u64 (ucast x)) = None"
    by (metis map_of_eq_None_iff num_to_string option.distinct(1))
  moreover have "(ucast (ucast x :: u64) :: i32) = x" by (simp add: unsigned_ucast_eq bit_eq_iff bit_simps)
  ultimately show ?thesis by (simp add: pick_def)
qed

lemma num_letter: "\<not> is_space c \<Longrightarrow> \<not> is_digit c \<Longrightarrow> c \<noteq> CHR ''-'' \<Longrightarrow> c \<noteq> CHR ''+'' \<Longrightarrow> num [c] = None"
  by (simp add: num_def ParseUint64_def stoull_def scan_number_def)

fun command_type_name :: "CommandType \<Rightarrow> string" where
  "command_type_name COMMAND_TYPE_UNSPECIFIED = ''A''"
| "command_type_name COMMAND_TYPE_PUT = ''B''"
| "command_type_name COMMAND_TYPE_GET = ''C''"
| "command_type_name COMMAND_TYPE_DELETE = ''D''"
| "command_type_name (COMMAND_TYPE_other x) = to_string_u64 (ucast x)"

definition command_type_of :: "string \<Rightarrow> CommandType option" where
  "command_type_of = pick
     [(''A'', COMMAND_TYPE_UNSPECIFIED),
      (''B'', COMMAND_TYPE_PUT),
      (''C'', COMMAND_TYPE_GET),
      (''D'', COMMAND_TYPE_DELETE)] COMMAND_TYPE_other"

lemma command_type_of_name [simp]: "command_type_of (command_type_name e) = Some e"
proof (cases e)
  case (COMMAND_TYPE_other x)
  then show ?thesis
    unfolding command_type_of_def
    by (simp only: command_type_name.simps) (rule pick_other, simp add: num_letter is_space_def is_digit_def)
qed (simp_all add: command_type_of_def pick_def)

fun rpc_type_name :: "RpcType \<Rightarrow> string" where
  "rpc_type_name TYPE_UNSPECIFIED = ''A''"
| "rpc_type_name REQUEST_VOTE = ''B''"
| "rpc_type_name REQUEST_VOTE_RESPONSE = ''C''"
| "rpc_type_name APPEND_ENTRIES = ''D''"
| "rpc_type_name APPEND_ENTRIES_RESPONSE = ''E''"
| "rpc_type_name IDENTIFY = ''F''"
| "rpc_type_name INSTALL_SNAPSHOT = ''G''"
| "rpc_type_name INSTALL_SNAPSHOT_RESPONSE = ''H''"
| "rpc_type_name READ_INDEX = ''I''"
| "rpc_type_name READ_INDEX_RESPONSE = ''J''"
| "rpc_type_name (TYPE_other x) = to_string_u64 (ucast x)"

definition rpc_type_of :: "string \<Rightarrow> RpcType option" where
  "rpc_type_of = pick
     [(''A'', TYPE_UNSPECIFIED),
      (''B'', REQUEST_VOTE),
      (''C'', REQUEST_VOTE_RESPONSE),
      (''D'', APPEND_ENTRIES),
      (''E'', APPEND_ENTRIES_RESPONSE),
      (''F'', IDENTIFY),
      (''G'', INSTALL_SNAPSHOT),
      (''H'', INSTALL_SNAPSHOT_RESPONSE),
      (''I'', READ_INDEX),
      (''J'', READ_INDEX_RESPONSE)] TYPE_other"

lemma rpc_type_of_name [simp]: "rpc_type_of (rpc_type_name e) = Some e"
proof (cases e)
  case (TYPE_other x)
  then show ?thesis
    unfolding rpc_type_of_def
    by (simp only: rpc_type_name.simps) (rule pick_other, simp add: num_letter is_space_def is_digit_def)
qed (simp_all add: rpc_type_of_def pick_def)

fun operation_name :: "Operation \<Rightarrow> string" where
  "operation_name OPERATION_UNSPECIFIED = ''A''"
| "operation_name OPERATION_PUT = ''B''"
| "operation_name OPERATION_GET = ''C''"
| "operation_name OPERATION_DELETE = ''D''"
| "operation_name (OPERATION_other x) = to_string_u64 (ucast x)"

definition operation_of :: "string \<Rightarrow> Operation option" where
  "operation_of = pick
     [(''A'', OPERATION_UNSPECIFIED),
      (''B'', OPERATION_PUT),
      (''C'', OPERATION_GET),
      (''D'', OPERATION_DELETE)] OPERATION_other"

lemma operation_of_name [simp]: "operation_of (operation_name e) = Some e"
proof (cases e)
  case (OPERATION_other x)
  then show ?thesis
    unfolding operation_of_def
    by (simp only: operation_name.simps) (rule pick_other, simp add: num_letter is_space_def is_digit_def)
qed (simp_all add: operation_of_def pick_def)

fun status_name :: "ResponseStatus \<Rightarrow> string" where
  "status_name STATUS_UNSPECIFIED = ''A''"
| "status_name STATUS_OK = ''B''"
| "status_name STATUS_NOT_FOUND = ''C''"
| "status_name STATUS_NOT_LEADER = ''D''"
| "status_name STATUS_INVALID_REQUEST = ''E''"
| "status_name STATUS_ERROR = ''F''"
| "status_name STATUS_NOT_READY = ''G''"
| "status_name (STATUS_other x) = to_string_u64 (ucast x)"

definition status_of :: "string \<Rightarrow> ResponseStatus option" where
  "status_of = pick
     [(''A'', STATUS_UNSPECIFIED),
      (''B'', STATUS_OK),
      (''C'', STATUS_NOT_FOUND),
      (''D'', STATUS_NOT_LEADER),
      (''E'', STATUS_INVALID_REQUEST),
      (''F'', STATUS_ERROR),
      (''G'', STATUS_NOT_READY)] STATUS_other"

lemma status_of_name [simp]: "status_of (status_name e) = Some e"
proof (cases e)
  case (STATUS_other x)
  then show ?thesis
    unfolding status_of_def
    by (simp only: status_name.simps) (rule pick_other, simp add: num_letter is_space_def is_digit_def)
qed (simp_all add: status_of_def pick_def)

fun traverse :: "('a \<Rightarrow> 'b option) \<Rightarrow> 'a list \<Rightarrow> 'b list option" where
  "traverse f [] = Some []"
| "traverse f (x # xs) = (case f x of None \<Rightarrow> None | Some y \<Rightarrow> map_option (\<lambda>ys. y # ys) (traverse f xs))"

lemma traverse_map: "(\<And>x. g (f x) = Some x) \<Longrightarrow> traverse g (map f xs) = Some xs"
  by (induction xs) simp_all

definition request_vote_fields :: "RequestVoteRequest \<Rightarrow> string list" where
  "request_vote_fields m = [to_string_u64 (rv_term m),
     to_string_u64 (rv_candidate_id m),
     to_string_u64 (rv_last_log_index m),
     to_string_u64 (rv_last_log_term m)]"

fun request_vote_of :: "string list \<Rightarrow> RequestVoteRequest option" where
  "request_vote_of [a, b, c, d] =
     (Option.bind (num a) (\<lambda>a'.
       Option.bind (num b) (\<lambda>b'.
       Option.bind (num c) (\<lambda>c'.
       Option.bind (num d) (\<lambda>d'.
       Some \<lparr>rv_term = a', rv_candidate_id = b', rv_last_log_index = c', rv_last_log_term = d'\<rparr>)))))"
| "request_vote_of _ = None"

lemma request_vote_of_fields [simp]: "request_vote_of (request_vote_fields m) = Some m"
  by (simp add: request_vote_fields_def traverse_map)

definition request_vote_response_fields :: "RequestVoteResponse \<Rightarrow> string list" where
  "request_vote_response_fields m = [to_string_u64 (rvr_term m),
     flag (rvr_vote_granted m),
     to_string_u64 (rvr_responder_id m)]"

fun request_vote_response_of :: "string list \<Rightarrow> RequestVoteResponse option" where
  "request_vote_response_of [a, b, c] =
     (Option.bind (num a) (\<lambda>a'.
       Option.bind (num c) (\<lambda>c'.
       Some \<lparr>rvr_term = a', rvr_vote_granted = (b = ''1''), rvr_responder_id = c'\<rparr>)))"
| "request_vote_response_of _ = None"

lemma request_vote_response_of_fields [simp]: "request_vote_response_of (request_vote_response_fields m) = Some m"
  by (simp add: request_vote_response_fields_def traverse_map)

definition log_entry_fields :: "proto_RaftLogEntry \<Rightarrow> string list" where
  "log_entry_fields m = [to_string_u64 (le_index m),
     to_string_u64 (le_term m),
     le_command m]"

fun log_entry_of :: "string list \<Rightarrow> proto_RaftLogEntry option" where
  "log_entry_of [a, b, c] =
     (Option.bind (num a) (\<lambda>a'.
       Option.bind (num b) (\<lambda>b'.
       Some \<lparr>le_index = a', le_term = b', le_command = c\<rparr>)))"
| "log_entry_of _ = None"

lemma log_entry_of_fields [simp]: "log_entry_of (log_entry_fields m) = Some m"
  by (simp add: log_entry_fields_def traverse_map)

definition append_entries_response_fields :: "AppendEntriesResponse \<Rightarrow> string list" where
  "append_entries_response_fields m = [to_string_u64 (aer_term m),
     flag (aer_success m),
     to_string_u64 (aer_match_index m),
     to_string_u64 (aer_responder_id m)]"

fun append_entries_response_of :: "string list \<Rightarrow> AppendEntriesResponse option" where
  "append_entries_response_of [a, b, c, d] =
     (Option.bind (num a) (\<lambda>a'.
       Option.bind (num c) (\<lambda>c'.
       Option.bind (num d) (\<lambda>d'.
       Some \<lparr>aer_term = a', aer_success = (b = ''1''), aer_match_index = c', aer_responder_id = d'\<rparr>))))"
| "append_entries_response_of _ = None"

lemma append_entries_response_of_fields [simp]: "append_entries_response_of (append_entries_response_fields m) = Some m"
  by (simp add: append_entries_response_fields_def traverse_map)

definition snapshot_metadata_fields :: "SnapshotMetadata \<Rightarrow> string list" where
  "snapshot_metadata_fields m = [to_string_u64 (sm_last_included_index m),
     to_string_u64 (sm_last_included_term m)]"

fun snapshot_metadata_of :: "string list \<Rightarrow> SnapshotMetadata option" where
  "snapshot_metadata_of [a, b] =
     (Option.bind (num a) (\<lambda>a'.
       Option.bind (num b) (\<lambda>b'.
       Some \<lparr>sm_last_included_index = a', sm_last_included_term = b'\<rparr>)))"
| "snapshot_metadata_of _ = None"

lemma snapshot_metadata_of_fields [simp]: "snapshot_metadata_of (snapshot_metadata_fields m) = Some m"
  by (simp add: snapshot_metadata_fields_def traverse_map)

definition snapshot_entry_fields :: "SnapshotEntry \<Rightarrow> string list" where
  "snapshot_entry_fields m = [se_key m,
     se_value m]"

fun snapshot_entry_of :: "string list \<Rightarrow> SnapshotEntry option" where
  "snapshot_entry_of [a, b] =
     (Some \<lparr>se_key = a, se_value = b\<rparr>)"
| "snapshot_entry_of _ = None"

lemma snapshot_entry_of_fields [simp]: "snapshot_entry_of (snapshot_entry_fields m) = Some m"
  by (simp add: snapshot_entry_fields_def traverse_map)

definition install_snapshot_fields :: "InstallSnapshotRequest \<Rightarrow> string list" where
  "install_snapshot_fields m = [to_string_u64 (is_term m),
     to_string_u64 (is_leader_id m),
     to_string_u64 (is_last_included_index m),
     to_string_u64 (is_last_included_term m),
     to_string_u64 (is_offset m),
     is_data m,
     flag (is_done m)]"

fun install_snapshot_of :: "string list \<Rightarrow> InstallSnapshotRequest option" where
  "install_snapshot_of [a, b, c, d, e, f, g] =
     (Option.bind (num a) (\<lambda>a'.
       Option.bind (num b) (\<lambda>b'.
       Option.bind (num c) (\<lambda>c'.
       Option.bind (num d) (\<lambda>d'.
       Option.bind (num e) (\<lambda>e'.
       Some \<lparr>is_term = a', is_leader_id = b', is_last_included_index = c', is_last_included_term = d', is_offset = e', is_data = f, is_done = (g = ''1'')\<rparr>))))))"
| "install_snapshot_of _ = None"

lemma install_snapshot_of_fields [simp]: "install_snapshot_of (install_snapshot_fields m) = Some m"
  by (simp add: install_snapshot_fields_def traverse_map)

definition install_snapshot_response_fields :: "InstallSnapshotResponse \<Rightarrow> string list" where
  "install_snapshot_response_fields m = [to_string_u64 (isr_term m),
     flag (isr_success m),
     to_string_u64 (isr_responder_id m),
     to_string_u64 (isr_next_offset m)]"

fun install_snapshot_response_of :: "string list \<Rightarrow> InstallSnapshotResponse option" where
  "install_snapshot_response_of [a, b, c, d] =
     (Option.bind (num a) (\<lambda>a'.
       Option.bind (num c) (\<lambda>c'.
       Option.bind (num d) (\<lambda>d'.
       Some \<lparr>isr_term = a', isr_success = (b = ''1''), isr_responder_id = c', isr_next_offset = d'\<rparr>))))"
| "install_snapshot_response_of _ = None"

lemma install_snapshot_response_of_fields [simp]: "install_snapshot_response_of (install_snapshot_response_fields m) = Some m"
  by (simp add: install_snapshot_response_fields_def traverse_map)

definition read_index_fields :: "ReadIndexRequest \<Rightarrow> string list" where
  "read_index_fields m = [to_string_u64 (ri_term m),
     to_string_u64 (ri_leader_id m)]"

fun read_index_of :: "string list \<Rightarrow> ReadIndexRequest option" where
  "read_index_of [a, b] =
     (Option.bind (num a) (\<lambda>a'.
       Option.bind (num b) (\<lambda>b'.
       Some \<lparr>ri_term = a', ri_leader_id = b'\<rparr>)))"
| "read_index_of _ = None"

lemma read_index_of_fields [simp]: "read_index_of (read_index_fields m) = Some m"
  by (simp add: read_index_fields_def traverse_map)

definition read_index_response_fields :: "ReadIndexResponse \<Rightarrow> string list" where
  "read_index_response_fields m = [to_string_u64 (rir_term m),
     flag (rir_success m),
     to_string_u64 (rir_responder_id m)]"

fun read_index_response_of :: "string list \<Rightarrow> ReadIndexResponse option" where
  "read_index_response_of [a, b, c] =
     (Option.bind (num a) (\<lambda>a'.
       Option.bind (num c) (\<lambda>c'.
       Some \<lparr>rir_term = a', rir_success = (b = ''1''), rir_responder_id = c'\<rparr>)))"
| "read_index_response_of _ = None"

lemma read_index_response_of_fields [simp]: "read_index_response_of (read_index_response_fields m) = Some m"
  by (simp add: read_index_response_fields_def traverse_map)

definition command_fields :: "Command \<Rightarrow> string list" where
  "command_fields m = [command_type_name (cmd_type m),
     to_string_u64 (cmd_client_id m),
     to_string_u64 (cmd_request_id m),
     cmd_key m,
     cmd_value m]"

fun command_of :: "string list \<Rightarrow> Command option" where
  "command_of [a, b, c, d, e] =
     (Option.bind (command_type_of a) (\<lambda>a'.
       Option.bind (num b) (\<lambda>b'.
       Option.bind (num c) (\<lambda>c'.
       Some \<lparr>cmd_type = a', cmd_client_id = b', cmd_request_id = c', cmd_key = d, cmd_value = e\<rparr>))))"
| "command_of _ = None"

lemma command_of_fields [simp]: "command_of (command_fields m) = Some m"
  by (simp add: command_fields_def traverse_map)

definition rpc_fields :: "RaftRpc \<Rightarrow> string list" where
  "rpc_fields m = [rpc_type_name (msg_type m),
     to_string_u64 (msg_request_id m),
     to_string_u64 (msg_sender_id m),
     msg_payload m]"

fun rpc_of :: "string list \<Rightarrow> RaftRpc option" where
  "rpc_of [a, b, c, d] =
     (Option.bind (rpc_type_of a) (\<lambda>a'.
       Option.bind (num b) (\<lambda>b'.
       Option.bind (num c) (\<lambda>c'.
       Some \<lparr>msg_type = a', msg_request_id = b', msg_sender_id = c', msg_payload = d\<rparr>))))"
| "rpc_of _ = None"

lemma rpc_of_fields [simp]: "rpc_of (rpc_fields m) = Some m"
  by (simp add: rpc_fields_def traverse_map)

definition client_request_fields :: "ClientRequest \<Rightarrow> string list" where
  "client_request_fields m = [to_string_u64 (cq_request_id m),
     operation_name (cq_operation m),
     cq_key m,
     cq_value m,
     to_string_u64 (cq_client_id m)]"

fun client_request_of :: "string list \<Rightarrow> ClientRequest option" where
  "client_request_of [a, b, c, d, e] =
     (Option.bind (num a) (\<lambda>a'.
       Option.bind (operation_of b) (\<lambda>b'.
       Option.bind (num e) (\<lambda>e'.
       Some \<lparr>cq_request_id = a', cq_operation = b', cq_key = c, cq_value = d, cq_client_id = e'\<rparr>))))"
| "client_request_of _ = None"

lemma client_request_of_fields [simp]: "client_request_of (client_request_fields m) = Some m"
  by (simp add: client_request_fields_def traverse_map)

definition client_response_fields :: "ClientResponse \<Rightarrow> string list" where
  "client_response_fields m = [to_string_u64 (cs_request_id m),
     status_name (cs_status m),
     cs_value m,
     cs_message m]"

fun client_response_of :: "string list \<Rightarrow> ClientResponse option" where
  "client_response_of [a, b, c, d] =
     (Option.bind (num a) (\<lambda>a'.
       Option.bind (status_of b) (\<lambda>b'.
       Some \<lparr>cs_request_id = a', cs_status = b', cs_value = c, cs_message = d\<rparr>)))"
| "client_response_of _ = None"

lemma client_response_of_fields [simp]: "client_response_of (client_response_fields m) = Some m"
  by (simp add: client_response_fields_def traverse_map)

definition append_entries_fields :: "AppendEntriesRequest \<Rightarrow> string list" where
  "append_entries_fields m = [to_string_u64 (ae_term m),
     to_string_u64 (ae_leader_id m),
     to_string_u64 (ae_prev_log_index m),
     to_string_u64 (ae_prev_log_term m),
     nets (map (\<lambda>x. nets (log_entry_fields x)) (ae_entries m)),
     to_string_u64 (ae_leader_commit m)]"

fun append_entries_of :: "string list \<Rightarrow> AppendEntriesRequest option" where
  "append_entries_of [a, b, c, d, e, f] =
     (Option.bind (num a) (\<lambda>a'.
       Option.bind (num b) (\<lambda>b'.
       Option.bind (num c) (\<lambda>c'.
       Option.bind (num d) (\<lambda>d'.
       Option.bind (Option.bind (read_nets e) (traverse (\<lambda>s. Option.bind (read_nets s) log_entry_of))) (\<lambda>e'.
       Option.bind (num f) (\<lambda>f'.
       Some \<lparr>ae_term = a', ae_leader_id = b', ae_prev_log_index = c', ae_prev_log_term = d', ae_entries = e', ae_leader_commit = f'\<rparr>)))))))"
| "append_entries_of _ = None"

lemma append_entries_of_fields [simp]: "append_entries_of (append_entries_fields m) = Some m"
  by (simp add: append_entries_fields_def traverse_map)

definition snapshot_state_fields :: "SnapshotState \<Rightarrow> string list" where
  "snapshot_state_fields m = [nets (map (\<lambda>x. nets (snapshot_entry_fields x)) (ss_entries m)),
     nets (map (\<lambda>x. nets (snapshot_entry_fields x)) (ss_applied_requests m))]"

fun snapshot_state_of :: "string list \<Rightarrow> SnapshotState option" where
  "snapshot_state_of [a, b] =
     (Option.bind (Option.bind (read_nets a) (traverse (\<lambda>s. Option.bind (read_nets s) snapshot_entry_of))) (\<lambda>a'.
       Option.bind (Option.bind (read_nets b) (traverse (\<lambda>s. Option.bind (read_nets s) snapshot_entry_of))) (\<lambda>b'.
       Some \<lparr>ss_entries = a', ss_applied_requests = b'\<rparr>)))"
| "snapshot_state_of _ = None"

lemma snapshot_state_of_fields [simp]: "snapshot_state_of (snapshot_state_fields m) = Some m"
  by (simp add: snapshot_state_fields_def traverse_map)

definition mem_pb :: codecs where
  "mem_pb = \<lparr>
     command_pb = net_codec command_fields command_of,
     log_entry_pb = net_codec log_entry_fields log_entry_of,
     request_vote_pb = net_codec request_vote_fields request_vote_of,
     request_vote_response_pb = net_codec request_vote_response_fields request_vote_response_of,
     append_entries_pb = net_codec append_entries_fields append_entries_of,
     append_entries_response_pb = net_codec append_entries_response_fields append_entries_response_of,
     snapshot_metadata_pb = net_codec snapshot_metadata_fields snapshot_metadata_of,
     snapshot_state_pb = net_codec snapshot_state_fields snapshot_state_of,
     install_snapshot_pb = net_codec install_snapshot_fields install_snapshot_of,
     install_snapshot_response_pb = net_codec install_snapshot_response_fields install_snapshot_response_of,
     read_index_pb = net_codec read_index_fields read_index_of,
     read_index_response_pb = net_codec read_index_response_fields read_index_response_of,
     rpc_pb = net_codec rpc_fields rpc_of,
     client_request_pb = net_codec client_request_fields client_request_of,
     client_response_pb = net_codec client_response_fields client_response_of\<rparr>"

lemma mem_pb_ok: "codecs_ok mem_pb"
  by (simp add: codecs_ok_def mem_pb_def net_codec_ok)

lemma mem_pb_total: "codecs_total mem_pb"
  by (simp add: codecs_total_def mem_pb_def net_codec_total)

definition mem_env :: "mem env" where
  "mem_env = \<lparr>env_pb = mem_pb, env_rocks = mem_rocks, env_connected = (\<lambda>tr c. Shutdown c \<notin> set tr)\<rparr>"

lemma mem_env_simps [simp]: "env_pb mem_env = mem_pb" "env_rocks mem_env = mem_rocks"
  by (simp_all add: mem_env_def)

section \<open>An empty store\<close>

text \<open>The state that an empty store represents.\<close>

definition blank_state :: PersistedRaftState where
  "blank_state = \<lparr>ps_current_term = 0, ps_voted_for = - 1, ps_commit_index = 0, ps_last_applied = 0,
     ps_snapshot_index = 0, ps_snapshot_term = 0, ps_snapshot_data = [], ps_log = []\<rparr>"

lemma blank_represents: "represents P Map.empty blank_state"
  by (simp add: represents_def blank_state_def ParseUint64_def ParseInt64_def snapshot_stored_def)

end
