(* ===== verification/Store_Properties.thy ===== *)
theory Store_Properties
  imports Mem_Instance
begin

text \<open>
  The properties of the storage side of the program: command application, the durable Raft
  state, snapshots and framing. Each witness runs the code's model on the store and the codecs
  of \<open>Mem_Instance\<close>.
\<close>

section \<open>Commands\<close>

definition demo_put :: Command where
  "demo_put = \<lparr>cmd_type = COMMAND_TYPE_PUT, cmd_client_id = 7, cmd_request_id = 1,
     cmd_key = ''k'', cmd_value = ''v''\<rparr>"

definition demo_db :: mem where
  "demo_db = snd (ApplyAtomically mem_pb mem_rocks demo_put 1 1 [])"

lemma demo_apply: "ApplyAtomically mem_pb mem_rocks demo_put 1 1 [] = (Inr (), demo_db)"
  by code_simp

text \<open>C3: A committed command that is applied without an exception is exactly one transition of
  the abstract key-value machine, and the same batch leaves \<open>last_applied\<close> and \<open>commit_index\<close> on
  disk at the values it was called with.\<close>

theorem apply_refines_machine:
  assumes "rocksdb_ok R \<alpha>" and "ApplyAtomically P R c i j d = (Inr u, d')"
  shows "spec_apply P c (abs_machine (\<alpha> d)) = Some (abs_machine (\<alpha> d')) \<and>
    \<alpha> d' ''__raft/last_applied'' = Some (to_string_u64 i) \<and>
    \<alpha> d' ''__raft/commit_index'' = Some (to_string_u64 j)"
proof -
  note run = ApplyAtomically_returns [OF assms]
  show ?thesis
    using apply_contents_refines [of P c i j "\<alpha> d"] apply_contents_progress [OF run] by (simp add: run)
qed

theorem apply_refines_machine_witness:
  "spec_apply mem_pb demo_put (abs_machine (map_of [])) = Some (abs_machine (map_of demo_db)) \<and>
   map_of demo_db ''__raft/last_applied'' = Some (to_string_u64 1) \<and>
   map_of demo_db ''__raft/commit_index'' = Some (to_string_u64 1)"
  using apply_refines_machine [OF mem_rocks_ok demo_apply] .

text \<open>C23: On a device that does not fail, the outcome of applying a command is decided by the
  abstract machine: a command it accepts is applied and returns, a command it refuses (a reserved
  key, a \<open>GET\<close>, a reused request id) throws and leaves the contents of the store as they were.\<close>

theorem apply_decided_by_machine:
  assumes "rocksdb_ok R \<alpha>" and "rocksdb_faultless R"
  shows "case spec_apply P c (abs_machine (\<alpha> d)) of
      Some k \<Rightarrow> \<exists>d'. ApplyAtomically P R c i j d = (Inr (), d') \<and> abs_machine (\<alpha> d') = k
    | None \<Rightarrow> \<exists>e d'. ApplyAtomically P R c i j d = (Inl e, d') \<and> \<alpha> d' = \<alpha> d"
proof (cases "apply_contents P c i j (\<alpha> d)")
  case None
  obtain r d' where run: "ApplyAtomically P R c i j d = (r, d')" by fastforce
  from ApplyAtomically_refuses [OF assms(1) run None] run
  show ?thesis using apply_contents_refines [of P c i j "\<alpha> d"] None by (auto split: option.split)
next
  case (Some m')
  from ApplyAtomically_accepts [OF assms Some] obtain d'
    where "ApplyAtomically P R c i j d = (Inr (), d')" and "\<alpha> d' = m'" .
  moreover have "spec_apply P c (abs_machine (\<alpha> d)) = Some (abs_machine m')"
    using apply_contents_refines [of P c i j "\<alpha> d"] Some by simp
  ultimately show ?thesis by simp
qed

theorem apply_decided_by_machine_witness:
  "case spec_apply mem_pb demo_put (abs_machine (map_of [])) of
      Some k \<Rightarrow> \<exists>d'. ApplyAtomically mem_pb mem_rocks demo_put 1 1 [] = (Inr (), d') \<and> abs_machine (map_of d') = k
    | None \<Rightarrow> \<exists>e d'. ApplyAtomically mem_pb mem_rocks demo_put 1 1 [] = (Inl e, d') \<and> map_of d' = map_of []"
  by (rule apply_decided_by_machine [OF mem_rocks_ok mem_rocks_faultless])

text \<open>C13: Deduplication. A command with a request id that was applied once and is applied again,
  at whatever later point and with any commands of other requests in between that leave its record
  in place, changes neither the user keys nor the request records.\<close>

theorem apply_exactly_once:
  assumes "rocksdb_ok R \<alpha>" and "cmd_request_id c \<noteq> 0"
    and "ApplyAtomically P R c i j d = (Inr u, d1)"
    and "applied (abs_machine (\<alpha> d2)) (cmd_client_id c, cmd_request_id c)
       = applied (abs_machine (\<alpha> d1)) (cmd_client_id c, cmd_request_id c)"
    and "ApplyAtomically P R c i' j' d2 = (Inr v, d3)"
  shows "abs_machine (\<alpha> d3) = abs_machine (\<alpha> d2)"
proof -
  let ?rid = "(cmd_client_id c, cmd_request_id c)"
  have first: "spec_apply P c (abs_machine (\<alpha> d)) = Some (abs_machine (\<alpha> d1))"
    and again: "spec_apply P c (abs_machine (\<alpha> d2)) = Some (abs_machine (\<alpha> d3))"
    using ApplyAtomically_returns [OF assms(1,3)] ApplyAtomically_returns [OF assms(1,5)]
      apply_contents_refines [of P c i j "\<alpha> d"] apply_contents_refines [of P c i' j' "\<alpha> d2"]
    by simp_all
  from first assms(2) obtain s where "serialize (command_pb P) c = Some s"
    and "applied (abs_machine (\<alpha> d1)) ?rid = Some s"
    using spec_apply_records by blast
  with again assms(2,4) show ?thesis
    by (auto simp: spec_apply_def Let_def split: if_splits)
qed

theorem apply_exactly_once_witness:
  "abs_machine (map_of (snd (ApplyAtomically mem_pb mem_rocks demo_put 2 2 demo_db))) =
   abs_machine (map_of demo_db)"
proof -
  have again: "ApplyAtomically mem_pb mem_rocks demo_put 2 2 demo_db =
      (Inr (), snd (ApplyAtomically mem_pb mem_rocks demo_put 2 2 demo_db))"
    by code_simp
  show ?thesis
    by (rule apply_exactly_once [OF mem_rocks_ok _ demo_apply refl again]) (simp add: demo_put_def)
qed

text \<open>C22: Whatever the store does, a command whose application throws has either left the
  contents of the store unchanged or made the whole transition: user keys, request record and
  progress are never torn apart.\<close>

theorem apply_all_or_nothing:
  assumes "rocksdb_ok R \<alpha>" and "ApplyAtomically P R c i j d = (Inl e, d')"
  shows "\<alpha> d' = \<alpha> d \<or>
    (spec_apply P c (abs_machine (\<alpha> d)) = Some (abs_machine (\<alpha> d')) \<and>
     \<alpha> d' ''__raft/last_applied'' = Some (to_string_u64 i))"
  using ApplyAtomically_throws [OF assms] apply_contents_refines [of P c i j "\<alpha> d"]
    apply_contents_progress(2) [of P c i j "\<alpha> d"] by auto

definition demo_get :: Command where
  "demo_get = demo_put\<lparr>cmd_type := COMMAND_TYPE_GET\<rparr>"

theorem apply_all_or_nothing_witness:
  "\<exists>e d'. ApplyAtomically mem_pb mem_rocks demo_get 2 2 [] = (Inl e, d') \<and>
    (map_of d' = map_of [] \<or>
     (spec_apply mem_pb demo_get (abs_machine (map_of [])) = Some (abs_machine (map_of d')) \<and>
      map_of d' ''__raft/last_applied'' = Some (to_string_u64 2)))"
proof -
  have "ApplyAtomically mem_pb mem_rocks demo_get 2 2 [] =
      (Inl (Invalid_argument ''GET command cannot be applied to the state machine''), [])"
    by code_simp
  from apply_all_or_nothing [OF mem_rocks_ok this] this show ?thesis by blast
qed

section \<open>The durable Raft state\<close>

text \<open>C8: What \<open>PersistState\<close> and \<open>PersistLog\<close> write is what \<open>Load\<close> reads after a restart: term,
  vote, commit and applied index, and the log entry by entry, with stale entries of an older,
  longer log gone. The snapshot is the one stored before.\<close>

theorem load_after_persist:
  assumes ok: "rocksdb_ok R \<alpha>" and live: "rocksdb_faultless R" and pb: "codecs_ok P"
    and rep: "represents P (\<alpha> d) st"
    and ps: "PersistState R t v ci la si sterm d = (Inr u, d1)"
    and pl: "PersistLog P R (ps_snapshot_index st) l d1 = (Inr w, d2)"
    and room: "unat (ps_snapshot_index st) + length l < 2 ^ 64 - 1"
  shows "Load P R d2 = Inr (st\<lparr>ps_current_term := t, ps_voted_for := v, ps_commit_index := ci,
    ps_last_applied := la, ps_log := l\<rparr>)"
proof -
  have "represents P (\<alpha> d1)
      (st\<lparr>ps_current_term := t, ps_voted_for := v, ps_commit_index := ci, ps_last_applied := la\<rparr>)"
    unfolding PersistState_abs [OF ok ps] by (rule represents_PersistState [OF rep])
  moreover have "log_stored P (\<alpha> d2) (ps_snapshot_index st) l"
    and "k \<notin> range LogKey \<Longrightarrow> \<alpha> d2 k = \<alpha> d1 k" for k
    using PersistLog_stored [OF ok _ pl] pb room by (simp_all add: codecs_ok_def)
  ultimately have "represents P (\<alpha> d2)
      (st\<lparr>ps_current_term := t, ps_voted_for := v, ps_commit_index := ci, ps_last_applied := la,
          ps_log := l\<rparr>)"
    using represents_PersistLog [of P "\<alpha> d2"
      "st\<lparr>ps_current_term := t, ps_voted_for := v, ps_commit_index := ci, ps_last_applied := la\<rparr>" l "\<alpha> d1"]
      meta_not_LogKey by simp
  from Load_represents [OF ok live this] room show ?thesis by simp
qed

definition demo_log :: "RaftLogEntry list" where
  "demo_log = [\<lparr>entry_term = 2, entry_command = ''a''\<rparr>, \<lparr>entry_term = 3, entry_command = ''b''\<rparr>]"

theorem load_after_persist_witness:
  "Load mem_pb mem_rocks
     (snd (PersistLog mem_pb mem_rocks 0 demo_log (snd (PersistState mem_rocks 3 1 1 1 0 0 [])))) =
   Inr (blank_state\<lparr>ps_current_term := 3, ps_voted_for := 1, ps_commit_index := 1,
    ps_last_applied := 1, ps_log := demo_log\<rparr>)"
proof -
  let ?d = "snd (PersistState mem_rocks 3 1 1 1 0 0 [])"
  have ps: "PersistState mem_rocks 3 1 1 1 0 0 [] = (Inr (), ?d)"
    and pl: "PersistLog mem_pb mem_rocks (ps_snapshot_index blank_state) demo_log ?d =
      (Inr (), snd (PersistLog mem_pb mem_rocks 0 demo_log ?d))"
    by code_simp+
  have "represents mem_pb (map_of []) blank_state" by (simp add: blank_represents)
  from load_after_persist [OF mem_rocks_ok mem_rocks_faultless mem_pb_ok this ps pl]
  show ?thesis by (simp add: blank_state_def demo_log_def)
qed

text \<open>C24: \<open>PersistLog\<close> terminates and returns on a device that does not fail, although its loop
  over stale log keys has no bound: it is enough that one log key is free and that the snapshot
  index is not the last 64-bit number.\<close>

theorem persist_log_returns:
  assumes "rocksdb_ok R \<alpha>" and "rocksdb_faultless R" and "codecs_total P"
    and "s \<noteq> - 1" and "\<alpha> d (LogKey j) = None"
  shows "\<exists>d'. PersistLog P R s l d = (Inr (), d')"
  using assms by (rule PersistLog_returns)

theorem persist_log_returns_witness:
  "\<exists>d'. PersistLog mem_pb mem_rocks 0 demo_log [] = (Inr (), d')"
  by (rule persist_log_returns [OF mem_rocks_ok mem_rocks_faultless mem_pb_total, where j = 0]) simp_all

section \<open>Snapshots\<close>

text \<open>C14: A snapshot carries the whole machine. The bytes that one node serialises from its
  store, parsed and installed by another node over whatever its store held, give the other node
  exactly the user keys and the request records of the first; what it would load after a restart
  is the snapshot's position with the log kept behind it.\<close>

theorem snapshot_transfer:
  assumes okA: "rocksdb_ok RA \<alpha>" and okB: "rocksdb_ok RB \<beta>" and pb: "codecs_ok P"
    and es: "GetAllUserEntries RA da = Inr es" and rs: "GetAppliedRequests RA da = Inr rs"
    and data: "SerializeSnapshotState P es rs = Inr data"
    and sc: "ParseSnapshotState P data = Inr sc"
    and run: "ApplySnapshot P RB sc ct vf ci la si sterm l d = (Inr u, d')"
    and nz: "si \<noteq> 0" "sterm \<noteq> 0" and room: "length l < 2 ^ 64"
  shows "abs_machine (\<beta> d') = abs_machine (\<alpha> da) \<and>
    represents P (\<beta> d') \<lparr>ps_current_term = ct, ps_voted_for = vf, ps_commit_index = ci,
      ps_last_applied = la, ps_snapshot_index = si, ps_snapshot_term = sterm, ps_snapshot_data = data,
      ps_log = l\<rparr>"
proof -
  have pbs: "codec_ok (snapshot_state_pb P)" using pb by (simp add: codecs_ok_def)
  from sc have keys: "snapshot_keys_ok es rs"
    and sc': "sc = \<lparr>sc_entries = es, sc_applied_requests = rs\<rparr>"
    by (simp_all add: ParseSnapshotState_Serialize [OF pbs data])
  from okB pb run _ nz room obtain data' where
    d: "SerializeSnapshotState P (sc_entries sc) (sc_applied_requests sc) = Inr data'"
    and u: "user_part (\<beta> d') = map_of (sc_entries sc)"
    and a: "\<And>k. \<beta> d' (''__raft/client/'' @ k) = map_of (sc_applied_requests sc) k"
    and rep: "represents P (\<beta> d') \<lparr>ps_current_term = ct, ps_voted_for = vf, ps_commit_index = ci,
      ps_last_applied = la, ps_snapshot_index = si, ps_snapshot_term = sterm, ps_snapshot_data = data',
      ps_log = l\<rparr>"
    by (rule ApplySnapshot_installs) (simp_all add: sc' keys)
  have "user_part (\<beta> d') = user_part (\<alpha> da)"
    using GetAllUserEntries_spec(2) [OF okA es] u by (simp add: sc')
  moreover have "\<beta> d' (client_key r) = \<alpha> da (client_key r)" for r
    using a GetAppliedRequests_spec(2) [OF okA rs] by (simp add: client_key_def sc')
  moreover have "data' = data" using d data by (simp add: sc')
  ultimately show ?thesis
    using rep by (simp add: abs_machine_def applied_part_def)
qed

definition demo_snapshot :: SnapshotContents where
  "demo_snapshot = \<lparr>sc_entries = [(''k'', ''v'')],
     sc_applied_requests = [(''7/1'', the (serialize (command_pb mem_pb) demo_put))]\<rparr>"

definition demo_data :: string where
  "demo_data = (case SerializeSnapshotState mem_pb (sc_entries demo_snapshot)
     (sc_applied_requests demo_snapshot) of Inr s \<Rightarrow> s | Inl _ \<Rightarrow> [])"

definition demo_target :: "(error + unit) \<times> mem" where
  "demo_target = ApplySnapshot mem_pb mem_rocks demo_snapshot 3 (- 1) 5 5 5 2 demo_log
     [(''old'', ''x''), (''__raft/log/1'', ''stale'')]"

theorem snapshot_transfer_witness:
  "abs_machine (map_of (snd demo_target)) = abs_machine (map_of demo_db) \<and>
   represents mem_pb (map_of (snd demo_target)) \<lparr>ps_current_term = 3, ps_voted_for = - 1,
     ps_commit_index = 5, ps_last_applied = 5, ps_snapshot_index = 5, ps_snapshot_term = 2,
     ps_snapshot_data = demo_data, ps_log = demo_log\<rparr>"
proof -
  have es: "GetAllUserEntries mem_rocks demo_db = Inr (sc_entries demo_snapshot)"
    and rs: "GetAppliedRequests mem_rocks demo_db = Inr (sc_applied_requests demo_snapshot)"
    and data: "SerializeSnapshotState mem_pb (sc_entries demo_snapshot)
      (sc_applied_requests demo_snapshot) = Inr demo_data"
    and sc: "ParseSnapshotState mem_pb demo_data = Inr demo_snapshot"
    and run: "ApplySnapshot mem_pb mem_rocks demo_snapshot 3 (- 1) 5 5 5 2 demo_log
      [(''old'', ''x''), (''__raft/log/1'', ''stale'')] = (Inr (), snd demo_target)"
    by code_simp+
  show ?thesis
    by (rule snapshot_transfer [OF mem_rocks_ok mem_rocks_ok mem_pb_ok es rs data sc run])
       (simp_all add: demo_log_def)
qed

section \<open>Framing\<close>



end
