(* ===== verification/Raft_Rpc.thy ===== *)
theory Raft_Rpc
  imports Raft_State
begin

text \<open>
  The sending half of \<open>src/raft_node.cpp\<close>: messages to peers, the peer clients, the election
  timer, elections, heartbeats, log and snapshot replication, and the ReadIndex protocol of a
  leader.
\<close>

section \<open>Messages\<close>

definition allocate_rpc_id :: "('db, u64) N" where
  "allocate_rpc_id = mget (\<lambda>n.
     mseq (mput (\<lambda>n. n\<lparr>next_rpc_id := next_rpc_id n + 1\<rparr>)) (ret (next_rpc_id n)))"

definition SendRpc :: "'db env \<Rightarrow> conn option \<Rightarrow> RpcType \<Rightarrow> string \<Rightarrow> u64 \<Rightarrow> ('db, u64) N" where
  "SendRpc E connection type payload request_id = mget (\<lambda>n.
     case connection of
       None \<Rightarrow> ret 0
     | Some c \<Rightarrow>
         if \<not> connected E n c then ret 0
         else mbind (if request_id = 0 then allocate_rpc_id else ret request_id) (\<lambda>request_id.
           case serialize (rpc_pb (env_pb E))
               \<lparr>msg_type = type, msg_request_id = request_id,
                msg_sender_id = u64_of_i32 (server_id n), msg_payload = payload\<rparr> of
             None \<Rightarrow> ret 0
           | Some serialized \<Rightarrow>
               mbind (lift_result (Frame serialized)) (\<lambda>frame.
                 mseq (emit (Send c frame)) (ret request_id))))"

definition SendRpcToPeer :: "'db env \<Rightarrow> i32 \<Rightarrow> RpcType \<Rightarrow> string \<Rightarrow> u64 \<Rightarrow> ('db, u64) N" where
  "SendRpcToPeer E peer type payload request_id = mget (\<lambda>n.
     case ConnectionForPeer n peer of
       None \<Rightarrow> ret 0
     | Some c \<Rightarrow>
         if \<not> connected E n c then ret 0 else SendRpc E (Some c) type payload request_id)"

text \<open>A reply is sent only when its payload could be serialised.\<close>

definition reply :: "'db env \<Rightarrow> conn \<Rightarrow> RpcType \<Rightarrow> string option \<Rightarrow> u64 \<Rightarrow> ('db, unit) N" where
  "reply E c type payload request_id = (case payload of
       None \<Rightarrow> ret ()
     | Some p \<Rightarrow> mseq (SendRpc E (Some c) type p request_id) (ret ()))"

definition CreatePeerClient :: "i32 \<Rightarrow> ('db, unit) N" where
  "CreatePeerClient peer = mget (\<lambda>n.
     case find (\<lambda>p. peer_id p = peer) (peers n) of
       None \<Rightarrow> ret ()
     | Some p \<Rightarrow>
         if \<not> i32_less (server_id n) peer then ret ()
         else mbind (lift_result (ParseEndpoint (peer_endpoint p))) (\<lambda>(host, port). mdo [
           emit (ClientConnect peer host port),
           mput (\<lambda>n. n\<lparr>clients := List.insert peer (clients n)\<rparr>)]))"

section \<open>Timers\<close>

text \<open>
  \<open>%\<close> truncates towards zero, so the jitter has the sign of its dividend. The dividend is
  computed in \<open>int\<close>; it wraps here where the C++ leaves overflow undefined.
\<close>

definition cpp_rem :: "int \<Rightarrow> int \<Rightarrow> int" where
  "cpp_rem a b = sgn a * (\<bar>a\<bar> mod \<bar>b\<bar>)"

definition election_delay :: "'db node \<Rightarrow> int" where
  "election_delay n =
     kElectionTimeout +
     50 * cpp_rem (sint (server_id n * 13 + i32_of_u64 (current_term n) * 7)) 5"

definition cancel_opt :: "timer option \<Rightarrow> ('db, unit) N" where
  "cancel_opt t = (case t of None \<Rightarrow> ret () | Some k \<Rightarrow> emit (CancelTimer k))"

definition ResetElectionTimer :: "('db, unit) N" where
  "ResetElectionTimer = mget (\<lambda>n. mseq (cancel_opt (election_timer n))
     (mbind (run_after (election_delay n) ElectionTimeout) (\<lambda>t.
        mput (\<lambda>n. n\<lparr>election_timer := Some t\<rparr>))))"

section \<open>ReadIndex requests that fail\<close>

definition set_value :: "promise \<Rightarrow> bool \<Rightarrow> ('db, unit) N" where
  "set_value p b = emit (SetValue p b)"

definition cancel_read_index_timer :: "('db, unit) N" where
  "cancel_read_index_timer = mget (\<lambda>n. mseq (cancel_opt (read_index_timer n))
     (mput (\<lambda>n. n\<lparr>read_index_timer := None\<rparr>)))"

definition FailPendingReadIndexes :: "('db, unit) N" where
  "FailPendingReadIndexes = mget (\<lambda>n. mdo [
     cancel_read_index_timer,
     (case active_read_index n of
        None \<Rightarrow> ret ()
      | Some a \<Rightarrow> mseq (set_value (pri_result a) False) (mput (\<lambda>n. n\<lparr>active_read_index := None\<rparr>))),
     mfor (pending_read_indexes n) (\<lambda>r. mseq (set_value (pri_result r) False)
       (mput (\<lambda>n. n\<lparr>pending_read_indexes := tl (pending_read_indexes n)\<rparr>)))])"

section \<open>Replication\<close>

text \<open>The entries from \<open>index\<close> up to the end of the log, at most \<open>kMaxEntriesPerRpc\<close> from \<open>next\<close>.\<close>

function append_batch :: "'db node \<Rightarrow> u64 \<Rightarrow> u64 \<Rightarrow> error + proto_RaftLogEntry list" where
  "append_batch n next index =
     (if index \<le> LastIndex n \<and> index < next + kMaxEntriesPerRpc
      then rbind (LogOffset n index) (\<lambda>offset.
        rbind (append_batch n next (index + 1)) (\<lambda>rest.
          Inr (\<lparr>le_index = index, le_term = entry_term (log n ! offset),
                le_command = entry_command (log n ! offset)\<rparr> # rest)))
      else Inr [])"
  by pat_completeness auto
termination
  by (relation "measure (\<lambda>(n, next, index). unat (next + kMaxEntriesPerRpc) - unat index)")
     (auto simp: unat_succ_less word_less_nat_alt intro: diff_less_mono2)

declare append_batch.simps [simp del]

definition note_rpc :: "i32 \<Rightarrow> u64 \<Rightarrow> ('db, unit) N" where
  "note_rpc peer request_id =
     mput (\<lambda>n. n\<lparr>rpc_request_id := (rpc_request_id n)(peer := request_id)\<rparr>)"

text \<open>The chunk of the snapshot that starts at an offset.\<close>

definition chunk_request :: "'db node \<Rightarrow> u64 \<Rightarrow> InstallSnapshotRequest" where
  "chunk_request n offset =
     (let remaining = length (snapshot_data n) - unat offset;
          chunk_size = min remaining kSnapshotChunkSize in
      \<lparr>is_term = current_term n, is_leader_id = u64_of_i32 (server_id n),
       is_last_included_index = snapshot_index n, is_last_included_term = snapshot_term n,
       is_offset = offset, is_data = take chunk_size (drop (unat offset) (snapshot_data n)),
       is_done = (chunk_size = remaining)\<rparr>)"

definition SendSnapshot :: "'db env \<Rightarrow> i32 \<Rightarrow> ('db, unit) N" where
  "SendSnapshot E peer = mget (\<lambda>n.
     if role n \<noteq> Leader \<or> rpc_inflight n peer \<or> snapshot_index n = 0 then ret ()
     else case ConnectionForPeer n peer of
       None \<Rightarrow> ret ()
     | Some c \<Rightarrow>
         if \<not> connected E n c then ret ()
         else
         let offset = (if length (snapshot_data n) < unat (rpc_snapshot_offset n peer) then 0
                       else rpc_snapshot_offset n peer);
             generation = rpc_generation n peer + 1
         in case serialize (install_snapshot_pb (env_pb E)) (chunk_request n offset) of
           None \<Rightarrow> ret ()
         | Some payload \<Rightarrow>
             mseq (mput (\<lambda>n. n\<lparr>
               rpc_inflight := (rpc_inflight n)(peer := True),
               rpc_snapshot := (rpc_snapshot n)(peer := True),
               rpc_generation := (rpc_generation n)(peer := generation)\<rparr>))
             (mbind (SendRpc E (Some c) INSTALL_SNAPSHOT payload 0) (\<lambda>request_id.
                if request_id = 0 then ResetPeerRpcState peer (Some c)
                else mseq (note_rpc peer request_id)
                  (mseq (run_after kRpcTimeout (SnapshotTimeout peer generation request_id c))
                     (ret ())))))"

definition send_entries :: "'db env \<Rightarrow> i32 \<Rightarrow> conn \<Rightarrow> ('db, unit) N" where
  "send_entries E peer c = mget (\<lambda>n.
     let next = max 1 (min (val_or 0 (next_index n) peer) (LastIndex n + 1));
         generation = rpc_generation n peer + 1
     in mbind (lift_result (append_batch n next next)) (\<lambda>entries.
       case serialize (append_entries_pb (env_pb E))
           \<lparr>ae_term = current_term n, ae_leader_id = u64_of_i32 (server_id n),
            ae_prev_log_index = next - 1, ae_prev_log_term = TermAt n (next - 1),
            ae_entries = entries, ae_leader_commit = commit_index n\<rparr> of
         None \<Rightarrow> ret ()
       | Some payload \<Rightarrow>
           mseq (mput (\<lambda>n. n\<lparr>
             rpc_inflight := (rpc_inflight n)(peer := True),
             rpc_generation := (rpc_generation n)(peer := generation),
             rpc_has_entries := (rpc_has_entries n)(peer := (entries \<noteq> []))\<rparr>))
           (mbind (SendRpc E (Some c) APPEND_ENTRIES payload 0) (\<lambda>request_id.
              if request_id = 0 then ResetPeerRpcState peer (Some c)
              else mseq (note_rpc peer request_id)
                (mseq (run_after kRpcTimeout (AppendTimeout peer generation request_id c))
                   (ret ()))))))"

definition SendAppend :: "'db env \<Rightarrow> i32 \<Rightarrow> ('db, unit) N" where
  "SendAppend E peer = mget (\<lambda>n.
     if role n \<noteq> Leader \<or> rpc_inflight n peer then ret ()
     else case ConnectionForPeer n peer of
       None \<Rightarrow> ret ()
     | Some c \<Rightarrow>
         if \<not> connected E n c then ret ()
         else mseq (mput (\<lambda>n. n\<lparr>next_index := touch 0 peer (next_index n)\<rparr>))
           (if val_or 0 (next_index n) peer \<le> snapshot_index n then SendSnapshot E peer
            else send_entries E peer c))"

text \<open>What both replication timeouts do once they find that their request is still the current one.\<close>

definition reconnect_peer :: "i32 \<Rightarrow> conn \<Rightarrow> ('db, unit) N" where
  "reconnect_peer peer c = mseq (ResetPeerRpcState peer (Some c)) (mget (\<lambda>n.
     if i32_less (server_id n) peer
     then mdo [
       mwhen (peer \<in> set (clients n))
         (mseq (emit (ClientStop peer)) (mput (\<lambda>n. n\<lparr>clients := removeAll peer (clients n)\<rparr>))),
       mwhen (map_of (outbound_connections n) peer = Some c)
         (mput (\<lambda>n. n\<lparr>outbound_connections := AList.delete peer (outbound_connections n)\<rparr>)),
       CreatePeerClient peer]
     else mdo [
       emit (Shutdown c),
       mwhen (map_of (inbound_connections n) peer = Some c)
         (mput (\<lambda>n. n\<lparr>inbound_connections := AList.delete peer (inbound_connections n)\<rparr>))]))"

definition on_append_timeout :: "i32 \<Rightarrow> u64 \<Rightarrow> u64 \<Rightarrow> conn \<Rightarrow> ('db, unit) N" where
  "on_append_timeout peer generation request_id c = mget (\<lambda>n.
     if role n \<noteq> Leader \<or> \<not> rpc_inflight n peer \<or> rpc_generation n peer \<noteq> generation \<or>
        rpc_request_id n peer \<noteq> request_id \<or> ConnectionForPeer n peer \<noteq> Some c
     then ret () else reconnect_peer peer c)"

definition on_snapshot_timeout :: "i32 \<Rightarrow> u64 \<Rightarrow> u64 \<Rightarrow> conn \<Rightarrow> ('db, unit) N" where
  "on_snapshot_timeout peer generation request_id c = mget (\<lambda>n.
     if role n \<noteq> Leader \<or> \<not> rpc_inflight n peer \<or> \<not> rpc_snapshot n peer \<or>
        rpc_generation n peer \<noteq> generation \<or> rpc_request_id n peer \<noteq> request_id \<or>
        ConnectionForPeer n peer \<noteq> Some c
     then ret () else reconnect_peer peer c)"

text \<open>Loops over the configured peers skip the node itself.\<close>

definition for_peers :: "(i32 \<Rightarrow> ('db, unit) N) \<Rightarrow> ('db, unit) N" where
  "for_peers f = mget (\<lambda>n.
     mfor (peers n) (\<lambda>p. mwhen (peer_id p \<noteq> server_id n) (f (peer_id p))))"

definition SendHeartbeats :: "'db env \<Rightarrow> ('db, unit) N" where
  "SendHeartbeats E = mget (\<lambda>n.
     if role n \<noteq> Leader \<or> stopping n then ret ()
     else mseq (for_peers (SendAppend E))
       (mbind (run_after kHeartbeatInterval HeartbeatTick) (\<lambda>t.
          mput (\<lambda>n. n\<lparr>heartbeat_timer := Some t\<rparr>))))"

section \<open>Elections\<close>

definition SendRequestVoteToPeer :: "'db env \<Rightarrow> i32 \<Rightarrow> ('db, unit) N" where
  "SendRequestVoteToPeer E peer = mget (\<lambda>n.
     case serialize (request_vote_pb (env_pb E))
         \<lparr>rv_term = current_term n, rv_candidate_id = u64_of_i32 (server_id n),
          rv_last_log_index = LastIndex n, rv_last_log_term = LastTerm n\<rparr> of
       None \<Rightarrow> ret ()
     | Some payload \<Rightarrow>
         mbind (SendRpcToPeer E peer REQUEST_VOTE payload 0) (\<lambda>id.
           mput (\<lambda>n. n\<lparr>vote_request_id := (vote_request_id n)(peer := id)\<rparr>)))"

definition SendRequestVotes :: "'db env \<Rightarrow> ('db, unit) N" where
  "SendRequestVotes E = for_peers (SendRequestVoteToPeer E)"

definition BecomeLeader :: "'db env \<Rightarrow> ('db, unit) N" where
  "BecomeLeader E = mdo [
     mput (\<lambda>n. n\<lparr>role := Leader, leader := True\<rparr>),
     mget (\<lambda>n. cancel_opt (election_timer n)),
     mput (\<lambda>n. n\<lparr>election_timer := None\<rparr>),
     mget (\<lambda>n. cancel_opt (heartbeat_timer n)),
     mput (\<lambda>n. n\<lparr>heartbeat_timer := None\<rparr>),
     for_peers (\<lambda>p. mput (\<lambda>n. n\<lparr>
       next_index := AList.update p (LastIndex n + 1) (next_index n),
       match_index := AList.update p 0 (match_index n),
       rpc_inflight := (rpc_inflight n)(p := False)\<rparr>)),
     SendHeartbeats E]"

definition quorum :: "'db node \<Rightarrow> nat" where
  "quorum n = length (peers n) div 2 + 1"

definition BecomeCandidate :: "'db env \<Rightarrow> ('db, unit) N" where
  "BecomeCandidate E = mdo [
     mput (\<lambda>n. n\<lparr>role := Candidate, leader := False, current_term := current_term n + 1,
       voted_for := u64_of_i32 (server_id n), votes_received := 1,
       granted_votes := {server_id n}\<rparr>),
     Node_PersistState E,
     ResetElectionTimer,
     SendRequestVotes E,
     mget (\<lambda>n. mwhen (quorum n \<le> votes_received n) (BecomeLeader E))]"

definition StepDown :: "'db env \<Rightarrow> u64 \<Rightarrow> ('db, unit) N" where
  "StepDown E term = mget (\<lambda>n. mdo [
     mwhen (current_term n < term)
       (mseq (mput (\<lambda>n. n\<lparr>current_term := term, voted_for := - 1\<rparr>)) (Node_PersistState E)),
     mget (\<lambda>n. mwhen (role n = Leader)
       (mseq (cancel_opt (heartbeat_timer n)) (mput (\<lambda>n. n\<lparr>heartbeat_timer := None\<rparr>)))),
     mput (\<lambda>n. n\<lparr>role := Follower, leader := False\<rparr>),
     FailPendingReadIndexes,
     ResetElectionTimer])"

definition on_election_timeout :: "'db env \<Rightarrow> ('db, unit) N" where
  "on_election_timeout E = mget (\<lambda>n.
     mwhen (role n \<noteq> Leader \<and> \<not> stopping n) (BecomeCandidate E))"

section \<open>Commitment\<close>

definition replicated :: "'db node \<Rightarrow> u64 \<Rightarrow> nat" where
  "replicated n index = 1 + length (filter (\<lambda>(peer, m). index \<le> m) (match_index n))"

function commit_candidate :: "'db node \<Rightarrow> u64 \<Rightarrow> u64 option" where
  "commit_candidate n index =
     (if commit_index n < index
      then if TermAt n index = current_term n \<and> length (peers n) div 2 < replicated n index
           then Some index
           else commit_candidate n (index - 1)
      else None)"
  by pat_completeness auto
termination
  by (relation "measure (\<lambda>(n, index). unat index)")
     (auto intro: unat_pred_less)

declare commit_candidate.simps [simp del]

definition TryAdvanceCommit :: "'db env \<Rightarrow> ('db, unit) N" where
  "TryAdvanceCommit E = mget (\<lambda>n.
     if role n \<noteq> Leader then ret ()
     else case commit_candidate n (LastIndex n) of
       None \<Rightarrow> ret ()
     | Some index \<Rightarrow> mseq (mput (\<lambda>n. n\<lparr>commit_index := index\<rparr>)) (ApplyCommitted E))"

section \<open>Frame rules\<close>

lemma preserves_SendRpc_frame:
  assumes id: "\<And>n k. P n \<Longrightarrow> P (n\<lparr>next_rpc_id := k\<rparr>)"
    and send: "\<And>n c f. c' = Some c \<Longrightarrow> P n \<Longrightarrow> frame_of E T payload f \<Longrightarrow>
      P (n\<lparr>trace := trace n @ [Send c f]\<rparr>)"
  shows "preserves P (SendRpc E c' T payload rid)"
proof (rule preservesI)
  fix n :: "'a node"
  assume n: "P n"
  have alloc: "P (snd ((if rid = 0 then allocate_rpc_id else ret rid) n))"
    using n id by (simp add: allocate_rpc_id_def mseq_app)
  have sent: "P (m\<lparr>trace := trace m @ [Send c f]\<rparr>)"
    if "c' = Some c" and "P m" and "serialize (rpc_pb (env_pb E)) \<lparr>msg_type = T,
      msg_request_id = k, msg_sender_id = u64_of_i32 (server_id n), msg_payload = payload\<rparr> = Some s"
      and "Frame s = Inr f" for c m k s f
    using that by (intro send) (auto simp: frame_of_def)
  show "P (snd (SendRpc E c' T payload rid n))"
    using n alloc
    by (auto simp: SendRpc_def mbind_app mseq_app emit_def intro: sent
        split: option.splits prod.splits sum.splits)
qed

lemma preserves_SendRpc [frame]:
  assumes "quiet B P" and makes: "makes E B T"
  shows "preserves P (SendRpc E c T payload rid)"
  using makes
  by (intro preserves_SendRpc_frame quietD [OF assms(1)] quiet_trace [OF assms(1)])
     (auto simp: makes_def)

lemma preserves_SendRpcToPeer [frame]:
  assumes "quiet B P" and "makes E B T"
  shows "preserves P (SendRpcToPeer E peer T payload rid)"
  unfolding SendRpcToPeer_def by (intro pres frame [OF assms(1)] assms)

lemma preserves_reply [frame]:
  assumes "quiet B P" and "makes E B T"
  shows "preserves P (reply E c T payload rid)"
  unfolding reply_def by (intro pres frame [OF assms(1)] assms)

lemma preserves_case_prod [pres]:
  "(\<And>a b. x = (a, b) \<Longrightarrow> preserves P (f a b)) \<Longrightarrow> preserves P (case x of (a, b) \<Rightarrow> f a b)"
  by (cases x) simp

lemma preserves_CreatePeerClient [frame]:
  assumes "quiet B P"
  shows "preserves P (CreatePeerClient peer)"
  unfolding CreatePeerClient_def
  by (intro pres preserves_mput quietD [OF assms] quiet_trace [OF assms])

lemma preserves_cancel_opt [frame]:
  assumes "quiet B P"
  shows "preserves P (cancel_opt t)"
  unfolding cancel_opt_def by (intro pres quiet_trace [OF assms])

lemma preserves_ResetElectionTimer [frame]:
  assumes "quiet B P"
  shows "preserves P ResetElectionTimer"
  unfolding ResetElectionTimer_def
  by (intro pres frame [OF assms] preserves_mput assms quietD [OF assms] quiet_trace [OF assms])

lemma preserves_set_value [frame]:
  assumes "quiet B P"
  shows "preserves P (set_value p b)"
  unfolding set_value_def by (intro pres quiet_trace [OF assms])

lemma preserves_cancel_read_index_timer [frame]:
  assumes "quiet B P"
  shows "preserves P cancel_read_index_timer"
  unfolding cancel_read_index_timer_def
  by (intro pres frame [OF assms] preserves_mput assms quietD [OF assms])

lemma preserves_FailPendingReadIndexes [frame]:
  assumes "quiet B P" and "\<And>n x. P n \<Longrightarrow> P (n\<lparr>active_read_index := x\<rparr>)"
    and "\<And>n x. P n \<Longrightarrow> P (n\<lparr>pending_read_indexes := x\<rparr>)"
  shows "preserves P FailPendingReadIndexes"
  unfolding FailPendingReadIndexes_def
  by (intro pres frame [OF assms(1)] preserves_mput assms quietD [OF assms(1)])

lemma preserves_note_rpc [frame]:
  assumes "quiet B P"
  shows "preserves P (note_rpc peer rid)"
  unfolding note_rpc_def by (intro preserves_mput quietD [OF assms])

lemma preserves_SendSnapshot [frame]:
  assumes "quiet B P" and "makes E B INSTALL_SNAPSHOT"
  shows "preserves P (SendSnapshot E peer)"
  unfolding SendSnapshot_def Let_def
  by (intro pres frame [OF assms(1)] preserves_mput assms quietD [OF assms(1)] quiet_trace [OF assms(1)])

lemma preserves_SendAppend [frame]:
  assumes "quiet B P" and "makes E B INSTALL_SNAPSHOT" and "makes E B APPEND_ENTRIES"
  shows "preserves P (SendAppend E peer)"
  unfolding SendAppend_def send_entries_def Let_def
  by (intro pres frame [OF assms(1)] preserves_mput assms quietD [OF assms(1)] quiet_trace [OF assms(1)])

lemma preserves_reconnect_peer [frame]:
  assumes "quiet B P"
  shows "preserves P (reconnect_peer peer c)"
  unfolding reconnect_peer_def
  by (intro pres frame [OF assms] preserves_mput assms quietD [OF assms] quiet_trace [OF assms])

lemma preserves_on_append_timeout [frame]:
  assumes "quiet B P"
  shows "preserves P (on_append_timeout peer g r c)"
  unfolding on_append_timeout_def by (intro pres frame [OF assms] assms)

lemma preserves_on_snapshot_timeout [frame]:
  assumes "quiet B P"
  shows "preserves P (on_snapshot_timeout peer g r c)"
  unfolding on_snapshot_timeout_def by (intro pres frame [OF assms] assms)

lemma preserves_for_peers [pres]:
  "(\<And>p. preserves P (f p)) \<Longrightarrow> preserves P (for_peers f)"
  unfolding for_peers_def by (intro pres)

lemma preserves_SendHeartbeats [frame]:
  assumes "quiet B P" and "\<And>peer. preserves P (SendAppend E peer)"
  shows "preserves P (SendHeartbeats E)"
  unfolding SendHeartbeats_def
  by (intro assms(2) pres frame [OF assms(1)] preserves_mput assms(1) quietD [OF assms(1)] quiet_trace [OF assms(1)])

lemma preserves_SendRequestVoteToPeer [frame]:
  assumes "quiet B P" and "makes E B REQUEST_VOTE"
  shows "preserves P (SendRequestVoteToPeer E peer)"
  unfolding SendRequestVoteToPeer_def
  by (intro pres frame [OF assms(1)] preserves_mput assms quietD [OF assms(1)])

lemma preserves_SendRequestVotes [frame]:
  assumes "quiet B P" and "makes E B REQUEST_VOTE"
  shows "preserves P (SendRequestVotes E)"
  unfolding SendRequestVotes_def by (intro pres frame [OF assms(1)] assms)

end
