(* ===== verification/Raft_Read_Index.thy ===== *)
theory Raft_Read_Index
  imports Raft_Rpc
begin

text \<open>
  The ReadIndex protocol of a leader (\<open>src/raft_node.cpp\<close>): a queue of linearizable reads, of
  which one at a time is active. The three member functions call each other; each round takes
  one request off the queue, so the recursion ends. A request object is identified by its promise.
\<close>

definition activate_read_index :: "PendingReadIndex \<Rightarrow> 'db node \<Rightarrow> 'db node" where
  "activate_read_index r n = n\<lparr>
     pending_read_indexes := tl (pending_read_indexes n),
     active_read_index := Some (r\<lparr>pri_term := current_term n, pri_read_index := commit_index n,
       pri_acknowledgements := {server_id n}\<rparr>)\<rparr>"

text \<open>The part of \<open>FinishReadIndex\<close> before the promise is completed: the value it is given.\<close>

definition read_index_outcome :: "'db env \<Rightarrow> bool \<Rightarrow> PendingReadIndex \<Rightarrow> ('db, bool) N" where
  "read_index_outcome E success active =
     mseq cancel_read_index_timer
    (mseq (mput (\<lambda>n. n\<lparr>active_read_index := None\<rparr>))
    (mget (\<lambda>n.
       if success \<and> role n = Leader \<and> current_term n = pri_term active
       then mseq (ApplyCommitted E) (mget (\<lambda>n. ret (pri_read_index active \<le> last_applied n)))
       else ret success)))"

definition send_probes :: "'db env \<Rightarrow> string \<Rightarrow> u64 \<Rightarrow> ('db, unit) N" where
  "send_probes E payload request_id =
     for_peers (\<lambda>p. mseq (SendRpcToPeer E p READ_INDEX payload request_id) (ret ()))"

definition arm_read_index_timer :: "('db, unit) N" where
  "arm_read_index_timer = mget (\<lambda>n.
     mbind (run_after kRpcTimeout (ReadIndexTimeout (map_option pri_result (active_read_index n))))
       (\<lambda>t. mput (\<lambda>n. n\<lparr>read_index_timer := Some t\<rparr>)))"

lemma pending_outcome:
  assumes "read_index_outcome E success active n = (r, n')"
  shows "pending_read_indexes n' = pending_read_indexes n"
proof -
  have q: "quiet (\<lambda>_. True) (\<lambda>n. pending_read_indexes n = v)"
    and s: "store_quiet (\<lambda>n. pending_read_indexes n = v)" for v :: "PendingReadIndex list"
    by (auto simp: quiet_def store_quiet_def)
  have "preserves (\<lambda>m. pending_read_indexes m = pending_read_indexes n)
      (read_index_outcome E success active)"
    unfolding read_index_outcome_def by (intro pres frame [OF q] store_frame preserves_mput s) simp
  from preservesD [OF this assms refl] show ?thesis .
qed

lemma pending_set_value:
  "set_value p b n = (r, n') \<Longrightarrow> pending_read_indexes n' = pending_read_indexes n"
  by (auto simp: set_value_def emit_def)

function (sequential)
    StartNextReadIndex :: "'db env \<Rightarrow> ('db, unit) N"
  and SendReadIndexProbes :: "'db env \<Rightarrow> ('db, unit) N"
  and FinishReadIndex :: "'db env \<Rightarrow> bool \<Rightarrow> ('db, unit) N" where
  "StartNextReadIndex E n = (case pending_read_indexes n of
       [] \<Rightarrow> ret () n
     | r # _ \<Rightarrow>
         if active_read_index n \<noteq> None then ret () n
         else if role n \<noteq> Leader \<or> stopping n then FailPendingReadIndexes n
         else if quorum n \<le> card {server_id n}
         then FinishReadIndex E True (activate_read_index r n)
         else mseq (\<lambda>m. SendReadIndexProbes E m) arm_read_index_timer (activate_read_index r n))"
| "SendReadIndexProbes E n = (case active_read_index n of
       None \<Rightarrow> ret () n
     | Some a \<Rightarrow>
         if role n \<noteq> Leader \<or> pri_term a \<noteq> current_term n then ret () n
         else case serialize (read_index_pb (env_pb E))
             \<lparr>ri_term = current_term n, ri_leader_id = u64_of_i32 (server_id n)\<rparr> of
           None \<Rightarrow> FinishReadIndex E False n
         | Some payload \<Rightarrow> send_probes E payload (pri_request_id a) n)"
| "FinishReadIndex E success n = (case active_read_index n of
       None \<Rightarrow> ret () n
     | Some active \<Rightarrow>
         mbind (read_index_outcome E success active)
           (\<lambda>value. mseq (set_value (pri_result active) value) (\<lambda>m. StartNextReadIndex E m)) n)"
  by pat_completeness auto
termination
  by (relation "measure (\<lambda>x. case x of
        Inl (E, n) \<Rightarrow> 3 * length (pending_read_indexes n)
      | Inr (Inl (E, n)) \<Rightarrow> 3 * length (pending_read_indexes n) + 2
      | Inr (Inr (E, b, n)) \<Rightarrow> 3 * length (pending_read_indexes n) + 1)")
     (auto simp: activate_read_index_def dest!: pending_outcome pending_set_value)

declare StartNextReadIndex.simps [simp del] SendReadIndexProbes.simps [simp del]
  FinishReadIndex.simps [simp del]

definition on_read_index_timeout :: "'db env \<Rightarrow> promise option \<Rightarrow> ('db, unit) N" where
  "on_read_index_timeout E active = mget (\<lambda>n.
     if map_option pri_result (active_read_index n) = active then FinishReadIndex E False
     else ret ())"

section \<open>Frame rules\<close>

lemma preserves_read_index_outcome [frame]:
  assumes "quiet B P" and "preserves P (ApplyCommitted E)" and "\<And>n x. P n \<Longrightarrow> P (n\<lparr>active_read_index := x\<rparr>)"
  shows "preserves P (read_index_outcome E success active)"
  unfolding read_index_outcome_def by (intro pres frame [OF assms(1)] preserves_mput assms)

lemma preserves_send_probes [frame]:
  assumes "quiet B P" and "makes E B READ_INDEX"
  shows "preserves P (send_probes E payload rid)"
  unfolding send_probes_def by (intro pres frame [OF assms(1)] assms)

lemma preserves_arm_read_index_timer [frame]:
  assumes "quiet B P"
  shows "preserves P arm_read_index_timer"
  unfolding arm_read_index_timer_def 
  by (intro pres preserves_mput quietD [OF assms] quiet_trace [OF assms])

definition read_quiet :: "'db env \<Rightarrow> (io \<Rightarrow> bool) \<Rightarrow> ('db node \<Rightarrow> bool) \<Rightarrow> bool" where
  "read_quiet E B P \<longleftrightarrow> quiet B P \<and> makes E B READ_INDEX \<and>
     preserves P (ApplyCommitted E) \<and>
     (\<forall>n x. P n \<longrightarrow> P (n\<lparr>active_read_index := x\<rparr>)) \<and>
     (\<forall>n x. P n \<longrightarrow> P (n\<lparr>pending_read_indexes := x\<rparr>))"

lemma read_quiet_run:
  assumes "read_quiet E B P"
  shows "P n \<Longrightarrow> P (snd (StartNextReadIndex E n))"
    and "P n \<Longrightarrow> P (snd (SendReadIndexProbes E n))"
    and "P n \<Longrightarrow> P (snd (FinishReadIndex E success n))"
  using assms
proof (induction E n and E n and E success n
    rule: StartNextReadIndex_SendReadIndexProbes_FinishReadIndex.induct)
  case (1 E n)
  have q: "quiet B P" and a: "\<And>n x. P n \<Longrightarrow> P (n\<lparr>active_read_index := x\<rparr>)"
    and p: "\<And>n x. P n \<Longrightarrow> P (n\<lparr>pending_read_indexes := x\<rparr>)"
    using 1(4) by (simp_all add: read_quiet_def)
  have fail: "preserves P FailPendingReadIndexes"
    by (intro frame [OF q] a p)
  have arm: "preserves P arm_read_index_timer"
    by (rule preserves_arm_read_index_timer [OF q])
  have act: "P (activate_read_index r n)" for r
    unfolding activate_read_index_def by (intro a p 1)
  show ?case
    using preserves_run [OF fail 1(3)] preserves_run [OF arm] 1(1,2,4) act
    by (subst StartNextReadIndex.simps)
       (auto simp: 1(3) mseq_app prod_eq_iff split: list.splits sum.splits prod.splits)
next
  case (2 E n)
  have q: "quiet B P" and m: "makes E B READ_INDEX" using 2(3) by (simp_all add: read_quiet_def)
  show ?case
    using preserves_run [OF preserves_send_probes [OF q m] 2(2)] 2
    by (subst SendReadIndexProbes.simps)
       (auto split: option.splits prod.splits simp: prod_eq_iff)
next
  case (3 E success n)
  have q: "quiet B P" and st: "preserves P (ApplyCommitted E)"
    and a: "\<And>n x. P n \<Longrightarrow> P (n\<lparr>active_read_index := x\<rparr>)"
    using 3(3) by (simp_all add: read_quiet_def)
  show ?case
    using preservesD [OF preserves_read_index_outcome [OF q st a] _ 3(2)]
      preservesD [OF preserves_set_value [OF q]] 3
    by (subst FinishReadIndex.simps)
       (auto simp: mseq_app mbind_app split: option.splits sum.splits prod.splits)
qed

lemma preserves_read_index:
  assumes "read_quiet E B P"
  shows "preserves P (StartNextReadIndex E)" and "preserves P (SendReadIndexProbes E)"
    and "preserves P (FinishReadIndex E success)" and "preserves P (on_read_index_timeout E active)"
  unfolding on_read_index_timeout_def
  by (auto intro!: preservesI read_quiet_run [OF assms])

end
