(* ===== verification/Raft_Handlers.thy ===== *)
theory Raft_Handlers
  imports Raft_Read_Index
begin

text \<open>
  The receiving half of \<open>src/raft_node.cpp\<close>: one definition per message handler, the dispatch
  of a message, the framing loop, the connection callbacks, the tasks that \<open>Submit\<close> and
  \<open>ReadIndex\<close> queue on the loop thread, start and stop, and the events of the loop.
\<close>

section \<open>RequestVote\<close>

definition grants_vote :: "'db node \<Rightarrow> RequestVoteRequest \<Rightarrow> bool" where
  "grants_vote n q \<longleftrightarrow>
     rv_term q = current_term n \<and>
     (voted_for n = - 1 \<or> voted_for n = rv_candidate_id q) \<and>
     IsCandidateLogUpToDate n (rv_last_log_index q) (rv_last_log_term q)"

definition HandleRequestVote :: "'db env \<Rightarrow> conn \<Rightarrow> string \<Rightarrow> u64 \<Rightarrow> ('db, unit) N" where
  "HandleRequestVote E c payload request_id = (case parse (request_vote_pb (env_pb E)) payload of
       None \<Rightarrow> emit (Shutdown c)
     | Some q \<Rightarrow>
         mseq (mget (\<lambda>n. mwhen (current_term n < rv_term q) (StepDown E (rv_term q))))
        (mget (\<lambda>n.
           let grant = grants_vote n q in
           mseq (mwhen grant (mdo [
             mput (\<lambda>n. n\<lparr>voted_for := rv_candidate_id q\<rparr>),
             Node_PersistState E,
             ResetElectionTimer]))
           (mget (\<lambda>n.
             reply E c REQUEST_VOTE_RESPONSE
               (serialize (request_vote_response_pb (env_pb E))
                 \<lparr>rvr_term = current_term n, rvr_vote_granted = grant,
                  rvr_responder_id = u64_of_i32 (server_id n)\<rparr>)
               request_id)))))"

definition HandleRequestVoteResponse :: "'db env \<Rightarrow> conn \<Rightarrow> string \<Rightarrow> u64 \<Rightarrow> ('db, unit) N" where
  "HandleRequestVoteResponse E c payload request_id =
     (case parse (request_vote_response_pb (env_pb E)) payload of
       None \<Rightarrow> ret ()
     | Some p \<Rightarrow> mget (\<lambda>n.
         let responder = i32_of_u64 (rvr_responder_id p) in
         if current_term n < rvr_term p then StepDown E (rvr_term p)
         else if role n \<noteq> Candidate \<or> rvr_term p \<noteq> current_term n \<or> request_id = 0 \<or>
           request_id \<noteq> vote_request_id n responder \<or>
           ConnectionForPeer n responder \<noteq> Some c \<or> \<not> rvr_vote_granted p \<or>
           responder \<in> granted_votes n
         then ret ()
         else mdo [
           mput (\<lambda>n. n\<lparr>granted_votes := insert responder (granted_votes n)\<rparr>),
           mput (\<lambda>n. n\<lparr>votes_received := card (granted_votes n)\<rparr>),
           mget (\<lambda>n. mwhen (quorum n \<le> votes_received n) (BecomeLeader E))]))"

section \<open>Requests of a leader\<close>

text \<open>
  The opening shared by the handlers of AppendEntries, InstallSnapshot and ReadIndex, once the
  request is known not to be of an older term.
\<close>

definition as_follower :: "'db env \<Rightarrow> u64 \<Rightarrow> ('db, 'a) N \<Rightarrow> ('db, 'a) N" where
  "as_follower E term k = mget (\<lambda>n.
     mseq (mwhen (current_term n < term \<or> role n \<noteq> Follower) (StepDown E term))
       (mseq ResetElectionTimer k))"

section \<open>AppendEntries\<close>

text \<open>
  The loop over the incoming entries: the result says whether it ran to its end, with the last
  index it reached.
\<close>

definition push_entry :: "u64 \<Rightarrow> proto_RaftLogEntry \<Rightarrow> 'db node \<Rightarrow> 'db node" where
  "push_entry index incoming n =
     (if LastIndex n < index
      then n\<lparr>log := log n @ [\<lparr>entry_term = le_term incoming, entry_command = le_command incoming\<rparr>]\<rparr>
      else n)"

fun append_loop :: "proto_RaftLogEntry list \<Rightarrow> u64 \<Rightarrow> ('db, bool \<times> u64) N" where
  "append_loop [] index n = (Inr (True, index), n)"
| "append_loop (incoming # rest) previous n =
     (let index = previous + 1 in
      if le_index incoming \<noteq> index then (Inr (False, index), n)
      else if index \<le> LastIndex n \<and> TermAt n index \<noteq> le_term incoming
      then if index \<le> commit_index n then (Inr (False, index), n)
           else case LogOffset n index of
               Inl e \<Rightarrow> (Inl e, n)
             | Inr offset \<Rightarrow>
                 append_loop rest index (push_entry index incoming (n\<lparr>log := take offset (log n)\<rparr>))
      else append_loop rest index (push_entry index incoming n))"

definition prev_matches :: "'db node \<Rightarrow> AppendEntriesRequest \<Rightarrow> bool" where
  "prev_matches n q \<longleftrightarrow>
     snapshot_index n \<le> ae_prev_log_index q \<and> ae_prev_log_index q \<le> LastIndex n \<and>
     TermAt n (ae_prev_log_index q) = ae_prev_log_term q"

definition append_entries :: "'db env \<Rightarrow> AppendEntriesRequest \<Rightarrow> ('db, bool \<times> u64) N" where
  "append_entries E q = mget (\<lambda>n.
     if \<not> prev_matches n q then ret (False, ae_prev_log_index q)
     else mbind (append_loop (ae_entries q) (ae_prev_log_index q)) (\<lambda>(success, index).
       mseq (mwhen success (mdo [
         Node_PersistLog E,
         mput (\<lambda>n. n\<lparr>commit_index := min (ae_leader_commit q) (LastIndex n)\<rparr>),
         ApplyCommitted E]))
       (ret (success, index))))"

definition append_outcome :: "'db env \<Rightarrow> AppendEntriesRequest \<Rightarrow> ('db, bool \<times> u64) N" where
  "append_outcome E q = mget (\<lambda>n.
     if ae_term q < current_term n then ret (False, 0)
     else as_follower E (ae_term q) (append_entries E q))"

definition HandleAppendEntries :: "'db env \<Rightarrow> conn \<Rightarrow> string \<Rightarrow> u64 \<Rightarrow> ('db, unit) N" where
  "HandleAppendEntries E c payload request_id = (case parse (append_entries_pb (env_pb E)) payload of
       None \<Rightarrow> emit (Shutdown c)
     | Some q \<Rightarrow>
         mbind (append_outcome E q) (\<lambda>(success, index). mget (\<lambda>n.
           reply E c APPEND_ENTRIES_RESPONSE
             (serialize (append_entries_response_pb (env_pb E))
               \<lparr>aer_term = current_term n, aer_success = success,
                aer_match_index = (if success then index else LastIndex n),
                aer_responder_id = u64_of_i32 (server_id n)\<rparr>)
             request_id)))"

definition HandleAppendEntriesResponse :: "'db env \<Rightarrow> conn \<Rightarrow> string \<Rightarrow> u64 \<Rightarrow> ('db, unit) N" where
  "HandleAppendEntriesResponse E c payload request_id =
     (case parse (append_entries_response_pb (env_pb E)) payload of
       None \<Rightarrow> ret ()
     | Some p \<Rightarrow> mget (\<lambda>n.
         let peer = i32_of_u64 (aer_responder_id p) in
         if current_term n < aer_term p then StepDown E (aer_term p)
         else if role n \<noteq> Leader \<or> aer_term p \<noteq> current_term n then ret ()
         else if request_id = 0 \<or> request_id \<noteq> rpc_request_id n peer \<or>
           ConnectionForPeer n peer \<noteq> Some c
         then ret ()
         else
           let had_entries = rpc_has_entries n peer in
           mdo [
             ResetPeerRpcState peer (Some c),
             (if aer_success p
              then mdo [
                mput (\<lambda>n. n\<lparr>match_index :=
                  AList.update peer (min (aer_match_index p) (LastIndex n)) (match_index n)\<rparr>),
                mput (\<lambda>n. n\<lparr>next_index :=
                  AList.update peer (val_or 0 (match_index n) peer + 1) (next_index n)\<rparr>),
                TryAdvanceCommit E]
              else mseq (mput (\<lambda>n. n\<lparr>next_index := touch 0 peer (next_index n)\<rparr>))
                (mget (\<lambda>n. mwhen (snapshot_index n + 1 < val_or 0 (next_index n) peer)
                  (mput (\<lambda>n. n\<lparr>next_index :=
                    AList.update peer (val_or 0 (next_index n) peer - 1) (next_index n)\<rparr>))))),
             mget (\<lambda>n. mwhen (\<not> aer_success p \<or>
                 (had_entries \<and> val_or 0 (next_index n) peer \<le> LastIndex n))
               (SendAppend E peer))]))"

section \<open>InstallSnapshot\<close>

definition valid_chunk :: "InstallSnapshotRequest \<Rightarrow> bool" where
  "valid_chunk q \<longleftrightarrow>
     is_last_included_index q \<noteq> 0 \<and> is_last_included_term q \<noteq> 0 \<and>
     length (is_data q) \<le> kSnapshotChunkSize \<and>
     is_offset q \<le> - 1 - of_nat (length (is_data q))"

definition incoming_size :: "'db node \<Rightarrow> u64" where
  "incoming_size n = of_nat (length (incoming_snapshot_data n))"

definition clear_incoming :: "('db, unit) N" where
  "clear_incoming =
     mput (\<lambda>n. n\<lparr>incoming_snapshot_data := [], incoming_snapshot_active := False\<rparr>)"

text \<open>The log entries kept after a snapshot: those behind it, when the log agrees with it.\<close>

definition snapshot_suffix :: "'db node \<Rightarrow> error + RaftLogEntry list" where
  "snapshot_suffix n =
     (if incoming_snapshot_index n \<le> LastIndex n \<and>
         TermAt n (incoming_snapshot_index n) = incoming_snapshot_term n
      then if incoming_snapshot_index n = LastIndex n then Inr []
           else rbind (LogOffset n (incoming_snapshot_index n + 1)) (\<lambda>b. Inr (drop b (log n)))
      else Inr [])"

definition install_complete :: "'db env \<Rightarrow> ('db, unit) N" where
  "install_complete E = mget (\<lambda>n.
     mbind (lift_result (ParseSnapshotState (env_pb E) (incoming_snapshot_data n))) (\<lambda>snapshot.
     mbind (lift_result (snapshot_suffix n)) (\<lambda>suffix.
     let new_commit_index = max (commit_index n) (incoming_snapshot_index n) in mdo [
       on_db (ApplySnapshot (env_pb E) (env_rocks E) snapshot (current_term n) (voted_for n)
         new_commit_index (incoming_snapshot_index n) (incoming_snapshot_index n)
         (incoming_snapshot_term n) suffix),
       mput (\<lambda>n. n\<lparr>
         snapshot_index := incoming_snapshot_index n,
         snapshot_term := incoming_snapshot_term n,
         snapshot_data := incoming_snapshot_data n,
         log := suffix,
         commit_index := new_commit_index,
         last_applied := incoming_snapshot_index n\<rparr>),
       ApplyCommitted E])))"

text \<open>The last chunk: the snapshot is installed, and an exception gives it up.\<close>

definition finish_install :: "'db env \<Rightarrow> ('db, bool \<times> u64) N" where
  "finish_install E = mtry
     (mseq (install_complete E)
       (mget (\<lambda>n. let next_offset = incoming_size n in
          mseq clear_incoming (ret (True, next_offset)))))
     (\<lambda>_. mseq clear_incoming (ret (False, 0)))"

text \<open>
  A chunk of a newer snapshot: a chunk at offset 0 starts over, any other one must continue the
  snapshot that is being received. The result is whether it was taken, and the offset expected next.
\<close>

definition begin_chunk :: "InstallSnapshotRequest \<Rightarrow> ('db, bool) N" where
  "begin_chunk q = mget (\<lambda>n.
     if \<not> incoming_snapshot_active n \<or>
        incoming_snapshot_index n \<noteq> is_last_included_index q \<or>
        incoming_snapshot_term n \<noteq> is_last_included_term q \<or> is_offset q = 0
     then if is_offset q \<noteq> 0 then ret False
          else mseq (mput (\<lambda>n. n\<lparr>
              incoming_snapshot_index := is_last_included_index q,
              incoming_snapshot_term := is_last_included_term q,
              incoming_snapshot_data := [],
              incoming_snapshot_active := True\<rparr>)) (ret True)
     else ret True)"

definition accept_chunk :: "'db env \<Rightarrow> InstallSnapshotRequest \<Rightarrow> ('db, bool \<times> u64) N" where
  "accept_chunk E q = mbind (begin_chunk q) (\<lambda>success. mget (\<lambda>n.
     if \<not> success \<or> is_offset q \<noteq> incoming_size n then ret (False, 0)
     else mseq (mput (\<lambda>n. n\<lparr>incoming_snapshot_data := incoming_snapshot_data n @ is_data q\<rparr>))
       (mget (\<lambda>n. if \<not> is_done q then ret (True, incoming_size n) else finish_install E))))"

definition install_current :: "'db env \<Rightarrow> InstallSnapshotRequest \<Rightarrow> ('db, bool \<times> u64) N" where
  "install_current E q = mget (\<lambda>n.
     if \<not> valid_chunk q then ret (False, 0)
     else if is_last_included_index q = snapshot_index n \<and>
             is_last_included_term q = snapshot_term n
     then ret (True, of_nat (length (snapshot_data n)))
     else if snapshot_index n < is_last_included_index q \<and> is_last_included_term q \<noteq> 0
     then accept_chunk E q
     else ret (False, 0))"

definition install_snapshot :: "'db env \<Rightarrow> InstallSnapshotRequest \<Rightarrow> ('db, bool \<times> u64) N" where
  "install_snapshot E q = mget (\<lambda>n.
     if is_term q < current_term n
     then ret (False, if incoming_snapshot_active n then incoming_size n else 0)
     else as_follower E (is_term q) (install_current E q))"

definition HandleInstallSnapshot :: "'db env \<Rightarrow> conn \<Rightarrow> string \<Rightarrow> u64 \<Rightarrow> ('db, unit) N" where
  "HandleInstallSnapshot E c payload request_id =
     (case parse (install_snapshot_pb (env_pb E)) payload of
       None \<Rightarrow> emit (Shutdown c)
     | Some q \<Rightarrow> mbind (install_snapshot E q) (\<lambda>(success, next_offset). mget (\<lambda>n.
         reply E c INSTALL_SNAPSHOT_RESPONSE
           (serialize (install_snapshot_response_pb (env_pb E))
             \<lparr>isr_term = current_term n, isr_success = success,
              isr_responder_id = u64_of_i32 (server_id n), isr_next_offset = next_offset\<rparr>)
           request_id)))"

definition set_snapshot_offset :: "i32 \<Rightarrow> u64 \<Rightarrow> ('db, unit) N" where
  "set_snapshot_offset peer offset =
     mput (\<lambda>n. n\<lparr>rpc_snapshot_offset := (rpc_snapshot_offset n)(peer := offset)\<rparr>)"

definition HandleInstallSnapshotResponse :: "'db env \<Rightarrow> conn \<Rightarrow> string \<Rightarrow> u64 \<Rightarrow> ('db, unit) N" where
  "HandleInstallSnapshotResponse E c payload request_id =
     (case parse (install_snapshot_response_pb (env_pb E)) payload of
       None \<Rightarrow> ret ()
     | Some p \<Rightarrow> mget (\<lambda>n.
         let peer = i32_of_u64 (isr_responder_id p);
             size = of_nat (length (snapshot_data n)) in
         if current_term n < isr_term p then StepDown E (isr_term p)
         else if role n \<noteq> Leader \<or> isr_term p \<noteq> current_term n then ret ()
         else if request_id = 0 \<or> map_of (next_index n) peer = None \<or>
           request_id \<noteq> rpc_request_id n peer \<or> \<not> rpc_snapshot n peer \<or>
           ConnectionForPeer n peer \<noteq> Some c
         then ret ()
         else if size < isr_next_offset p
         then mdo [ResetPeerRpcState peer (Some c), set_snapshot_offset peer 0, SendSnapshot E peer]
         else mseq (ResetPeerRpcState peer (Some c))
          (if \<not> isr_success p
           then mseq (set_snapshot_offset peer (isr_next_offset p)) (SendSnapshot E peer)
           else if isr_next_offset p < size
           then mseq (set_snapshot_offset peer (isr_next_offset p)) (SendSnapshot E peer)
           else mdo [
             set_snapshot_offset peer 0,
             mput (\<lambda>n. n\<lparr>
               match_index := AList.update peer (snapshot_index n) (match_index n),
               next_index := AList.update peer (snapshot_index n + 1) (next_index n)\<rparr>),
             SendAppend E peer])))"

section \<open>ReadIndex\<close>

definition read_index_reply :: "'db env \<Rightarrow> ReadIndexRequest \<Rightarrow> ('db, bool) N" where
  "read_index_reply E q = mget (\<lambda>n.
     if ri_term q < current_term n then ret False
     else as_follower E (ri_term q) (mget (\<lambda>n. ret (ri_term q = current_term n))))"

definition HandleReadIndexRequest :: "'db env \<Rightarrow> conn \<Rightarrow> string \<Rightarrow> u64 \<Rightarrow> ('db, unit) N" where
  "HandleReadIndexRequest E c payload request_id = (case parse (read_index_pb (env_pb E)) payload of
       None \<Rightarrow> emit (Shutdown c)
     | Some q \<Rightarrow>
         mbind (read_index_reply E q) (\<lambda>success. mget (\<lambda>n.
           reply E c READ_INDEX_RESPONSE
             (serialize (read_index_response_pb (env_pb E))
               \<lparr>rir_term = current_term n, rir_success = success,
                rir_responder_id = u64_of_i32 (server_id n)\<rparr>)
             request_id)))"

definition HandleReadIndexResponse :: "'db env \<Rightarrow> conn \<Rightarrow> string \<Rightarrow> u64 \<Rightarrow> ('db, unit) N" where
  "HandleReadIndexResponse E c payload request_id =
     (case parse (read_index_response_pb (env_pb E)) payload of
       None \<Rightarrow> ret ()
     | Some p \<Rightarrow> mget (\<lambda>n.
         let peer = i32_of_u64 (rir_responder_id p) in
         if current_term n < rir_term p then StepDown E (rir_term p)
         else case active_read_index n of
           None \<Rightarrow> ret ()
         | Some active \<Rightarrow>
             if role n \<noteq> Leader \<or> rir_term p \<noteq> current_term n \<or> request_id \<noteq> pri_request_id active
             then ret ()
             else if map_of (next_index n) peer = None \<or> ConnectionForPeer n peer \<noteq> Some c \<or>
               \<not> rir_success p
             then ret ()
             else
               let acks = insert peer (pri_acknowledgements active) in
               mseq (mput (\<lambda>n. n\<lparr>active_read_index := Some (active\<lparr>pri_acknowledgements := acks\<rparr>)\<rparr>))
                 (mwhen (quorum n \<le> card acks) (FinishReadIndex E True))))"

end
