(* ===== verification/Raft_Loop.thy ===== *)
theory Raft_Loop
  imports Raft_Handlers
begin

text \<open>
  What the loop thread of a \<open>RaftNode\<close> runs (\<open>src/raft_node.cpp\<close>): connection callbacks, the
  framing loop and the dispatch of a message, timers, the tasks queued by \<open>Submit\<close>, \<open>ReadIndex\<close>
  and \<open>Stop\<close>, and the life cycle around it. An event is one callback of the loop; the network
  library, which decides what happens when, is the order of the events.
\<close>

section \<open>Connections\<close>

definition HandleConnection :: "'db env \<Rightarrow> conn \<Rightarrow> ('db, unit) N" where
  "HandleConnection E c = mget (\<lambda>n.
     if connected E n c then ret ()
     else mseq
       (mfor (filter (\<lambda>(p, c'). c' = c) (inbound_connections n)) (\<lambda>(p, _).
          mseq (ResetPeerRpcState p (Some c))
            (mput (\<lambda>n. n\<lparr>inbound_connections := AList.delete p (inbound_connections n)\<rparr>))))
       (mfor (filter (\<lambda>(p, c'). c' = c) (outbound_connections n)) (\<lambda>(p, _).
          mseq (ResetPeerRpcState p (Some c))
            (mput (\<lambda>n. n\<lparr>outbound_connections := AList.delete p (outbound_connections n)\<rparr>)))))"

text \<open>
  The sender of a message is remembered with its connection; the result says whether the
  message is to be processed.
\<close>

definition register_sender :: "conn \<Rightarrow> RaftRpc \<Rightarrow> ('db, bool) N" where
  "register_sender c rpc = mget (\<lambda>n.
     let peer = i32_of_u64 (msg_sender_id rpc) in
     if msg_sender_id rpc = 0 \<or> msg_sender_id rpc = u64_of_i32 (server_id n) then ret True
     else if i32_less peer (server_id n)
     then mseq
       (case map_of (inbound_connections n) peer of
          None \<Rightarrow> ret ()
        | Some current \<Rightarrow> mwhen (current \<noteq> c)
            (mseq (ResetPeerRpcState peer (Some current)) (emit (Shutdown current))))
       (mseq (mput (\<lambda>n. n\<lparr>inbound_connections := AList.update peer c (inbound_connections n)\<rparr>))
          (ret True))
     else case map_of (outbound_connections n) peer of
         None \<Rightarrow>
           mseq (mput (\<lambda>n. n\<lparr>outbound_connections := AList.update peer c (outbound_connections n)\<rparr>))
             (ret True)
       | Some current \<Rightarrow> if current \<noteq> c then mseq (emit (Shutdown c)) (ret False) else ret True)"

definition dispatch :: "'db env \<Rightarrow> conn \<Rightarrow> RaftRpc \<Rightarrow> ('db, unit) N" where
  "dispatch E c rpc = (case msg_type rpc of
       IDENTIFY \<Rightarrow> mget (\<lambda>n. mwhen (role n = Leader) (SendAppend E (i32_of_u64 (msg_sender_id rpc))))
     | REQUEST_VOTE \<Rightarrow> HandleRequestVote E c (msg_payload rpc) (msg_request_id rpc)
     | REQUEST_VOTE_RESPONSE \<Rightarrow> HandleRequestVoteResponse E c (msg_payload rpc) (msg_request_id rpc)
     | APPEND_ENTRIES \<Rightarrow> HandleAppendEntries E c (msg_payload rpc) (msg_request_id rpc)
     | APPEND_ENTRIES_RESPONSE \<Rightarrow>
         HandleAppendEntriesResponse E c (msg_payload rpc) (msg_request_id rpc)
     | INSTALL_SNAPSHOT \<Rightarrow> HandleInstallSnapshot E c (msg_payload rpc) (msg_request_id rpc)
     | INSTALL_SNAPSHOT_RESPONSE \<Rightarrow>
         HandleInstallSnapshotResponse E c (msg_payload rpc) (msg_request_id rpc)
     | READ_INDEX \<Rightarrow> HandleReadIndexRequest E c (msg_payload rpc) (msg_request_id rpc)
     | READ_INDEX_RESPONSE \<Rightarrow> HandleReadIndexResponse E c (msg_payload rpc) (msg_request_id rpc)
     | TYPE_UNSPECIFIED \<Rightarrow> emit (Shutdown c)
     | TYPE_other _ \<Rightarrow> emit (Shutdown c))"

definition HandleRpc :: "'db env \<Rightarrow> conn \<Rightarrow> string \<Rightarrow> ('db, unit) N" where
  "HandleRpc E c frame =
     mtry (case parse (rpc_pb (env_pb E)) frame of
         None \<Rightarrow> emit (Shutdown c)
       | Some rpc \<Rightarrow> mbind (register_sender c rpc) (\<lambda>go_on. mwhen go_on (dispatch E c rpc)))
       (\<lambda>_. emit (Shutdown c))"

text \<open>The result is what stays in the buffer.\<close>

function HandleMessage :: "'db env \<Rightarrow> conn \<Rightarrow> string \<Rightarrow> ('db, string) N" where
  "HandleMessage E c buffer n = (case next_frame buffer of
       Need_more \<Rightarrow> (Inr buffer, n)
     | Too_large \<Rightarrow> mseq (emit (Shutdown c)) (ret buffer) n
     | Frame_ready payload rest \<Rightarrow> mseq (HandleRpc E c payload) (\<lambda>m. HandleMessage E c rest m) n)"
  by pat_completeness auto
termination
  by (relation "measure (\<lambda>(E, c, buffer, n). length buffer)") (auto dest: next_frame_shrinks)

declare HandleMessage.simps [simp del]

interpretation rpc_stream: receive_loop "HandleMessage E c" "HandleRpc E c" "emit (Shutdown c)" for E c
  by unfold_locales (rule HandleMessage.simps)

definition OnPeerConnection :: "'db env \<Rightarrow> i32 \<Rightarrow> conn \<Rightarrow> ('db, unit) N" where
  "OnPeerConnection E peer c = mget (\<lambda>n.
     if connected E n c
     then mdo [
       (case map_of (outbound_connections n) peer of
          None \<Rightarrow> ret ()
        | Some current \<Rightarrow> mwhen (current \<noteq> c)
            (mseq (ResetPeerRpcState peer (Some current)) (emit (Shutdown current)))),
       mput (\<lambda>n. n\<lparr>outbound_connections := AList.update peer c (outbound_connections n)\<rparr>),
       ResetPeerRpcState peer (Some c),
       mget (\<lambda>n. case role n of
           Leader \<Rightarrow> SendAppend E peer
         | Candidate \<Rightarrow> SendRequestVoteToPeer E peer
         | Follower \<Rightarrow> ret ()),
       mget (\<lambda>n. mwhen (active_read_index n \<noteq> None) (SendReadIndexProbes E)),
       mseq (SendRpc E (Some c) IDENTIFY [] 0) (ret ())]
     else mwhen (map_of (outbound_connections n) peer = Some c)
       (mseq (ResetPeerRpcState peer (Some c))
         (mput (\<lambda>n. n\<lparr>outbound_connections := AList.delete peer (outbound_connections n)\<rparr>))))"

section \<open>Tasks of the client threads\<close>

definition on_wait_for_commit :: "u64 \<Rightarrow> promise \<Rightarrow> ('db, unit) N" where
  "on_wait_for_commit target result = mget (\<lambda>n.
     if stopping n \<or> role n \<noteq> Leader then set_value result False
     else if target \<le> commit_index n then set_value result True
     else mseq (run_after kCommitPoll (WaitForCommit target result)) (ret ()))"

definition submit_entry :: "'db env \<Rightarrow> string \<Rightarrow> promise \<Rightarrow> ('db, unit) N" where
  "submit_entry E serialized result =
     mseq (mput (\<lambda>n. n\<lparr>log := log n @ [\<lparr>entry_term = current_term n, entry_command = serialized\<rparr>]\<rparr>))
    (mseq (Node_PersistLog E)
    (mget (\<lambda>n. let target = LastIndex n in mdo [
       TryAdvanceCommit E,
       for_peers (SendAppend E),
       on_wait_for_commit target result])))"

definition submit_task :: "'db env \<Rightarrow> string \<Rightarrow> u64 \<Rightarrow> u64 \<Rightarrow> promise \<Rightarrow> ('db, unit) N" where
  "submit_task E serialized client_id request_id result =
     mtry (mget (\<lambda>n.
       if role n \<noteq> Leader \<or> stopping n then set_value result False
       else mbind (if request_id \<noteq> 0
           then lift_result (GetAppliedCommand (env_rocks E) (db n) client_id request_id)
           else ret None) (\<lambda>applied.
         case applied of
           Some command \<Rightarrow> set_value result (command = serialized)
         | None \<Rightarrow> submit_entry E serialized result)))
     (\<lambda>_. set_value result False)"

definition read_index_task :: "'db env \<Rightarrow> promise \<Rightarrow> ('db, unit) N" where
  "read_index_task E result = mget (\<lambda>n.
     if role n \<noteq> Leader \<or> stopping n then set_value result False
     else mbind allocate_rpc_id (\<lambda>id.
       mseq (mput (\<lambda>n. n\<lparr>pending_read_indexes := pending_read_indexes n @
           [\<lparr>pri_request_id = id, pri_term = 0, pri_read_index = 0, pri_acknowledgements = {},
             pri_result = result\<rparr>]\<rparr>))
         (StartNextReadIndex E)))"

definition GetLocal :: "'db env \<Rightarrow> string \<Rightarrow> 'db node \<Rightarrow> error + string option" where
  "GetLocal E key n = Get (env_rocks E) (db n) key"

section \<open>Events of the loop\<close>

definition run_callback :: "'db env \<Rightarrow> callback \<Rightarrow> ('db, unit) N" where
  "run_callback E cb = (case cb of
       ElectionTimeout \<Rightarrow> on_election_timeout E
     | HeartbeatTick \<Rightarrow> SendHeartbeats E
     | ReadIndexTimeout active \<Rightarrow> on_read_index_timeout E active
     | AppendTimeout peer generation request_id c \<Rightarrow> on_append_timeout peer generation request_id c
     | SnapshotTimeout peer generation request_id c \<Rightarrow> on_snapshot_timeout peer generation request_id c
     | WaitForCommit target result \<Rightarrow> on_wait_for_commit target result)"

datatype event =
    Fire callback
  | Accepted conn
  | PeerLink i32 conn
  | Bytes conn string
  | SubmitTask string u64 u64 promise
  | ReadIndexTask promise

definition handle_event :: "'db env \<Rightarrow> event \<Rightarrow> ('db, unit) N" where
  "handle_event E ev = (case ev of
       Fire cb \<Rightarrow> run_callback E cb
     | Accepted c \<Rightarrow> HandleConnection E c
     | PeerLink peer c \<Rightarrow> OnPeerConnection E peer c
     | Bytes c buffer \<Rightarrow> mseq (HandleMessage E c buffer) (ret ())
     | SubmitTask serialized client_id request_id result \<Rightarrow>
         submit_task E serialized client_id request_id result
     | ReadIndexTask result \<Rightarrow> read_index_task E result)"

definition MarkStartFailure :: "error \<Rightarrow> ('db, unit) N" where
  "MarkStartFailure e = mput (\<lambda>n. n\<lparr>
     startup_error := (case startup_error n of None \<Rightarrow> Some e | Some e' \<Rightarrow> Some e'),
     startup_finished := True\<rparr>)"

text \<open>
  The loop: an exception that a callback lets through leaves \<open>loop.loop()\<close>; the thread function
  records it and ends.
\<close>

definition run_loop :: "'db env \<Rightarrow> event list \<Rightarrow> ('db, unit) N" where
  "run_loop E evs = mtry (mfor evs (handle_event E)) (\<lambda>e. mseq (MarkStartFailure e) (raise e))"

definition promise_value :: "promise \<Rightarrow> io list \<Rightarrow> bool option" where
  "promise_value p tr = map_of (map (\<lambda>x. case x of SetValue q b \<Rightarrow> (Some q, b) | _ \<Rightarrow> (None, False)) tr) (Some p)"

text \<open>
  \<open>Submit\<close> and \<open>ReadIndex\<close> as their client thread sees them: \<open>before\<close> is what the loop runs until
  it reaches the queued task, \<open>after\<close> what it runs until the client stops waiting.
\<close>

definition Submit :: "'db env \<Rightarrow> Command \<Rightarrow> promise \<Rightarrow> event list \<Rightarrow> event list \<Rightarrow> 'db node \<Rightarrow> bool \<times> 'db node" where
  "Submit E command result before after n =
     (case serialize (command_pb (env_pb E)) command of
        None \<Rightarrow> (False, n)
      | Some serialized \<Rightarrow>
          if \<not> raft_loop n \<or> \<not> ready n then (False, n)
          else
            let n' = snd (run_loop E (before @ [SubmitTask serialized (cmd_client_id command)
                (cmd_request_id command) result] @ after) n)
            in (promise_value result (trace n') = Some True, n'))"

definition ReadIndex :: "'db env \<Rightarrow> promise \<Rightarrow> event list \<Rightarrow> event list \<Rightarrow> 'db node \<Rightarrow> bool \<times> 'db node" where
  "ReadIndex E result before after n =
     (if \<not> raft_loop n \<or> \<not> ready n then (False, n)
      else let n' = snd (run_loop E (before @ [ReadIndexTask result] @ after) n)
        in (promise_value result (trace n') = Some True, n'))"

section \<open>Life cycle\<close>

definition fresh_node :: "i32 \<Rightarrow> string \<Rightarrow> i32 \<Rightarrow> 'db \<Rightarrow> RaftPeer list \<Rightarrow> 'db node" where
  "fresh_node sid ep port store ps = \<lparr>
     server_id = sid, endpoint = ep, listen_port = port, peers = ps, clients = [],
     outbound_connections = [], inbound_connections = [], db = store, log = [],
     snapshot_index = 0, snapshot_term = 0, snapshot_data = [],
     incoming_snapshot_index = 0, incoming_snapshot_term = 0, incoming_snapshot_data = [],
     incoming_snapshot_active = False, snapshot_in_progress = False,
     current_term = 0, voted_for = - 1, commit_index = 0, last_applied = 0,
     next_index = [], match_index = [],
     rpc_inflight = (\<lambda>_. False), rpc_generation = (\<lambda>_. 0), rpc_request_id = (\<lambda>_. 0),
     rpc_has_entries = (\<lambda>_. False), rpc_snapshot = (\<lambda>_. False), rpc_snapshot_offset = (\<lambda>_. 0),
     vote_request_id = (\<lambda>_. 0), granted_votes = {},
     pending_read_indexes = [], active_read_index = None,
     next_rpc_id = 1, votes_received = 0, role = Follower,
     election_timer = None, heartbeat_timer = None, read_index_timer = None,
     ready = False, leader = False, stopping = False,
     raft_thread = False, raft_loop = False, startup_finished = False, startup_error = None,
     trace = [], next_timer = 0\<rparr>"

definition RaftNode_new ::
    "'db env \<Rightarrow> i32 \<Rightarrow> string \<Rightarrow> i32 \<Rightarrow> string \<Rightarrow> RaftPeer list \<Rightarrow> error + 'db node" where
  "RaftNode_new E sid ep port db_path ps =
     rbind (RocksKVStore_open (env_rocks E) db_path) (\<lambda>store. Inr (fresh_node sid ep port store ps))"

definition init_peer :: "i32 \<Rightarrow> ('db, unit) N" where
  "init_peer p = mput (\<lambda>n. n\<lparr>
     next_index := AList.update p (LastIndex n + 1) (next_index n),
     match_index := AList.update p 0 (match_index n),
     rpc_inflight := (rpc_inflight n)(p := False),
     rpc_request_id := (rpc_request_id n)(p := 0),
     rpc_has_entries := (rpc_has_entries n)(p := False),
     rpc_snapshot := (rpc_snapshot n)(p := False),
     rpc_snapshot_offset := (rpc_snapshot_offset n)(p := 0),
     rpc_generation := (rpc_generation n)(p := 0)\<rparr>)"

definition StartInLoop :: "'db env \<Rightarrow> ('db, unit) N" where
  "StartInLoop E = mdo [
     mput (\<lambda>n. n\<lparr>role := Follower, votes_received := 0, granted_votes := {}\<rparr>),
     LoadState E,
     mget (\<lambda>n. mbind (lift_result (ParseEndpoint (endpoint n))) (\<lambda>(host, port).
       emit (ServerStart host port))),
     for_peers (\<lambda>p. mseq (mget (\<lambda>n. mwhen (i32_less (server_id n) p) (CreatePeerClient p)))
       (init_peer p)),
     mput (\<lambda>n. n\<lparr>ready := True\<rparr>),
     ResetElectionTimer]"

definition StopInLoop :: "('db, unit) N" where
  "StopInLoop = mdo [
     mget (\<lambda>n. mseq (cancel_opt (election_timer n)) (mput (\<lambda>n. n\<lparr>election_timer := None\<rparr>))),
     mget (\<lambda>n. mseq (cancel_opt (heartbeat_timer n)) (mput (\<lambda>n. n\<lparr>heartbeat_timer := None\<rparr>))),
     FailPendingReadIndexes,
     mput (\<lambda>n. n\<lparr>ready := False, leader := False\<rparr>),
     emit ServerStop,
     mput (\<lambda>n. n\<lparr>clients := [], outbound_connections := [], inbound_connections := []\<rparr>)]"

text \<open>What the thread function does after the loop has quit.\<close>

definition leave_loop :: "('db, unit) N" where
  "leave_loop = mput (\<lambda>n. n\<lparr>clients := [], outbound_connections := [], inbound_connections := [],
     raft_loop := False\<rparr>)"

definition Start :: "'db env \<Rightarrow> ('db, unit) N" where
  "Start E = mget (\<lambda>n.
     if raft_thread n then ret ()
     else mdo [
       mput (\<lambda>n. n\<lparr>stopping := False, ready := False, leader := False, startup_finished := False,
         startup_error := None, raft_thread := True, raft_loop := True\<rparr>),
       mtry (mseq (StartInLoop E) (mput (\<lambda>n. n\<lparr>startup_finished := True\<rparr>)))
         (\<lambda>e. mdo [MarkStartFailure e, StopInLoop, leave_loop]),
       mget (\<lambda>n. case startup_error n of
           None \<Rightarrow> ret ()
         | Some e \<Rightarrow> mseq (mput (\<lambda>n. n\<lparr>raft_thread := False\<rparr>)) (raise e))])"

text \<open>\<open>Stop\<close>, with the events the loop still runs before it reaches the stop task.\<close>

definition Stop :: "'db env \<Rightarrow> event list \<Rightarrow> ('db, unit) N" where
  "Stop E before = mget (\<lambda>n.
     if \<not> raft_thread n then ret ()
     else mdo [
       mput (\<lambda>n. n\<lparr>stopping := True\<rparr>),
       mwhen (raft_loop n) (mtry (mdo [run_loop E before, StopInLoop, leave_loop]) (\<lambda>_. ret ())),
       mput (\<lambda>n. n\<lparr>raft_thread := False, leader := False, ready := False\<rparr>)])"

end
