(* ===== verification/Raft_Invariant.thy ===== *)
theory Raft_Invariant
  imports Raft_Loop
begin

text \<open>
  The interface between a predicate on node states and the event loop. A predicate that meets the
  laws of the locale \<open>node_handlers\<close>, which name the places of the code that can disturb it, is
  preserved by every event of the loop but a campaign and the submission of an entry, whatever the
  event carries: the locale's theorem goes once through every handler, timer and task. The laws of
  \<open>node_invariant\<close> are those for predicates that do not look at the log; they give the laws above
  and cover submissions as well. The predicates of the later theories are instances of the two.
\<close>

lemma preserves_mget_at: "(\<And>s. P s \<Longrightarrow> P (snd (k s s))) \<Longrightarrow> preserves P (mget k)"
  by (simp add: preserves_def)

lemma snd_mseq: "P (snd (m s)) \<Longrightarrow> preserves P k \<Longrightarrow> P (snd (mseq m k s))"
  unfolding preserves_def mseq_def mbind_def by (cases "m s") (auto split: sum.splits)

lemma snd_mseq_via:
  assumes "preserves Q m" and "Q s" and "\<And>t. Q t \<Longrightarrow> P t" and "\<And>t. Q t \<Longrightarrow> P (snd (k t))"
  shows "P (snd (mseq m k s))"
  using preserves_run [OF assms(1,2)] assms(3,4)
  unfolding mseq_def mbind_def by (cases "m s") (auto split: sum.splits)

lemma snd_mbind: "P (snd (m s)) \<Longrightarrow> (\<And>x. preserves P (k x)) \<Longrightarrow> P (snd (mbind m k s))"
  unfolding preserves_def mbind_def by (cases "m s") (auto split: sum.splits)

lemma snd_mwhen: "P s \<Longrightarrow> (b \<Longrightarrow> P (snd (m s))) \<Longrightarrow> P (snd (mwhen b m s))"
  by (simp add: mwhen_def)

fun rpcs_ok :: "'db env \<Rightarrow> (conn \<Rightarrow> RaftRpc \<Rightarrow> bool) \<Rightarrow> event \<Rightarrow> bool" where
  "rpcs_ok E ok (Bytes c buffer) \<longleftrightarrow>
     (\<forall>payload \<in> set (fst (deframe buffer)).
        case parse (rpc_pb (env_pb E)) payload of None \<Rightarrow> True | Some rpc \<Rightarrow> ok c rpc)"
| "rpcs_ok E ok _ \<longleftrightarrow> True"

lemma preserves_install_complete:
  assumes "store_quiet P" and "\<And>n k. P n \<Longrightarrow> P (n\<lparr>commit_index := k\<rparr>)"
  shows "preserves P (install_complete E)"
  unfolding install_complete_def Let_def
  by (intro pres preserves_mput preserves_on_db preserves_ApplyCommitted store_quietD [OF assms(1)] assms)

lemma StepDown_role: "fst (StepDown E t n) = Inr u \<Longrightarrow> role (snd (StepDown E t n)) = Follower"
proof -
  let ?Q = "\<lambda>n. role n = Follower"
  have q: "quiet (\<lambda>_. True) ?Q" by (simp add: quiet_def)
  have fail: "preserves ?Q FailPendingReadIndexes" by (intro frame [OF q]) simp_all
  have reset: "preserves ?Q ResetElectionTimer" by (intro frame [OF q])
  show "fst (StepDown E t n) = Inr u \<Longrightarrow> role (snd (StepDown E t n)) = Follower"
    unfolding StepDown_def mget_app
    by (auto simp: mseq_app mdo.simps split: sum.splits prod.splits
        dest!: preservesD [OF fail] preservesD [OF reset])
qed

locale node_handlers =
  fixes E :: "'db env"
    and ok :: "conn \<Rightarrow> RaftRpc \<Rightarrow> bool"
    and B :: "io \<Rightarrow> bool"
    and P :: "'db node \<Rightarrow> bool"
  assumes quiet: "quiet B P"
    and makes: "T \<notin> {REQUEST_VOTE, REQUEST_VOTE_RESPONSE, APPEND_ENTRIES} \<Longrightarrow> makes E B T"
    and asks: "preserves P (SendRequestVoteToPeer E peer)"
    and replicates: "preserves P (SendAppend E peer)"
    and applies: "preserves P (ApplyCommitted E)"
    and steps_down: "P n \<Longrightarrow> current_term n \<le> t \<Longrightarrow> P (snd (StepDown E t n))"
    and votes: "ok c rpc \<Longrightarrow> msg_type rpc = REQUEST_VOTE \<Longrightarrow>
      preserves P (HandleRequestVote E c (msg_payload rpc) (msg_request_id rpc))"
    and counts: "ok c rpc \<Longrightarrow> msg_type rpc = REQUEST_VOTE_RESPONSE \<Longrightarrow>
      preserves P (HandleRequestVoteResponse E c (msg_payload rpc) (msg_request_id rpc))"
    and appends: "ok c rpc \<Longrightarrow> msg_type rpc = APPEND_ENTRIES \<Longrightarrow>
      parse (append_entries_pb (env_pb E)) (msg_payload rpc) = Some q \<Longrightarrow>
      P n \<Longrightarrow> role n = Follower \<Longrightarrow> P (snd (append_entries E q n))"
    and installs: "P n \<Longrightarrow> role n = Follower \<Longrightarrow> P (snd (install_complete E n))"
    and answers: "preserves P (HandleReadIndexResponse E c payload rid)"
    and reads: "preserves P (read_index_task E result)"
    and probes: "preserves P (SendReadIndexProbes E)"
    and expires: "preserves P (on_read_index_timeout E active)"
    and commit_free: "P n \<Longrightarrow> P (n\<lparr>commit_index := k\<rparr>)"
    and match_free: "P n \<Longrightarrow> P (n\<lparr>match_index := m\<rparr>)"
    and incoming_free: "P n \<Longrightarrow> P (n\<lparr>incoming_snapshot_index := k\<rparr>)"
      "P n \<Longrightarrow> P (n\<lparr>incoming_snapshot_term := k\<rparr>)"
      "P n \<Longrightarrow> P (n\<lparr>incoming_snapshot_data := bytes\<rparr>)"
      "P n \<Longrightarrow> P (n\<lparr>incoming_snapshot_active := b\<rparr>)"
begin

lemmas free = commit_free match_free incoming_free quietD [OF quiet] quiet_trace [OF quiet]

lemma sends:
  "makes E B APPEND_ENTRIES_RESPONSE" "makes E B IDENTIFY" "makes E B INSTALL_SNAPSHOT"
  "makes E B INSTALL_SNAPSHOT_RESPONSE" "makes E B READ_INDEX" "makes E B READ_INDEX_RESPONSE"
  by (simp_all add: makes)

lemmas calls = replicates pres frame [OF quiet] preserves_mput sends asks applies

text \<open>What a handler does as a follower, once it has stepped down where it had to.\<close>

lemma follows:
  assumes "P n" and "current_term n \<le> t" and k: "\<And>m. P m \<Longrightarrow> role m = Follower \<Longrightarrow> P (snd (k m))"
  shows "P (snd (as_follower E t k n))"
proof -
  let ?down = "mwhen (current_term n < t \<or> role n \<noteq> Follower) (StepDown E t)"
  have "quiet B (\<lambda>m. P m \<and> role m = Follower)" using quiet by (simp add: quiet_def)
  then have reset: "preserves (\<lambda>m. P m \<and> role m = Follower) ResetElectionTimer"
    by (rule preserves_ResetElectionTimer)
  have rest: "P (snd (mseq ResetElectionTimer k m))" if "P m" and "role m = Follower" for m
    by (rule snd_mseq_via [OF reset, of m P]) (use that k in auto)
  have "P (snd (?down n))" and "fst (?down n) = Inr u \<Longrightarrow> role (snd (?down n)) = Follower" for u
    using assms(1,2) StepDown_role [of E t n] by (auto simp: mwhen_def steps_down)
  then show ?thesis
    unfolding as_follower_def mget_app mseq_app [of ?down] using rest
    by (cases "?down n"; cases "fst (?down n)") auto
qed

lemma newer:
  assumes "\<And>n. preserves P (k n)"
  shows "preserves P (mget (\<lambda>n. if current_term n < t then StepDown E t else k n))"
  by (rule preserves_mget_at) (simp add: steps_down preserves_run [OF assms])

lemma append_entries_msg:
  assumes "ok c rpc" and "msg_type rpc = APPEND_ENTRIES"
  shows "preserves P (HandleAppendEntries E c (msg_payload rpc) rid)"
proof -
  have "preserves P (append_outcome E q)"
    if "parse (append_entries_pb (env_pb E)) (msg_payload rpc) = Some q" for q
    unfolding append_outcome_def
    by (rule preserves_mget_at) (simp add: follows appends [OF assms that])
  then show ?thesis
    unfolding HandleAppendEntries_def by (intro calls free)
qed

lemma commits: "preserves P (TryAdvanceCommit E)"
  unfolding TryAdvanceCommit_def by (intro calls free)

lemma append_response_msg: "preserves P (HandleAppendEntriesResponse E c payload rid)"
  unfolding HandleAppendEntriesResponse_def Let_def
  by (rule preserves_case_option, rule preserves_ret, rule newer)
     (intro commits calls free)

lemma install_snapshot_msg: "preserves P (HandleInstallSnapshot E c payload rid)"
proof -
  let ?Q = "\<lambda>m. P m \<and> role m = Follower"
  have q: "quiet B ?Q" using quiet by (simp add: quiet_def)
  have keep: "preserves (\<lambda>m. role m = Follower) (install_complete E)"
    by (rule preserves_install_complete) (simp_all add: store_quiet_def)
  have install: "preserves ?Q (install_complete E)"
    by (rule preservesI) (simp add: installs preserves_run [OF keep])
  have free': "?Q (n\<lparr>incoming_snapshot_index := k, incoming_snapshot_term := t,
        incoming_snapshot_data := bytes, incoming_snapshot_active := b\<rparr>)"
    "?Q (n\<lparr>incoming_snapshot_data := bytes\<rparr>)" "?Q (n\<lparr>incoming_snapshot_data := bytes, incoming_snapshot_active := b\<rparr>)"
    if "?Q n" for n k t bytes b
    using that by (simp_all add: incoming_free)
  have clear: "preserves ?Q clear_incoming"
    unfolding clear_incoming_def by (intro preserves_mput free')
  have "preserves ?Q (accept_chunk E q)" for q
    unfolding accept_chunk_def begin_chunk_def finish_install_def Let_def
    by (intro pres preserves_mput install clear free')
  then have "preserves ?Q (install_current E q)" for q
    unfolding install_current_def by (intro pres)
  then have body: "P m \<Longrightarrow> role m = Follower \<Longrightarrow> P (snd (install_current E q m))" for q m
    using preserves_run [of ?Q "install_current E q" m] by blast
  have "preserves P (install_snapshot E q)" for q
    unfolding install_snapshot_def
    by (rule preserves_mget_at) (simp add: follows body)
  then show ?thesis
    unfolding HandleInstallSnapshot_def by (intro calls free)
qed

lemma install_response_msg: "preserves P (HandleInstallSnapshotResponse E c payload rid)"
proof -
  have offset: "preserves P (set_snapshot_offset peer k)" for peer k
    unfolding set_snapshot_offset_def by (intro calls free)
  show ?thesis
    unfolding HandleInstallSnapshotResponse_def Let_def
    by (rule preserves_case_option, rule preserves_ret, rule newer)
       (intro calls free offset)
qed

lemma read_index_msg: "preserves P (HandleReadIndexRequest E c payload rid)"
proof -
  have "preserves P (read_index_reply E q)" for q
    unfolding read_index_reply_def
    by (rule preserves_mget_at) (simp add: follows)
  then show ?thesis
    unfolding HandleReadIndexRequest_def by (intro calls free)
qed

lemma dispatches:
  assumes "ok c rpc"
  shows "preserves P (dispatch E c rpc)"
proof -
  have shut: "preserves P (emit (Shutdown c))"
    by (intro calls free)
  have "preserves P (mget (\<lambda>n. mwhen (role n = Leader) (SendAppend E (i32_of_u64 (msg_sender_id rpc)))))"
    by (intro calls)
  then show ?thesis
    using shut votes [OF assms] counts [OF assms] append_entries_msg [OF assms]
    by (auto simp: dispatch_def append_response_msg install_snapshot_msg
        install_response_msg read_index_msg answers split: RpcType.split)
qed

lemma rpc_frame:
  assumes "case parse (rpc_pb (env_pb E)) payload of None \<Rightarrow> True | Some rpc \<Rightarrow> ok c rpc"
  shows "preserves P (HandleRpc E c payload)"
proof -
  have "preserves P (register_sender c rpc)" for rpc
    unfolding register_sender_def Let_def by (intro calls free)
  then show ?thesis
    unfolding HandleRpc_def by (intro calls free dispatches) (use assms in auto)
qed

lemma messages: "rpcs_ok E ok (Bytes c buffer) \<Longrightarrow> preserves P (HandleMessage E c buffer)"
  by (rule rpc_stream.preserves_loop, rule rpc_frame)
     (auto simp: emit_def intro: preserves_mput quiet_trace(1) [OF quiet])

lemma waits: "preserves P (on_wait_for_commit k result)"
  unfolding on_wait_for_commit_def by (intro calls free)

lemma callbacks:
  assumes "cb \<noteq> ElectionTimeout"
  shows "preserves P (run_callback E cb)"
proof -
  have "preserves P (SendHeartbeats E)" by (intro calls)
  with assms show ?thesis
    by (simp add: run_callback_def waits expires preserves_on_append_timeout [OF quiet]
        preserves_on_snapshot_timeout [OF quiet] split: callback.split)
qed

lemma connections: "preserves P (OnPeerConnection E peer c)" "preserves P (HandleConnection E c)"
proof -
  have "preserves P (case r of Leader \<Rightarrow> SendAppend E peer | Candidate \<Rightarrow> SendRequestVoteToPeer E peer
      | Follower \<Rightarrow> ret ())" for r
    by (cases r; simp only: Role.case) (intro calls)+
  then show "preserves P (OnPeerConnection E peer c)"
    unfolding OnPeerConnection_def by (intro calls free probes)
  show "preserves P (HandleConnection E c)"
    unfolding HandleConnection_def by (intro calls free)
qed

text \<open>Every event but the two that start something: a campaign and a new log entry.\<close>

theorem handled:
  assumes "rpcs_ok E ok ev" and "ev \<noteq> Fire ElectionTimeout" and "\<And>s cid rid r. ev \<noteq> SubmitTask s cid rid r"
  shows "preserves P (handle_event E ev)"
proof (cases ev)
  case (Bytes c buffer)
  have "preserves P (HandleMessage E c buffer)"
    using assms(1) unfolding Bytes by (rule messages)
  then show ?thesis
    unfolding Bytes handle_event_def event.case by (intro preserves_mseq preserves_ret)
next
  case (Fire cb)
  with assms(2) have "preserves P (run_callback E cb)" by (intro callbacks) simp
  then show ?thesis unfolding Fire handle_event_def event.case .
qed (use assms(3) in \<open>simp_all only: handle_event_def event.case connections reads simp_thms\<close>)

end

text \<open>
  The laws for a predicate that does not look at the log, and at no AppendEntries request: they
  give those above, and with them that every event but a campaign keeps the predicate.
\<close>

locale node_invariant =
  fixes E :: "'db env"
    and ok :: "conn \<Rightarrow> RaftRpc \<Rightarrow> bool"
    and B :: "io \<Rightarrow> bool"
    and P :: "'db node \<Rightarrow> bool"
  assumes quiet: "quiet B P"
    and makes: "T \<noteq> REQUEST_VOTE \<Longrightarrow> T \<noteq> REQUEST_VOTE_RESPONSE \<Longrightarrow> makes E B T"
    and asks: "preserves P (SendRequestVoteToPeer E peer)"
    and applies: "preserves P (ApplyCommitted E)"
    and persists_log: "preserves P (Node_PersistLog E)"
    and steps_down: "P n \<Longrightarrow> current_term n \<le> t \<Longrightarrow> P (snd (StepDown E t n))"
    and votes: "ok c rpc \<Longrightarrow> msg_type rpc = REQUEST_VOTE \<Longrightarrow>
      preserves P (HandleRequestVote E c (msg_payload rpc) (msg_request_id rpc))"
    and counts: "ok c rpc \<Longrightarrow> msg_type rpc = REQUEST_VOTE_RESPONSE \<Longrightarrow>
      preserves P (HandleRequestVoteResponse E c (msg_payload rpc) (msg_request_id rpc))"
    and installs: "preserves P (install_complete E)"
    and answers: "preserves P (HandleReadIndexResponse E c payload rid)"
    and reads: "preserves P (read_index_task E result)"
    and probes: "preserves P (SendReadIndexProbes E)"
    and expires: "preserves P (on_read_index_timeout E active)"
    and log_free: "P n \<Longrightarrow> P (n\<lparr>log := l\<rparr>)"
    and commit_free: "P n \<Longrightarrow> P (n\<lparr>commit_index := k\<rparr>)"
    and match_free: "P n \<Longrightarrow> P (n\<lparr>match_index := m\<rparr>)"
    and incoming_free: "P n \<Longrightarrow> P (n\<lparr>incoming_snapshot_index := k\<rparr>)"
      "P n \<Longrightarrow> P (n\<lparr>incoming_snapshot_term := k\<rparr>)"
      "P n \<Longrightarrow> P (n\<lparr>incoming_snapshot_data := bytes\<rparr>)"
      "P n \<Longrightarrow> P (n\<lparr>incoming_snapshot_active := b\<rparr>)"
begin

lemma append_turns: "preserves P (append_loop es index)"
proof (rule preservesI)
  have push: "P (push_entry i e n)" if "P n" for n i e
    using log_free [OF that] that by (simp add: push_entry_def)
  show "P (snd (append_loop es index n))" if "P n" for n
    using that
  proof (induction es arbitrary: index n)
    case (Cons e es)
    let ?i = "index + 1"
    have "P (snd (append_loop es ?i (push_entry ?i e n)))"
      by (intro Cons push)
    moreover have "P (snd (append_loop es ?i (push_entry ?i e (n\<lparr>log := l\<rparr>))))" for l
      by (intro Cons push log_free)
    ultimately show ?case
      using Cons.prems by (simp only: append_loop.simps Let_def split: if_split sum.split) simp
  qed simp
qed

lemma append_request: "preserves P (append_entries E q)"
  unfolding append_entries_def
  by (intro pres preserves_mput applies persists_log append_turns commit_free)

lemma replication: "preserves P (SendAppend E peer)"
  by (intro preserves_SendAppend [OF quiet] makes) simp_all

end

sublocale node_invariant \<subseteq> handlers: node_handlers E ok B P
  by unfold_locales
     (simp_all add: quiet makes asks replication applies steps_down votes counts preserves_run [OF append_request]
       preserves_run [OF installs] answers reads probes expires commit_free match_free incoming_free)

context node_invariant
begin

lemma submits: "preserves P (submit_task E s cid rid result)"
  unfolding submit_task_def submit_entry_def Let_def
  by (intro handlers.waits handlers.commits handlers.calls handlers.free persists_log log_free)

theorem event:
  assumes "rpcs_ok E ok ev" and "ev \<noteq> Fire ElectionTimeout"
  shows "preserves P (handle_event E ev)"
proof (cases "\<exists>s cid rid r. ev = SubmitTask s cid rid r")
  case True
  then show ?thesis using submits by (auto simp: handle_event_def)
qed (use assms handlers.handled in blast)

end

text \<open>A predicate that also survives an election timeout survives every event.\<close>

locale node_invariant_all = node_invariant +
  assumes campaigns: "preserves P (on_election_timeout E)"
begin

theorem any_event:
  assumes "rpcs_ok E ok ev"
  shows "preserves P (handle_event E ev)"
proof (cases "ev = Fire ElectionTimeout")
  case True
  then show ?thesis using campaigns by (simp add: handle_event_def run_callback_def)
qed (use assms event in blast)

end

section \<open>Predicates that do not look at reads and roles\<close>

lemma preserves_read_messages:
  assumes "read_quiet E B P"
    and down: "\<And>n t. P n \<Longrightarrow> current_term n \<le> t \<Longrightarrow> P (snd (StepDown E t n))"
  shows "preserves P (HandleReadIndexResponse E c payload rid)" and "preserves P (read_index_task E result)"
proof -
  have q: "quiet B P" and active: "\<And>n x. P n \<Longrightarrow> P (n\<lparr>active_read_index := x\<rparr>)"
    and pending: "\<And>n x. P n \<Longrightarrow> P (n\<lparr>pending_read_indexes := x\<rparr>)"
    using assms(1) by (simp_all add: read_quiet_def)
  have newer: "preserves P (mget (\<lambda>n. if current_term n < t then StepDown E t else k n))"
    if "\<And>n. preserves P (k n)" for t k
    by (rule preserves_mget_at) (simp add: down preserves_run [OF that])
  show "preserves P (HandleReadIndexResponse E c payload rid)"
    unfolding HandleReadIndexResponse_def Let_def
    by (rule preserves_case_option, rule preserves_ret, rule newer)
       (intro pres preserves_mput preserves_read_index [OF assms(1)] active)
  show "preserves P (read_index_task E result)"
    unfolding read_index_task_def allocate_rpc_id_def
    by (intro pres frame [OF q] preserves_mput preserves_read_index [OF assms(1)] pending quietD [OF q])
qed

lemma StepDown_parts:
  assumes q: "quiet B P" and active: "\<And>n x. P n \<Longrightarrow> P (n\<lparr>active_read_index := x\<rparr>)"
    and pending: "\<And>n x. P n \<Longrightarrow> P (n\<lparr>pending_read_indexes := x\<rparr>)"
    and role: "\<And>n. P n \<Longrightarrow> P (n\<lparr>role := Follower, leader := False\<rparr>)"
    and newer: "current_term n < t \<Longrightarrow>
      P (snd (mseq (mput (\<lambda>n. n\<lparr>current_term := t, voted_for := - 1\<rparr>)) (Node_PersistState E) n))"
    and n: "P n"
  shows "P (snd (StepDown E t n))"
proof -
  have "preserves P (mdo [
     mget (\<lambda>n. mwhen (role n = Leader)
       (mseq (cancel_opt (heartbeat_timer n)) (mput (\<lambda>n. n\<lparr>heartbeat_timer := None\<rparr>)))),
     mput (\<lambda>n. n\<lparr>role := Follower, leader := False\<rparr>),
     FailPendingReadIndexes,
     ResetElectionTimer])"
    by (intro pres frame [OF q] preserves_mput active pending role quietD [OF q])
  moreover have "P (snd (mwhen (current_term n < t)
      (mseq (mput (\<lambda>n. n\<lparr>current_term := t, voted_for := - 1\<rparr>)) (Node_PersistState E)) n))"
    using n newer by (simp add: mwhen_def)
  ultimately show ?thesis
    unfolding StepDown_def mget_app mdo.simps by (intro snd_mseq [of P])
qed

lemma preserves_BecomeLeader:
  assumes q: "quiet B P" and sends: "\<And>peer. preserves P (SendAppend E peer)"
    and match: "\<And>n x. P n \<Longrightarrow> P (n\<lparr>match_index := x\<rparr>)"
    and n: "P (n\<lparr>role := Leader, leader := True\<rparr>)"
  shows "P (snd (BecomeLeader E n))"
proof -
  have "preserves P (mdo [
     mget (\<lambda>n. cancel_opt (election_timer n)),
     mput (\<lambda>n. n\<lparr>election_timer := None\<rparr>),
     mget (\<lambda>n. cancel_opt (heartbeat_timer n)),
     mput (\<lambda>n. n\<lparr>heartbeat_timer := None\<rparr>),
     for_peers (\<lambda>p. mput (\<lambda>n. n\<lparr>
       next_index := AList.update p (LastIndex n + 1) (next_index n),
       match_index := AList.update p 0 (match_index n),
       rpc_inflight := (rpc_inflight n)(p := False)\<rparr>)),
     SendHeartbeats E])"
    by (intro sends pres frame [OF q] preserves_mput match quietD [OF q])
  then show ?thesis
    unfolding BecomeLeader_def mdo.simps using n by (intro snd_mseq [of P]) simp_all
qed

section \<open>Two invariants of every event\<close>

text \<open>\<open>IsLeader\<close> reads the flag that follows the role.\<close>

definition leader_flag :: "'db node \<Rightarrow> bool" where
  "leader_flag n \<longleftrightarrow> leader n = (role n = Leader)"

interpretation flag: node_invariant_all E "\<lambda>_ _. True" "\<lambda>_. True" leader_flag for E
proof -
  have q: "quiet (\<lambda>_. True) leader_flag" and s: "store_quiet leader_flag"
    by (simp_all add: quiet_def store_quiet_def leader_flag_def)
  have free: "leader_flag (n\<lparr>commit_index := k\<rparr>)" "leader_flag (n\<lparr>match_index := mi\<rparr>)"
    "leader_flag (n\<lparr>active_read_index := ar\<rparr>)" "leader_flag (n\<lparr>pending_read_indexes := pr\<rparr>)"
    "leader_flag (n\<lparr>incoming_snapshot_index := k\<rparr>)" "leader_flag (n\<lparr>incoming_snapshot_term := k\<rparr>)"
    "leader_flag (n\<lparr>incoming_snapshot_data := bytes\<rparr>)" "leader_flag (n\<lparr>incoming_snapshot_active := b\<rparr>)"
    "leader_flag (n\<lparr>voted_for := v\<rparr>)" "leader_flag (n\<lparr>current_term := k\<rparr>)"
    "leader_flag (n\<lparr>granted_votes := g\<rparr>)" "leader_flag (n\<lparr>votes_received := w\<rparr>)"
    if "leader_flag n" for n k mi ar pr bytes b v g w
    using that by (simp_all add: leader_flag_def)
  have applies: "preserves leader_flag (ApplyCommitted E)"
    by (intro store_frame s)
  have persists: "preserves leader_flag (Node_PersistState E)" "preserves leader_flag (Node_PersistLog E)"
    by (rule preserves_Node_PersistState preserves_Node_PersistLog, erule store_quietD(1) [OF s])+
  have rq: "read_quiet E (\<lambda>_. True) leader_flag"
    by (simp add: read_quiet_def q applies free)
  have down: "leader_flag (snd (StepDown E t n))" if "leader_flag n" for n t
    using that by (intro StepDown_parts [OF q] free) (simp_all add: leader_flag_def mseq_app Node_PersistState_def
        on_db_def split: prod.split)
  have lead: "preserves leader_flag (BecomeLeader E)"
    by (intro preserves_SendAppend [OF q] preservesI preserves_BecomeLeader [OF q] makes_True free)
       (simp_all add: leader_flag_def)
  have become: "preserves leader_flag (BecomeCandidate E)"
    unfolding BecomeCandidate_def
    by (intro pres frame [OF q] makes_True persists lead preserves_mput) (simp add: leader_flag_def)
  note reads = preserves_read_index [OF rq] preserves_read_messages [OF rq down]
  show "node_invariant_all E (\<lambda>_ _. True) (\<lambda>_. True) leader_flag"
  proof
    show "preserves leader_flag (HandleRequestVote E c (msg_payload rpc) (msg_request_id rpc))" for c rpc
      unfolding HandleRequestVote_def Let_def
      by (intro pres frame [OF q] makes_True persists preserves_mput free quiet_trace [OF q] preservesI down)
    show "preserves leader_flag (HandleRequestVoteResponse E c (msg_payload rpc) (msg_request_id rpc))" for c rpc
      unfolding HandleRequestVoteResponse_def Let_def
      by (intro pres lead preserves_mput free preservesI down)
    show "preserves leader_flag (on_election_timeout E)"
      unfolding on_election_timeout_def by (intro pres become)
    show "preserves leader_flag (SendRequestVoteToPeer E peer)" for peer
      by (intro frame [OF q] makes_True)
  qed (simp_all add: q applies persists reads down free store_quietD [OF s] preserves_install_complete [OF s])
qed

end
