(* ===== verification/Raft_Vote.thy ===== *)
theory Raft_Vote
  imports Raft_Invariant
begin

text \<open>
  Terms and votes, in memory and on disk. A vote is a pair of a term and a candidate, and a node
  may only move upwards in the order \<open>vote_le\<close>: to a later term, or within a term from no vote
  to a vote. The theory shows that every event moves both the vote in memory and the vote on disk
  upwards, that memory is never behind the disk, and that a vote that was granted in a message is
  on disk when the message is sent, whatever the store does (a write may fail at any point).
\<close>

section \<open>The order of votes\<close>

definition vote_le :: "u64 \<times> i64 \<Rightarrow> u64 \<times> i64 \<Rightarrow> bool" where
  "vote_le a b \<longleftrightarrow> fst a < fst b \<or> (fst a = fst b \<and> (snd a = - 1 \<or> snd a = snd b))"

lemma vote_le_refl [simp]: "vote_le a a"
  by (simp add: vote_le_def)

lemma vote_le_trans [trans]: "vote_le a b \<Longrightarrow> vote_le b c \<Longrightarrow> vote_le a c"
  by (auto simp: vote_le_def)

definition vote_of :: "'db node \<Rightarrow> u64 \<times> i64" where
  "vote_of n = (current_term n, voted_for n)"

text \<open>The vote that a restart would load.\<close>

definition durable :: "contents \<Rightarrow> u64 \<times> i64" where
  "durable m =
     ((case ParseUint64 (m ''__raft/current_term'') ''__raft/current_term'' of Inr t \<Rightarrow> t | Inl _ \<Rightarrow> 0),
      (case ParseInt64 (m ''__raft/voted_for'') ''__raft/voted_for'' of Inr v \<Rightarrow> v | Inl _ \<Rightarrow> - 1))"

definition vote_keys :: "string set" where
  "vote_keys = {''__raft/current_term'', ''__raft/voted_for''}"

lemma durable_cong: "(\<And>k. k \<in> vote_keys \<Longrightarrow> m k = m' k) \<Longrightarrow> durable m = durable m'"
  by (simp add: durable_def vote_keys_def)

lemma vote_keys_reserved:
  assumes "k \<in> vote_keys"
  shows "prefix ''__raft/'' k" "\<not> prefix ''__raft/client/'' k" "\<not> prefix ''__raft/log/'' k" "k \<notin> range LogKey"
  using assms LogKey_prefix(2) by (auto simp: vote_keys_def LogKey_def)

section \<open>What the writes of the storage layer do to the durable vote\<close>

lemma write_cases:
  assumes "rocksdb_ok R \<alpha>" and "WriteAtomically R puts dels d = (r, d')"
  shows "\<alpha> d' = \<alpha> d \<or> \<alpha> d' = put_all puts (delete_all dels (\<alpha> d))"
  using rocks.write_abs [OF assms(1)] rocks.write_atomic [OF assms(1)] assms(2)
  by (cases r) blast+

lemma write_keeps_durable:
  assumes "rocksdb_ok R \<alpha>" and "WriteAtomically R puts dels d = (r, d')"
    and "vote_keys \<inter> fst ` set puts = {}" and "vote_keys \<inter> set dels = {}"
  shows "durable (\<alpha> d') = durable (\<alpha> d)"
  using assms(3,4) by (intro durable_cong rocks.write_frame [OF assms(1,2)]) auto

lemma durable_state_puts:
  assumes "vote_keys \<inter> fst ` set rest = {}"
  shows "durable (put_all (state_puts t v a b c e @ rest) m) = (t, v)"
proof -
  have "put_all (state_puts t v a b c e @ rest) m k = put_all (state_puts t v a b c e) m k"
    if "k \<in> vote_keys" for k
    unfolding put_all_append using assms that by (intro put_all_other) auto
  then show ?thesis
    by (simp add: durable_def vote_keys_def state_puts_get)
qed

lemma write_sets_durable:
  assumes "rocksdb_ok R \<alpha>"
    and "WriteAtomically R (state_puts t v a b c e @ rest) dels d = (r, d')"
    and "vote_keys \<inter> fst ` set rest = {}"
  shows "durable (\<alpha> d') \<in> {durable (\<alpha> d), (t, v)}"
  using write_cases [OF assms(1,2)] durable_state_puts [OF assms(3)] by auto

lemma PersistState_durable:
  assumes "rocksdb_ok R \<alpha>" and "PersistState R t v a b c e d = (r, d')"
  shows "durable (\<alpha> d') \<in> {durable (\<alpha> d), (t, v)}"
    and "r = Inr u \<Longrightarrow> durable (\<alpha> d') = (t, v)"
proof -
  show "durable (\<alpha> d') \<in> {durable (\<alpha> d), (t, v)}"
    using write_sets_durable [OF assms(1), of t v a b c e "[]"] assms(2) by (simp add: PersistState_def)
  show "durable (\<alpha> d') = (t, v)" if "r = Inr u"
    using PersistState_abs [OF assms(1)] assms(2) durable_state_puts [of "[]"] that by simp
qed

lemma tail_deletes_range: "tail_deletes R d first index = Inr ks \<Longrightarrow> set ks \<subseteq> range LogKey"
proof (induction R d first index arbitrary: ks rule: tail_deletes.induct)
  case (1 R d first index)
  from "1.prems" show ?case
    by (subst (asm) tail_deletes.simps)
       (auto simp: rbind_Inr_iff split: sum.splits option.splits if_splits dest!: "1.IH")
qed

lemma prefix_deletes_range: "prefix_deletes 1 s = Inr ks \<Longrightarrow> set ks \<subseteq> range LogKey"
  using prefix_deletes_keys [of 1 s ks] by auto

lemma PersistLog_durable:
  assumes "rocksdb_ok R \<alpha>" and "PersistLog P R s l d = (r, d')"
  shows "durable (\<alpha> d') = durable (\<alpha> d)"
proof -
  have "d' = d \<or> (\<exists>puts front tail. log_puts P s l = Inr puts \<and> prefix_deletes 1 s = Inr front \<and>
      (\<exists>i. tail_deletes R d i i = Inr tail) \<and> WriteAtomically R puts (front @ tail) d = (r, d'))"
    using assms(2)
    by (auto simp: PersistLog_def mbind_app Let_def mwhen_def split: sum.splits if_splits)
  then show ?thesis
  proof (elim disjE exE conjE)
    fix puts front tail i
    assume puts: "log_puts P s l = Inr puts" and front: "prefix_deletes 1 s = Inr front"
      and tail: "tail_deletes R d i i = Inr tail"
      and w: "WriteAtomically R puts (front @ tail) d = (r, d')"
    have "fst ` set puts \<subseteq> range LogKey" "set (front @ tail) \<subseteq> range LogKey"
      using log_puts_range [OF puts] prefix_deletes_range [OF front] tail_deletes_range [OF tail]
      by simp_all
    then show ?thesis
      using vote_keys_reserved(4) by (intro write_keeps_durable [OF assms(1) w]) blast+
  qed simp
qed

lemma PersistSnapshot_durable:
  assumes "rocksdb_ok R \<alpha>" and "PersistSnapshot P R t v a b s st metadata data l d = (r, d')"
  shows "durable (\<alpha> d') \<in> {durable (\<alpha> d), (t, v)}"
proof -
  let ?meta = "[(''__raft/snapshot_metadata'', metadata), (''__raft/snapshot_data'', data)]"
  have "d' = d \<or> (\<exists>puts dels. log_puts P s l = Inr puts \<and>
      WriteAtomically R (state_puts t v a b s st @ ?meta @ puts) dels d = (r, d'))"
    using assms(2)
    by (auto simp: PersistSnapshot_def mbind_app Let_def split: sum.splits if_splits)
  then show ?thesis
  proof (elim disjE exE conjE)
    fix puts dels
    assume "log_puts P s l = Inr puts"
      and w: "WriteAtomically R (state_puts t v a b s st @ ?meta @ puts) dels d = (r, d')"
    then have "vote_keys \<inter> fst ` set puts = {}"
      using log_puts_range vote_keys_reserved(4) by blast
    then have "vote_keys \<inter> fst ` set (?meta @ puts) = {}"
      by (auto simp: vote_keys_def)
    then show ?thesis by (rule write_sets_durable [OF assms(1) w])
  qed simp
qed

lemma ParseSnapshotState_keys:
  "ParseSnapshotState P data = Inr sc \<Longrightarrow> snapshot_keys_ok (sc_entries sc) (sc_applied_requests sc)"
  by (auto simp: ParseSnapshotState_def rbind_Inr_iff parse_entries_iff parse_applied_iff
      snapshot_keys_ok_def comp_def split: option.splits)

lemma ApplySnapshot_durable:
  assumes "rocksdb_ok R \<alpha>" and "ApplySnapshot P R sc t v a b s st l d = (r, d')"
    and keys: "snapshot_keys_ok (sc_entries sc) (sc_applied_requests sc)"
  shows "durable (\<alpha> d') \<in> {durable (\<alpha> d), (t, v)}"
proof -
  let ?req = "map (\<lambda>(key, value). (''__raft/client/'' @ key, value)) (sc_applied_requests sc)"
  have "d' = d \<or> (\<exists>metadata data puts dels. log_puts P s l = Inr puts \<and>
      WriteAtomically R (state_puts t v a b s st @
        ([(''__raft/snapshot_metadata'', metadata), (''__raft/snapshot_data'', data)] @
         sc_entries sc @ ?req @ puts)) dels d = (r, d'))"
    using assms(2)
    by (auto simp: ApplySnapshot_def mbind_app Let_def split: sum.splits if_splits)
  then show ?thesis
  proof (elim disjE exE conjE)
    fix metadata data puts dels
    assume puts: "log_puts P s l = Inr puts"
      and w: "WriteAtomically R (state_puts t v a b s st @
        ([(''__raft/snapshot_metadata'', metadata), (''__raft/snapshot_data'', data)] @
         sc_entries sc @ ?req @ puts)) dels d = (r, d')"
    have "vote_keys \<inter> fst ` set puts = {}"
      using log_puts_range [OF puts] vote_keys_reserved(4) by blast
    moreover have "vote_keys \<inter> fst ` set (sc_entries sc) = {}"
      using keys vote_keys_reserved(1) by (force simp: snapshot_keys_ok_def)
    moreover have "vote_keys \<inter> fst ` set ?req = {}"
      by (auto simp: vote_keys_def)
    ultimately have "vote_keys \<inter> fst ` set ([(''__raft/snapshot_metadata'', metadata),
        (''__raft/snapshot_data'', data)] @ sc_entries sc @ ?req @ puts) = {}"
      unfolding set_append image_Un by (auto simp: vote_keys_def)
    then show ?thesis by (rule write_sets_durable [OF assms(1) w])
  qed simp
qed

lemma ApplyAtomically_durable:
  assumes "rocksdb_ok R \<alpha>" and "ApplyAtomically P R c i j d = (r, d')"
  shows "durable (\<alpha> d') = durable (\<alpha> d)"
proof -
  have "\<alpha> d' = \<alpha> d \<or> apply_contents P c i j (\<alpha> d) = Some (\<alpha> d')"
    using ApplyAtomically_returns [OF assms(1)] ApplyAtomically_throws [OF assms(1)] assms(2)
    by (cases r) blast+
  then show ?thesis
    using apply_contents_frame [of P c i j "\<alpha> d" "\<alpha> d'"] vote_keys_reserved
    by (elim disjE) (auto intro!: durable_cong simp: vote_keys_def)
qed

section \<open>Predicates that follow the durable vote\<close>

text \<open>
  \<open>write_ok \<alpha> P\<close>: the predicate survives a change of the store that leaves the durable vote
  alone or sets it to the vote in memory. Every write of the node is such a change.
\<close>

definition write_ok :: "('db \<Rightarrow> contents) \<Rightarrow> ('db node \<Rightarrow> bool) \<Rightarrow> bool" where
  "write_ok \<alpha> P \<longleftrightarrow> (\<forall>n. P n \<longrightarrow>
     (\<forall>d. durable (\<alpha> d) \<in> {durable (\<alpha> (db n)), vote_of n} \<longrightarrow> P (n\<lparr>db := d\<rparr>)) \<and>
     (\<forall>x. P (n\<lparr>last_applied := x\<rparr>)) \<and> (\<forall>x. P (n\<lparr>snapshot_index := x\<rparr>)) \<and>
     (\<forall>x. P (n\<lparr>snapshot_term := x\<rparr>)) \<and> (\<forall>x. P (n\<lparr>snapshot_data := x\<rparr>)) \<and>
     (\<forall>x. P (n\<lparr>log := x\<rparr>)) \<and> (\<forall>x. P (n\<lparr>snapshot_in_progress := x\<rparr>)) \<and>
     (\<forall>x. P (n\<lparr>commit_index := x\<rparr>)))"

lemma write_okD:
  assumes "write_ok \<alpha> P" and "P n"
  shows "durable (\<alpha> d) \<in> {durable (\<alpha> (db n)), vote_of n} \<Longrightarrow> P (n\<lparr>db := d\<rparr>)"
    "P (n\<lparr>last_applied := u\<rparr>)" "P (n\<lparr>snapshot_index := u\<rparr>)" "P (n\<lparr>snapshot_term := u\<rparr>)"
    "P (n\<lparr>snapshot_data := sd\<rparr>)" "P (n\<lparr>log := l\<rparr>)" "P (n\<lparr>snapshot_in_progress := b\<rparr>)"
    "P (n\<lparr>commit_index := u\<rparr>)"
  using assms unfolding write_ok_def by blast+

lemma writes_PersistState:
  assumes "rocksdb_ok (env_rocks E) \<alpha>" and "write_ok \<alpha> P"
  shows "preserves P (Node_PersistState E)"
proof (rule preservesI)
  fix n :: "'a node"
  assume n: "P n"
  obtain r d where run: "PersistState (env_rocks E) (current_term n) (voted_for n) (commit_index n)
      (last_applied n) (snapshot_index n) (snapshot_term n) (db n) = (r, d)" by fastforce
  have "P (n\<lparr>db := d\<rparr>)"
    using PersistState_durable(1) [OF assms(1) run]
    by (intro write_okD(1) [OF assms(2) n]) (simp add: vote_of_def)
  then show "P (snd (Node_PersistState E n))"
    by (simp add: Node_PersistState_def on_db_def run)
qed

lemma writes_PersistLog:
  assumes "rocksdb_ok (env_rocks E) \<alpha>" and "write_ok \<alpha> P"
  shows "preserves P (Node_PersistLog E)"
proof (rule preservesI)
  fix n :: "'a node"
  assume n: "P n"
  obtain r d where run: "PersistLog (env_pb E) (env_rocks E) (snapshot_index n) (log n) (db n) = (r, d)"
    by fastforce
  have "P (n\<lparr>db := d\<rparr>)"
    using PersistLog_durable [OF assms(1) run] by (intro write_okD(1) [OF assms(2) n]) simp
  then show "P (snd (Node_PersistLog E n))"
    by (simp add: Node_PersistLog_def on_db_def run)
qed

lemma writes_TakeSnapshot:
  assumes "rocksdb_ok (env_rocks E) \<alpha>" and "write_ok \<alpha> P"
  shows "preserves P (TakeSnapshot E)"
proof (rule preservesI)
  fix n :: "'a node"
  assume n: "P n"
  show "P (snd (TakeSnapshot E n))"
  proof (cases rule: TakeSnapshot_cases [of E n])
    case (fails e)
    with n show ?thesis by simp
  next
    case (writes entries requests metadata data)
    obtain r d where run: "PersistSnapshot (env_pb E) (env_rocks E) (current_term n) (voted_for n)
        (commit_index n) (last_applied n) (commit_index n) (TermAt n (commit_index n)) metadata data
        (drop (unat (commit_index n - snapshot_index n)) (log n)) (db n) = (r, d)" by fastforce
    have d: "P (n\<lparr>db := d\<rparr>)"
      using PersistSnapshot_durable [OF assms(1) run]
      by (intro write_okD(1) [OF assms(2) n]) (simp add: vote_of_def)
    have "P (n\<lparr>db := d, snapshot_index := a, snapshot_term := b, snapshot_data := c, log := l\<rparr>)" for a b c l
      by (intro write_okD(3-6) [OF assms(2)] d)
    with d show ?thesis by (simp add: writes(7) run split: sum.split)
  qed
qed

lemma writes_ApplyCommitted:
  assumes "rocksdb_ok (env_rocks E) \<alpha>" and "write_ok \<alpha> P"
  shows "preserves P (ApplyCommitted E)"
proof (rule preserves_ApplyCommitted_parts)
  show "P (n\<lparr>db := snd (ApplyAtomically (env_pb E) (env_rocks E) c i j (db n))\<rparr>)" if "P n" for n c i j
  proof -
    obtain r d where run: "ApplyAtomically (env_pb E) (env_rocks E) c i j (db n) = (r, d)" by fastforce
    then show ?thesis
      using ApplyAtomically_durable [OF assms(1) run] by (simp add: write_okD(1) [OF assms(2) that])
  qed
qed (auto intro: write_okD(2,7) [OF assms(2)] writes_PersistState [OF assms] writes_TakeSnapshot [OF assms])

lemma writes_install_complete:
  assumes "rocksdb_ok (env_rocks E) \<alpha>" and "write_ok \<alpha> P"
  shows "preserves P (install_complete E)"
proof (rule preservesI)
  fix n :: "'a node"
  assume n: "P n"
  consider e where "ParseSnapshotState (env_pb E) (incoming_snapshot_data n) = Inl e"
    | sc e where "ParseSnapshotState (env_pb E) (incoming_snapshot_data n) = Inr sc" "snapshot_suffix n = Inl e"
    | sc l where "ParseSnapshotState (env_pb E) (incoming_snapshot_data n) = Inr sc" "snapshot_suffix n = Inr l"
    by (metis sumE)
  then show "P (snd (install_complete E n))"
  proof cases
    case (3 sc l)
    let ?ci = "max (commit_index n) (incoming_snapshot_index n)"
    let ?set = "\<lambda>m. m\<lparr>snapshot_index := incoming_snapshot_index m, snapshot_term := incoming_snapshot_term m,
      snapshot_data := incoming_snapshot_data m, log := l, commit_index := ?ci,
      last_applied := incoming_snapshot_index m\<rparr>"
    obtain r d where run: "ApplySnapshot (env_pb E) (env_rocks E) sc (current_term n) (voted_for n) ?ci
        (incoming_snapshot_index n) (incoming_snapshot_index n) (incoming_snapshot_term n) l (db n) = (r, d)"
      by fastforce
    have d: "P (n\<lparr>db := d\<rparr>)"
      using ApplySnapshot_durable [OF assms(1) run ParseSnapshotState_keys [OF 3(1)]]
      by (intro write_okD(1) [OF assms(2) n]) (simp add: vote_of_def)
    have "preserves P (mdo [mput ?set, ApplyCommitted E])"
      by (intro pres preserves_mput writes_ApplyCommitted [OF assms] write_okD(2-8) [OF assms(2)])
    from preserves_run [OF this d] d show ?thesis
      by (cases r) (simp_all add: install_complete_def mbind_app mseq_app on_db_def 3 run Let_def)
  qed (use n in \<open>simp_all add: install_complete_def mbind_app\<close>)
qed

section \<open>The vote in memory only moves upwards\<close>

text \<open>This needs nothing of the store and of what the messages say.\<close>

definition voted_since :: "u64 \<times> i64 \<Rightarrow> 'db node \<Rightarrow> bool" where
  "voted_since v n \<longleftrightarrow> vote_le v (vote_of n)"

lemma voted_since_up: "voted_since v n \<Longrightarrow> vote_le (vote_of n) (vote_of m) \<Longrightarrow> voted_since v m"
  unfolding voted_since_def by (rule vote_le_trans)

lemma voted_since_frame:
  "quiet (\<lambda>_. True) (voted_since v)" "store_quiet (voted_since v)"
  "preserves (voted_since v) (Node_PersistState E)" "preserves (voted_since v) (Node_PersistLog E)"
proof -
  show "quiet (\<lambda>_. True) (voted_since v)" and s: "store_quiet (voted_since v)"
    by (simp_all add: quiet_def store_quiet_def voted_since_def vote_of_def)
  show "preserves (voted_since v) (Node_PersistState E)" "preserves (voted_since v) (Node_PersistLog E)"
    by (rule preserves_Node_PersistState preserves_Node_PersistLog, erule store_quietD(1) [OF s])+
qed

lemma voted_since_free:
  assumes "voted_since v n"
  shows "voted_since v (n\<lparr>commit_index := k\<rparr>)" "voted_since v (n\<lparr>match_index := mi\<rparr>)"
    "voted_since v (n\<lparr>active_read_index := ar\<rparr>)" "voted_since v (n\<lparr>pending_read_indexes := pr\<rparr>)"
    "voted_since v (n\<lparr>incoming_snapshot_index := k\<rparr>)" "voted_since v (n\<lparr>incoming_snapshot_term := k\<rparr>)"
    "voted_since v (n\<lparr>incoming_snapshot_data := bytes\<rparr>)" "voted_since v (n\<lparr>incoming_snapshot_active := b\<rparr>)"
    "voted_since v (n\<lparr>granted_votes := g\<rparr>)" "voted_since v (n\<lparr>votes_received := w\<rparr>)"
    "voted_since v (n\<lparr>role := r, leader := b\<rparr>)"
  using assms by (simp_all add: voted_since_def vote_of_def)

lemma voted_since_StepDown:
  assumes "voted_since v n"
  shows "voted_since v (snd (StepDown E t n))"
proof (rule StepDown_parts [OF voted_since_frame(1)])
  assume "current_term n < t"
  then have "voted_since v (n\<lparr>current_term := t, voted_for := - 1\<rparr>)"
    by (intro voted_since_up [OF assms]) (simp add: vote_le_def vote_of_def)
  from preserves_run [OF voted_since_frame(3) this]
  show "voted_since v (snd (mseq (mput (\<lambda>n. n\<lparr>current_term := t, voted_for := - 1\<rparr>)) (Node_PersistState E) n))"
    by (simp add: mseq_app)
qed (simp_all add: assms voted_since_free)

lemma voted_since_BecomeLeader: "preserves (voted_since v) (BecomeLeader E)"
  by (intro preserves_SendAppend [OF voted_since_frame(1)] preservesI preserves_BecomeLeader [OF voted_since_frame(1)] makes_True voted_since_free)

lemma voted_since_grant:
  assumes "voted_since v n" and "grants_vote n q"
  shows "voted_since v (n\<lparr>voted_for := rv_candidate_id q\<rparr>)"
  using assms(2) by (intro voted_since_up [OF assms(1)]) (auto simp: grants_vote_def vote_le_def vote_of_def)

lemma voted_since_HandleRequestVote: "preserves (voted_since v) (HandleRequestVote E c payload rid)"
proof -
  note q = voted_since_frame(1) [of v]
  have down: "preserves (voted_since v) (mget (\<lambda>n. mwhen (current_term n < t) (StepDown E t)))" for t
    by (rule preserves_mget_at) (simp add: mwhen_def voted_since_StepDown)
  have "preserves (voted_since v) (mdo [Node_PersistState E, ResetElectionTimer])"
    by (intro pres frame [OF q] voted_since_frame)
  then have "voted_since v (snd (mwhen (grants_vote n q) (mdo [mput (\<lambda>n. n\<lparr>voted_for := rv_candidate_id q\<rparr>),
      Node_PersistState E, ResetElectionTimer]) n))" if "voted_since v n" for n q
    using that voted_since_grant [OF that]
    by (simp add: mwhen_def mdo.simps(2) [of "mput _"] mseq_Inr [OF mput_app] preserves_run del: mdo.simps(2))
  then have voting: "preserves (voted_since v) (mget (\<lambda>n.
           let grant = grants_vote n q in
           mseq (mwhen grant (mdo [
             mput (\<lambda>n. n\<lparr>voted_for := rv_candidate_id q\<rparr>),
             Node_PersistState E,
             ResetElectionTimer])) (k grant)))"
    if "\<And>g. preserves (voted_since v) (k g)" for q k
    unfolding Let_def using that by (intro preserves_mget_at snd_mseq [of "voted_since v"])
  show ?thesis
    unfolding HandleRequestVote_def
  proof (rule preserves_case_option)
    show "preserves (voted_since v) (emit (Shutdown c))"
      by (intro pres quiet_trace [OF q])
  qed (rule preserves_mseq [OF down voting], intro preserves_mget frame [OF q] makes_True)
qed

interpretation since: node_invariant E "\<lambda>_ _. True" "\<lambda>_. True" "voted_since v" for E v
proof -
  note q = voted_since_frame(1) [of v] and s = voted_since_frame(2) [of v]
  have applies: "preserves (voted_since v) (ApplyCommitted E)"
    by (intro store_frame s)
  have rq: "read_quiet E (\<lambda>_. True) (voted_since v)"
    by (simp add: read_quiet_def q applies voted_since_free)
  note reads = preserves_read_index [OF rq] preserves_read_messages [OF rq voted_since_StepDown]
  show "node_invariant E (\<lambda>_ _. True) (\<lambda>_. True) (voted_since v)"
  proof
    show "preserves (voted_since v) (HandleRequestVoteResponse E c (msg_payload rpc) (msg_request_id rpc))" for c rpc
      unfolding HandleRequestVoteResponse_def Let_def
      by (intro pres voted_since_BecomeLeader preserves_mput voted_since_free preservesI voted_since_StepDown)
    show "preserves (voted_since v) (SendRequestVoteToPeer E peer)" for peer
      by (intro frame [OF q] makes_True)
  qed (simp_all add: q applies reads voted_since_StepDown voted_since_frame voted_since_free store_quietD [OF s]
         voted_since_HandleRequestVote preserves_install_complete [OF s])
qed

lemma voted_since_campaign:
  assumes "voted_since v n" and "current_term n \<noteq> - 1"
  shows "voted_since v (snd (on_election_timeout E n))"
proof -
  let ?m = "n\<lparr>role := Candidate, leader := False, current_term := current_term n + 1,
       voted_for := u64_of_i32 (server_id n), votes_received := 1, granted_votes := {server_id n}\<rparr>"
  note q = voted_since_frame(1) [of v]
  have "current_term n < current_term n + 1"
    using assms(2) by (simp add: word_less_nat_alt unat_add_one_max)
  then have "voted_since v ?m"
    by (intro voted_since_up [OF assms(1)]) (simp add: vote_le_def vote_of_def)
  moreover have "preserves (voted_since v) (mdo [Node_PersistState E, ResetElectionTimer, SendRequestVotes E,
       mget (\<lambda>n. mwhen (quorum n \<le> votes_received n) (BecomeLeader E))])"
    by (intro pres frame [OF q] makes_True voted_since_frame voted_since_BecomeLeader)
  ultimately have "voted_since v (snd (BecomeCandidate E n))"
    unfolding BecomeCandidate_def mdo.simps(2) by (intro snd_mseq [of "voted_since v"]) simp_all
  then show ?thesis
    using assms(1) by (simp add: on_election_timeout_def mwhen_def)
qed

end
