(* ===== verification/Raft_Ballots.thy ===== *)
theory Raft_Ballots
  imports Raft_Vote
begin

text \<open>
  The votes a node gives away in its messages. A ballot is a granted RequestVote response that the
  node sent, read as the term it carries and the member at the other end of the connection. The
  predicate \<open>votes_ok\<close> says of a run of the node that started in \<open>n0\<close>: the ballots of the run
  stand in the order \<open>vote_le\<close> between the vote that was on disk at the start and the vote that
  is on disk now, and what the node says of itself in vote messages is true. Every event keeps
  it, for every behaviour of the store that the documentation of RocksDB allows, so it also
  describes a run that a crash cuts short.
\<close>

section \<open>Vote messages in the history\<close>

definition rpc_in :: "codecs \<Rightarrow> string \<Rightarrow> RaftRpc option" where
  "rpc_in pb f = (case next_frame f of Frame_ready payload _ \<Rightarrow> parse (rpc_pb pb) payload | _ \<Rightarrow> None)"

fun ballot :: "codecs \<Rightarrow> (conn \<Rightarrow> i64) \<Rightarrow> io \<Rightarrow> (u64 \<times> i64) list" where
  "ballot pb peer (Send c f) = (case rpc_in pb f of
       None \<Rightarrow> []
     | Some m \<Rightarrow> if msg_type m = REQUEST_VOTE_RESPONSE
         then (case parse (request_vote_response_pb pb) (msg_payload m) of
             None \<Rightarrow> []
           | Some p \<Rightarrow> if rvr_vote_granted p then [(rvr_term p, peer c)] else [])
         else [])"
| "ballot pb peer _ = []"

definition ballots :: "codecs \<Rightarrow> (conn \<Rightarrow> i64) \<Rightarrow> io list \<Rightarrow> (u64 \<times> i64) list" where
  "ballots pb peer tr = concat (map (ballot pb peer) tr)"

text \<open>A candidate names itself in its requests, and a voter in its responses.\<close>

fun honest :: "codecs \<Rightarrow> i32 \<Rightarrow> io \<Rightarrow> bool" where
  "honest pb me (Send c f) \<longleftrightarrow> (case rpc_in pb f of
       None \<Rightarrow> True
     | Some m \<Rightarrow>
         (msg_type m = REQUEST_VOTE \<longrightarrow> (case parse (request_vote_pb pb) (msg_payload m) of
             None \<Rightarrow> True | Some q \<Rightarrow> rv_candidate_id q = u64_of_i32 me)) \<and>
         (msg_type m = REQUEST_VOTE_RESPONSE \<longrightarrow>
           (case parse (request_vote_response_pb pb) (msg_payload m) of
             None \<Rightarrow> True | Some p \<Rightarrow> rvr_responder_id p = u64_of_i32 me)))"
| "honest pb me _ \<longleftrightarrow> True"

fun no_vote :: "codecs \<Rightarrow> io \<Rightarrow> bool" where
  "no_vote pb (Send c f) \<longleftrightarrow> (case rpc_in pb f of
       None \<Rightarrow> True
     | Some m \<Rightarrow> msg_type m \<noteq> REQUEST_VOTE \<and> msg_type m \<noteq> REQUEST_VOTE_RESPONSE)"
| "no_vote pb _ \<longleftrightarrow> True"

lemma no_vote_entry: "no_vote pb x \<Longrightarrow> honest pb me x \<and> ballot pb peer x = []"
  by (cases x) (auto split: option.splits)

lemma no_vote_other: "(\<And>c f. x \<noteq> Send c f) \<Longrightarrow> no_vote pb x"
  by (cases x) auto

lemma rpc_in_frame:
  assumes "codecs_ok (env_pb E)" and "frame_of E T payload f"
  obtains rid sid where
    "rpc_in (env_pb E) f = Some \<lparr>msg_type = T, msg_request_id = rid, msg_sender_id = sid, msg_payload = payload\<rparr>"
proof -
  obtain rid sid s where s: "serialize (rpc_pb (env_pb E))
      \<lparr>msg_type = T, msg_request_id = rid, msg_sender_id = sid, msg_payload = payload\<rparr> = Some s"
    and f: "Frame s = Inr f" using assms(2) by (auto simp: frame_of_def)
  have "next_frame f = Frame_ready s []"
    using next_frame_Frame [of _ s f "[]"] f by (simp add: Frame_def)
  moreover have "parse (rpc_pb (env_pb E)) s
      = Some \<lparr>msg_type = T, msg_request_id = rid, msg_sender_id = sid, msg_payload = payload\<rparr>"
    using assms(1) s by (intro codec_parse) (simp_all add: codecs_ok_def)
  ultimately show thesis by (intro that) (simp add: rpc_in_def)
qed

lemma makes_no_vote:
  assumes "codecs_ok (env_pb E)" and "T \<noteq> REQUEST_VOTE" and "T \<noteq> REQUEST_VOTE_RESPONSE"
  shows "makes E (no_vote (env_pb E)) T"
  unfolding makes_def
proof (intro allI impI)
  fix c payload f
  assume "frame_of E T payload f"
  then obtain rid sid where "rpc_in (env_pb E) f
      = Some \<lparr>msg_type = T, msg_request_id = rid, msg_sender_id = sid, msg_payload = payload\<rparr>"
    by (rule rpc_in_frame [OF assms(1)])
  with assms(2,3) show "no_vote (env_pb E) (Send c f)" by simp
qed

lemma request_entry:
  assumes "codecs_ok (env_pb E)" and "frame_of E REQUEST_VOTE payload f"
    and "serialize (request_vote_pb (env_pb E)) q = Some payload"
    and "rv_candidate_id q = u64_of_i32 me"
  shows "honest (env_pb E) me (Send c f)" and "ballot (env_pb E) peer (Send c f) = []"
proof -
  obtain rid sid where m: "rpc_in (env_pb E) f = Some \<lparr>msg_type = REQUEST_VOTE,
      msg_request_id = rid, msg_sender_id = sid, msg_payload = payload\<rparr>"
    by (rule rpc_in_frame [OF assms(1,2)])
  have "parse (request_vote_pb (env_pb E)) payload = Some q"
    using assms(1,3) by (intro codec_parse) (simp_all add: codecs_ok_def)
  with m assms(4) show "honest (env_pb E) me (Send c f)" "ballot (env_pb E) peer (Send c f) = []"
    by simp_all
qed

lemma response_entry:
  assumes "codecs_ok (env_pb E)" and "frame_of E REQUEST_VOTE_RESPONSE payload f"
    and "serialize (request_vote_response_pb (env_pb E)) p = Some payload"
    and "rvr_responder_id p = u64_of_i32 me"
  shows "honest (env_pb E) me (Send c f)"
    and "ballot (env_pb E) peer (Send c f) = (if rvr_vote_granted p then [(rvr_term p, peer c)] else [])"
proof -
  obtain rid sid where m: "rpc_in (env_pb E) f = Some \<lparr>msg_type = REQUEST_VOTE_RESPONSE,
      msg_request_id = rid, msg_sender_id = sid, msg_payload = payload\<rparr>"
    by (rule rpc_in_frame [OF assms(1,2)])
  have "parse (request_vote_response_pb (env_pb E)) payload = Some p"
    using assms(1,3) by (intro codec_parse) (simp_all add: codecs_ok_def)
  with m assms(4) show "honest (env_pb E) me (Send c f)"
    "ballot (env_pb E) peer (Send c f) = (if rvr_vote_granted p then [(rvr_term p, peer c)] else [])"
    by simp_all
qed

section \<open>The predicate\<close>

definition votes_ok ::
    "codecs \<Rightarrow> ('db \<Rightarrow> contents) \<Rightarrow> (conn \<Rightarrow> i64) \<Rightarrow> 'db node \<Rightarrow> 'db node \<Rightarrow> bool" where
  "votes_ok pb \<alpha> peer n0 n \<longleftrightarrow>
     server_id n = server_id n0 \<and>
     vote_le (durable (\<alpha> (db n))) (vote_of n) \<and>
     (\<exists>new. trace n = trace n0 @ new \<and> list_all (honest pb (server_id n0)) new \<and>
        sorted_wrt vote_le (durable (\<alpha> (db n0)) # ballots pb peer new @ [durable (\<alpha> (db n))]))"

lemma votes_ok_entry:
  assumes "votes_ok pb \<alpha> peer n0 n" and "honest pb (server_id n) x"
    and "set (ballot pb peer x) \<subseteq> {durable (\<alpha> (db n))}"
  shows "votes_ok pb \<alpha> peer n0 (n\<lparr>trace := trace n @ [x]\<rparr>)"
proof -
  have id: "server_id n = server_id n0" and le: "vote_le (durable (\<alpha> (db n))) (vote_of n)"
    using assms(1) by (simp_all add: votes_ok_def)
  obtain new where new: "trace n = trace n0 @ new" "list_all (honest pb (server_id n0)) new"
    and sorted: "sorted_wrt vote_le (durable (\<alpha> (db n0)) # ballots pb peer new @ [durable (\<alpha> (db n))])"
    using assms(1) by (auto simp: votes_ok_def)
  have "sorted_wrt vote_le (ballot pb peer x)"
    by (cases x) (auto split: option.splits)
  then have "sorted_wrt vote_le
      (durable (\<alpha> (db n0)) # ballots pb peer (new @ [x]) @ [durable (\<alpha> (db n))])"
    using sorted assms(3) by (auto simp: ballots_def sorted_wrt_append)
  moreover have "list_all (honest pb (server_id n0)) (new @ [x])"
    using new assms(2) id by simp
  moreover have "trace (n\<lparr>trace := trace n @ [x]\<rparr>) = trace n0 @ (new @ [x])"
    using new by simp
  ultimately show ?thesis
    unfolding votes_ok_def using id le
    by (intro conjI exI [of _ "new @ [x]"]) (simp_all add: vote_of_def)
qed

lemma votes_ok_cong:
  assumes "votes_ok pb \<alpha> peer n0 n"
    and "server_id m = server_id n" "trace m = trace n" "db m = db n" "vote_of m = vote_of n"
  shows "votes_ok pb \<alpha> peer n0 m"
  using assms by (simp add: votes_ok_def)

lemma votes_ok_vote:
  assumes "votes_ok pb \<alpha> peer n0 n"
    and "server_id m = server_id n" "trace m = trace n" "db m = db n" "vote_le (vote_of n) (vote_of m)"
  shows "votes_ok pb \<alpha> peer n0 m"
  using assms vote_le_trans [of "durable (\<alpha> (db n))" "vote_of n" "vote_of m"] by (simp add: votes_ok_def)

lemma votes_ok_start:
  assumes "vote_le (durable (\<alpha> (db n))) (vote_of n)"
  shows "votes_ok pb \<alpha> peer n n"
  using assms by (auto simp: votes_ok_def ballots_def)

lemma quiet_votes_ok: "quiet (no_vote pb) (votes_ok pb \<alpha> peer n0)"
proof -
  have "votes_ok pb \<alpha> peer n0 (n\<lparr>trace := trace n @ [x]\<rparr>)"
    if "votes_ok pb \<alpha> peer n0 n" "no_vote pb x" for n x
    using that no_vote_entry [OF that(2)] by (intro votes_ok_entry) simp_all
  then show ?thesis
    by (auto simp: quiet_def no_vote_other vote_of_def elim!: votes_ok_cong)
qed

lemma write_ok_votes_ok: "write_ok \<alpha> (votes_ok pb \<alpha> peer n0)"
proof -
  have "votes_ok pb \<alpha> peer n0 (n\<lparr>db := d\<rparr>)"
    if ok: "votes_ok pb \<alpha> peer n0 n" and d: "durable (\<alpha> d) \<in> {durable (\<alpha> (db n)), vote_of n}" for n d
  proof -
    have le: "vote_le (durable (\<alpha> (db n))) (durable (\<alpha> d))" "vote_le (durable (\<alpha> d)) (vote_of n)"
      using ok d by (auto simp: votes_ok_def)
    show ?thesis
      using ok le(2)
      by (auto simp: votes_ok_def vote_of_def sorted_wrt_append intro: vote_le_trans [OF _ le(1)])
  qed
  then show ?thesis
    unfolding write_ok_def by (auto simp: vote_of_def elim!: votes_ok_cong)
qed

section \<open>Every event keeps it\<close>

text \<open>The requests for votes that arrive on a connection name the member at its other end.\<close>

definition asks_for :: "codecs \<Rightarrow> (conn \<Rightarrow> i64) \<Rightarrow> conn \<Rightarrow> RaftRpc \<Rightarrow> bool" where
  "asks_for pb peer c rpc \<longleftrightarrow> (msg_type rpc = REQUEST_VOTE \<longrightarrow>
     (case parse (request_vote_pb pb) (msg_payload rpc) of
        None \<Rightarrow> True | Some q \<Rightarrow> rv_candidate_id q = peer c))"

lemma votes_ok_free:
  assumes "votes_ok pb \<alpha> peer n0 n"
  shows "votes_ok pb \<alpha> peer n0 (n\<lparr>match_index := mi\<rparr>)"
    "votes_ok pb \<alpha> peer n0 (n\<lparr>active_read_index := ar\<rparr>)"
    "votes_ok pb \<alpha> peer n0 (n\<lparr>pending_read_indexes := pr\<rparr>)"
    "votes_ok pb \<alpha> peer n0 (n\<lparr>incoming_snapshot_index := k\<rparr>)"
    "votes_ok pb \<alpha> peer n0 (n\<lparr>incoming_snapshot_term := k\<rparr>)"
    "votes_ok pb \<alpha> peer n0 (n\<lparr>incoming_snapshot_data := bytes\<rparr>)"
    "votes_ok pb \<alpha> peer n0 (n\<lparr>incoming_snapshot_active := b\<rparr>)"
    "votes_ok pb \<alpha> peer n0 (n\<lparr>role := r, leader := b\<rparr>)"
    "votes_ok pb \<alpha> peer n0 (n\<lparr>granted_votes := g\<rparr>)"
    "votes_ok pb \<alpha> peer n0 (n\<lparr>votes_received := v\<rparr>)"
  using assms by (simp_all add: votes_ok_def vote_of_def)

lemma Node_PersistState_cases:
  assumes "rocksdb_ok (env_rocks E) \<alpha>"
  obtains r d where "Node_PersistState E n = (r, n\<lparr>db := d\<rparr>)" and "r = Inr () \<longrightarrow> durable (\<alpha> d) = vote_of n"
proof -
  obtain r d where run: "PersistState (env_rocks E) (current_term n) (voted_for n) (commit_index n)
      (last_applied n) (snapshot_index n) (snapshot_term n) (db n) = (r, d)" by fastforce
  show thesis
    using that [of r d] PersistState_durable(2) [OF assms run] run
    by (simp add: Node_PersistState_def on_db_def vote_of_def)
qed

lemma votes_ok_asks:
  assumes "codecs_ok (env_pb E)"
  shows "preserves (votes_ok (env_pb E) \<alpha> peer n0) (SendRequestVoteToPeer E p)"
proof (rule preservesI)
  fix n :: "'a node"
  assume n: "votes_ok (env_pb E) \<alpha> peer n0 n"
  let ?P = "votes_ok (env_pb E) \<alpha> peer n0" and ?q = "\<lparr>rv_term = current_term n,
    rv_candidate_id = u64_of_i32 (server_id n), rv_last_log_index = LastIndex n, rv_last_log_term = LastTerm n\<rparr>"
  note q = quiet_votes_ok [of "env_pb E" \<alpha> peer n0]
  have "preserves ?P (SendRpc E c REQUEST_VOTE payload 0)"
    if "serialize (request_vote_pb (env_pb E)) ?q = Some payload" for c payload
  proof (rule preserves_SendRpc_frame)
    fix m :: "'a node" and c f
    assume m: "?P m" and f: "frame_of E REQUEST_VOTE payload f"
    have "server_id m = server_id n" using m n by (simp add: votes_ok_def)
    then show "?P (m\<lparr>trace := trace m @ [Send c f]\<rparr>)"
      using request_entry [OF assms f that] by (intro votes_ok_entry m) simp_all
  qed (rule quietD [OF q])
  then have "preserves ?P (mbind (SendRpcToPeer E p REQUEST_VOTE payload 0) (\<lambda>id.
           mput (\<lambda>n. n\<lparr>vote_request_id := (vote_request_id n)(p := id)\<rparr>)))"
    if "serialize (request_vote_pb (env_pb E)) ?q = Some payload" for payload
    unfolding SendRpcToPeer_def using that by (intro pres preserves_mput quietD [OF q])
  then show "?P (snd (SendRequestVoteToPeer E p n))"
    using n by (auto simp: SendRequestVoteToPeer_def intro: preserves_run split: option.split)
qed

lemma votes_ok_persist:
  assumes "rocksdb_ok (env_rocks E) \<alpha>" and "votes_ok pb \<alpha> peer n0 n" and "vote_le (vote_of n) (t, v)"
  shows "votes_ok pb \<alpha> peer n0 (snd (Node_PersistState E (n\<lparr>current_term := t, voted_for := v\<rparr>)))"
  using assms(3)
  by (intro preserves_run [OF writes_PersistState [OF assms(1) write_ok_votes_ok]] votes_ok_vote [OF assms(2)])
     (simp_all add: vote_of_def)

lemma votes_ok_StepDown:
  assumes "rocksdb_ok (env_rocks E) \<alpha>" and "votes_ok pb \<alpha> peer n0 n" and "current_term n \<le> t"
  shows "votes_ok pb \<alpha> peer n0 (snd (StepDown E t n))"
proof (rule StepDown_parts [OF quiet_votes_ok])
  assume "current_term n < t"
  then have "vote_le (vote_of n) (t, - 1)" by (simp add: vote_le_def vote_of_def)
  from votes_ok_persist [OF assms(1,2) this]
  show "votes_ok pb \<alpha> peer n0
      (snd (mseq (mput (\<lambda>n. n\<lparr>current_term := t, voted_for := - 1\<rparr>)) (Node_PersistState E) n))"
    by (simp add: mseq_app)
qed (use assms(2) votes_ok_free in auto)

text \<open>The reply to a request for a vote: a vote that it grants is the one on disk.\<close>

lemma votes_ok_reply:
  assumes "codecs_ok (env_pb E)" and n: "votes_ok (env_pb E) \<alpha> peer n0 n"
    and grant: "g \<Longrightarrow> durable (\<alpha> (db n)) = (current_term n, peer c)"
  shows "votes_ok (env_pb E) \<alpha> peer n0 (snd (reply E c REQUEST_VOTE_RESPONSE
    (serialize (request_vote_response_pb (env_pb E))
      \<lparr>rvr_term = current_term n, rvr_vote_granted = g, rvr_responder_id = u64_of_i32 (server_id n)\<rparr>) rid n))"
proof -
  let ?p = "\<lparr>rvr_term = current_term n, rvr_vote_granted = g, rvr_responder_id = u64_of_i32 (server_id n)\<rparr>"
  let ?P = "\<lambda>m. votes_ok (env_pb E) \<alpha> peer n0 m \<and> db m = db n"
  have "preserves ?P (SendRpc E (Some c) REQUEST_VOTE_RESPONSE payload rid)"
    if "serialize (request_vote_response_pb (env_pb E)) ?p = Some payload" for payload
  proof (rule preserves_SendRpc_frame)
    fix m :: "'a node" and c' f
    assume m: "?P m" and f: "frame_of E REQUEST_VOTE_RESPONSE payload f" and c': "Some c = Some c'"
    have "server_id m = server_id n" using m n by (simp add: votes_ok_def)
    then show "?P (m\<lparr>trace := trace m @ [Send c' f]\<rparr>)"
      using response_entry [OF assms(1) f that] m grant c' by (auto intro!: votes_ok_entry)
  qed (use quietD [OF quiet_votes_ok] in auto)
  then have "?P (snd (reply E c REQUEST_VOTE_RESPONSE (serialize (request_vote_response_pb (env_pb E)) ?p) rid n))"
    using n by (auto simp: reply_def mseq_app dest: preservesD split: option.split prod.split sum.split)
  then show ?thesis by simp
qed

lemma votes_ok_grant:
  assumes store: "rocksdb_ok (env_rocks E) \<alpha>" and codecs: "codecs_ok (env_pb E)"
    and n: "votes_ok (env_pb E) \<alpha> peer n0 n" and grant: "grants_vote n q"
    and ask: "rv_candidate_id q = peer c"
  shows "votes_ok (env_pb E) \<alpha> peer n0 (snd (mseq (mdo [mput (\<lambda>n. n\<lparr>voted_for := rv_candidate_id q\<rparr>),
      Node_PersistState E, ResetElectionTimer]) (mget (\<lambda>n. reply E c REQUEST_VOTE_RESPONSE
               (serialize (request_vote_response_pb (env_pb E))
                 \<lparr>rvr_term = current_term n, rvr_vote_granted = True,
                  rvr_responder_id = u64_of_i32 (server_id n)\<rparr>) rid)) n))"
    (is "?P (snd (mseq _ ?answer n))")
proof -
  let ?m = "n\<lparr>voted_for := peer c\<rparr>"
  let ?Q = "\<lambda>m. ?P m \<and> durable (\<alpha> (db m)) = (current_term m, peer c)"
  obtain r d where run: "Node_PersistState E ?m = (r, ?m\<lparr>db := d\<rparr>)"
    and durable: "r = Inr () \<longrightarrow> durable (\<alpha> d) = vote_of ?m"
    by (rule Node_PersistState_cases [OF store, where n = ?m])
  have "vote_le (vote_of n) (current_term n, peer c)"
    using grant ask by (auto simp: grants_vote_def vote_le_def vote_of_def)
  from votes_ok_persist [OF store n this] have kept: "?P (?m\<lparr>db := d\<rparr>)" by (simp add: run)
  have "quiet (no_vote (env_pb E)) ?Q"
    using quiet_votes_ok [of "env_pb E" \<alpha> peer n0] unfolding quiet_def by simp
  then have timer: "preserves ?Q ResetElectionTimer" by (rule frame)
  have "?P (snd (mseq ResetElectionTimer ?answer (?m\<lparr>db := d\<rparr>)))" if "r = Inr ()"
  proof -
    obtain r' m' where reset: "ResetElectionTimer (?m\<lparr>db := d\<rparr>) = (r', m')" by fastforce
    have "?Q (?m\<lparr>db := d\<rparr>)" using kept durable that by (simp add: vote_of_def)
    from preservesD [OF timer reset this] show ?thesis
      using votes_ok_reply [OF codecs, of \<alpha> peer n0 m' True c rid]
      by (cases r') (simp_all add: mseq_app reset)
  qed
  then show ?thesis
    using kept run ask by (cases r) (simp_all add: mseq_app split: prod.splits sum.splits)
qed

lemma votes_ok_HandleRequestVote:
  assumes store: "rocksdb_ok (env_rocks E) \<alpha>" and codecs: "codecs_ok (env_pb E)"
    and ask: "\<And>q. parse (request_vote_pb (env_pb E)) payload = Some q \<Longrightarrow> rv_candidate_id q = peer c"
  shows "preserves (votes_ok (env_pb E) \<alpha> peer n0) (HandleRequestVote E c payload rid)"
    (is "preserves ?P _")
proof -
  note q = quiet_votes_ok [of "env_pb E" \<alpha> peer n0]
  have down: "preserves ?P (mget (\<lambda>n. mwhen (current_term n < t) (StepDown E t)))" for t
    by (rule preserves_mget_at) (simp add: mwhen_def votes_ok_StepDown [OF store])
  have vote: "preserves ?P (mget (\<lambda>n.
           let grant = grants_vote n q in
           mseq (mwhen grant (mdo [
             mput (\<lambda>n. n\<lparr>voted_for := rv_candidate_id q\<rparr>),
             Node_PersistState E,
             ResetElectionTimer]))
           (mget (\<lambda>n.
             reply E c REQUEST_VOTE_RESPONSE
               (serialize (request_vote_response_pb (env_pb E))
                 \<lparr>rvr_term = current_term n, rvr_vote_granted = grant,
                  rvr_responder_id = u64_of_i32 (server_id n)\<rparr>) rid))))"
    if "rv_candidate_id q = peer c" for q
  proof (rule preserves_mget_at)
    fix n :: "'a node"
    assume n: "?P n"
    show "?P (snd ((let grant = grants_vote n q in
           mseq (mwhen grant (mdo [
             mput (\<lambda>n. n\<lparr>voted_for := rv_candidate_id q\<rparr>),
             Node_PersistState E,
             ResetElectionTimer]))
           (mget (\<lambda>n.
             reply E c REQUEST_VOTE_RESPONSE
               (serialize (request_vote_response_pb (env_pb E))
                 \<lparr>rvr_term = current_term n, rvr_vote_granted = grant,
                  rvr_responder_id = u64_of_i32 (server_id n)\<rparr>) rid))) n))"
    proof (cases "grants_vote n q")
      case True
      show ?thesis
        unfolding Let_def mwhen_def if_P [OF True] using True
        by (simp only: simp_thms votes_ok_grant [OF store codecs n True that])
    next
      case False
      then show ?thesis
        using votes_ok_reply [OF codecs n, of False c rid] by (simp add: mwhen_def mseq_app)
    qed
  qed
  show ?thesis
    unfolding HandleRequestVote_def using ask
    by (intro pres quiet_trace [OF q] down vote) simp
qed

lemma votes_ok_BecomeLeader:
  assumes "codecs_ok (env_pb E)" and "votes_ok (env_pb E) \<alpha> peer n0 n"
  shows "votes_ok (env_pb E) \<alpha> peer n0 (snd (BecomeLeader E n))"
  by (intro preserves_BecomeLeader [OF quiet_votes_ok] preserves_SendAppend [OF quiet_votes_ok] makes_no_vote assms
      votes_ok_free) simp_all

lemma votes_ok_HandleRequestVoteResponse:
  assumes "rocksdb_ok (env_rocks E) \<alpha>" and "codecs_ok (env_pb E)"
  shows "preserves (votes_ok (env_pb E) \<alpha> peer n0) (HandleRequestVoteResponse E c payload rid)"
    (is "preserves ?P _")
proof -
  have "preserves ?P (BecomeLeader E)"
    by (intro preservesI votes_ok_BecomeLeader assms)
  then have count: "preserves ?P (mdo [
           mput (\<lambda>n. n\<lparr>granted_votes := insert responder (granted_votes n)\<rparr>),
           mput (\<lambda>n. n\<lparr>votes_received := card (granted_votes n)\<rparr>),
           mget (\<lambda>n. mwhen (quorum n \<le> votes_received n) (BecomeLeader E))])" for responder
    by (intro pres preserves_mput votes_ok_free)
  show ?thesis
    unfolding HandleRequestVoteResponse_def Let_def
    by (intro preserves_case_option preserves_ret preserves_mget_at)
       (simp add: votes_ok_StepDown [OF assms(1)] preserves_run [OF count] del: mdo.simps)
qed

lemma votes_ok_campaign:
  assumes store: "rocksdb_ok (env_rocks E) \<alpha>" and codecs: "codecs_ok (env_pb E)"
    and n: "votes_ok (env_pb E) \<alpha> peer n0 n" and bound: "current_term n \<noteq> - 1"
  shows "votes_ok (env_pb E) \<alpha> peer n0 (snd (on_election_timeout E n))"
proof -
  let ?P = "votes_ok (env_pb E) \<alpha> peer n0"
  let ?m = "n\<lparr>role := Candidate, leader := False, current_term := current_term n + 1,
       voted_for := u64_of_i32 (server_id n), votes_received := 1, granted_votes := {server_id n}\<rparr>"
  note q = quiet_votes_ok [of "env_pb E" \<alpha> peer n0]
  have "current_term n < current_term n + 1"
    using bound by (simp add: word_less_nat_alt unat_add_one_max)
  then have "?P ?m"
    by (intro votes_ok_vote [OF n]) (simp_all add: vote_le_def vote_of_def)
  moreover have "preserves ?P (mdo [Node_PersistState E, ResetElectionTimer, SendRequestVotes E,
       mget (\<lambda>n. mwhen (quorum n \<le> votes_received n) (BecomeLeader E))])"
    unfolding SendRequestVotes_def
    by (intro pres frame [OF q] votes_ok_asks codecs writes_PersistState [OF store write_ok_votes_ok]
        preservesI votes_ok_BecomeLeader)
  ultimately have "?P (snd (BecomeCandidate E n))"
    unfolding BecomeCandidate_def mdo.simps(2) by (intro snd_mseq [of ?P]) simp_all
  then show ?thesis
    using n by (simp add: on_election_timeout_def mwhen_def)
qed

text \<open>The laws of the interface hold for the predicate on every event but an election timeout.\<close>

lemma votes_ok_invariant:
  assumes store: "rocksdb_ok (env_rocks E) \<alpha>" and codecs: "codecs_ok (env_pb E)"
  shows "node_invariant E (asks_for (env_pb E) peer) (no_vote (env_pb E)) (votes_ok (env_pb E) \<alpha> peer n0)"
    (is "node_invariant E ?ok ?B ?P")
proof -
  note q = quiet_votes_ok [of "env_pb E" \<alpha> peer n0]
    and w = write_ok_votes_ok [of \<alpha> "env_pb E" peer n0]
  have applies: "preserves ?P (ApplyCommitted E)"
    by (rule writes_ApplyCommitted [OF store w])
  have rq: "read_quiet E ?B ?P"
    using votes_ok_free by (auto simp: read_quiet_def q applies makes_no_vote [OF codecs])
  note reads = preserves_read_index [OF rq] preserves_read_messages [OF rq votes_ok_StepDown [OF store]]
  show ?thesis
  proof
    fix c rpc
    assume "?ok c rpc" and "msg_type rpc = REQUEST_VOTE"
    then show "preserves ?P (HandleRequestVote E c (msg_payload rpc) (msg_request_id rpc))"
      by (intro votes_ok_HandleRequestVote store codecs) (simp add: asks_for_def)
  qed (use votes_ok_free write_okD [OF w] in \<open>simp_all add: q applies reads makes_no_vote codecs votes_ok_asks
         writes_PersistLog [OF store w] writes_install_complete [OF store w] votes_ok_StepDown [OF store]
         votes_ok_HandleRequestVoteResponse [OF store codecs]\<close>)
qed

theorem votes_ok_event:
  assumes "rocksdb_ok (env_rocks E) \<alpha>" and "codecs_ok (env_pb E)" and "rpcs_ok E (asks_for (env_pb E) peer) ev"
    and "ev = Fire ElectionTimeout \<longrightarrow> current_term n \<noteq> - 1"
    and "votes_ok (env_pb E) \<alpha> peer n0 n"
  shows "votes_ok (env_pb E) \<alpha> peer n0 (snd (handle_event E ev n))"
proof (cases "ev = Fire ElectionTimeout")
  case True
  then show ?thesis
    using votes_ok_campaign [OF assms(1,2,5)] assms(4) by (simp add: handle_event_def run_callback_def)
next
  case False
  from node_invariant.event [OF votes_ok_invariant [OF assms(1,2)] assms(3) this]
  show ?thesis using assms(5) by (rule preserves_run)
qed

end
