(* ===== verification/Raft_Leadership.thy ===== *)
theory Raft_Leadership
  imports Raft_Ballots
begin

text \<open>
  What it takes to lead. The predicate \<open>elected_ok\<close> says that the vote in memory is the vote on
  disk, that a candidate or leader has voted for itself, that the votes it counted were granted to
  it in its term, and that a leader counted a quorum. With a store whose operations succeed every
  event keeps it. \<open>auth r t\<close> stands for the fact that the member \<open>r\<close> gave this node its vote of
  the term \<open>t\<close>.
\<close>

definition elected_ok ::
    "('db \<Rightarrow> contents) \<Rightarrow> i32 \<Rightarrow> RaftPeer list \<Rightarrow> (i32 \<Rightarrow> u64 \<Rightarrow> bool) \<Rightarrow> 'db node \<Rightarrow> bool" where
  "elected_ok \<alpha> me ps auth n \<longleftrightarrow>
     server_id n = me \<and> peers n = ps \<and> durable (\<alpha> (db n)) = vote_of n \<and>
     (role n \<noteq> Follower \<longrightarrow> voted_for n = u64_of_i32 me \<and>
        (\<forall>r \<in> granted_votes n. r = me \<or> auth r (current_term n))) \<and>
     (role n = Candidate \<longrightarrow> votes_received n = card (granted_votes n)) \<and>
     (role n = Leader \<longrightarrow> length ps div 2 < card (granted_votes n))"

lemma quiet_elected_ok: "quiet (\<lambda>_. True) (elected_ok \<alpha> me ps auth)"
  by (simp add: quiet_def elected_ok_def vote_of_def)

lemma write_ok_elected_ok: "write_ok \<alpha> (elected_ok \<alpha> me ps auth)"
  unfolding write_ok_def by (auto simp: elected_ok_def vote_of_def)

lemma elected_ok_free:
  assumes "elected_ok \<alpha> me ps auth n"
  shows "elected_ok \<alpha> me ps auth (n\<lparr>match_index := mi\<rparr>)"
    "elected_ok \<alpha> me ps auth (n\<lparr>active_read_index := ar\<rparr>)"
    "elected_ok \<alpha> me ps auth (n\<lparr>pending_read_indexes := pr\<rparr>)"
    "elected_ok \<alpha> me ps auth (n\<lparr>incoming_snapshot_index := k\<rparr>)"
    "elected_ok \<alpha> me ps auth (n\<lparr>incoming_snapshot_term := k\<rparr>)"
    "elected_ok \<alpha> me ps auth (n\<lparr>incoming_snapshot_data := bytes\<rparr>)"
    "elected_ok \<alpha> me ps auth (n\<lparr>incoming_snapshot_active := b\<rparr>)"
  using assms by (simp_all add: elected_ok_def vote_of_def)

lemma faultless_PersistState:
  assumes "rocksdb_ok (env_rocks E) \<alpha>" and "rocksdb_faultless (env_rocks E)"
  obtains d where "Node_PersistState E n = (Inr (), n\<lparr>db := d\<rparr>)" and "durable (\<alpha> d) = vote_of n"
proof -
  obtain d where run: "PersistState (env_rocks E) (current_term n) (voted_for n) (commit_index n)
      (last_applied n) (snapshot_index n) (snapshot_term n) (db n) = (Inr (), d)"
    using faultless_Write [OF assms(2)] unfolding PersistState_def by blast
  show thesis
    using that [of d] PersistState_durable(2) [OF assms(1) run] run
    by (simp add: Node_PersistState_def on_db_def vote_of_def)
qed

lemma elected_ok_StepDown:
  assumes store: "rocksdb_ok (env_rocks E) \<alpha>" "rocksdb_faultless (env_rocks E)"
    and n: "elected_ok \<alpha> me ps auth n"
  shows "elected_ok \<alpha> me ps auth (snd (StepDown E t n))"
proof -
  let ?P = "elected_ok \<alpha> me ps auth"
  note q = quiet_elected_ok [of \<alpha> me ps auth]
  obtain d where run: "Node_PersistState E (n\<lparr>current_term := t, voted_for := - 1\<rparr>)
      = (Inr (), n\<lparr>current_term := t, voted_for := - 1, db := d\<rparr>)"
    and d: "durable (\<alpha> d) = (t, - 1)"
    using faultless_PersistState [OF store, of "n\<lparr>current_term := t, voted_for := - 1\<rparr>"]
    by (auto simp: vote_of_def)
  have rest: "preserves ?P (mdo [FailPendingReadIndexes, ResetElectionTimer])"
    by (intro pres frame [OF q] elected_ok_free)
  have follow: "?P (m\<lparr>role := Follower, leader := False\<rparr>)"
    if "server_id m = me" "peers m = ps" "durable (\<alpha> (db m)) = vote_of m" for m
    using that by (simp add: elected_ok_def vote_of_def)
  have stepped: "?P (snd (mseq (mput (\<lambda>n. n\<lparr>role := Follower, leader := False\<rparr>))
      (mdo [FailPendingReadIndexes, ResetElectionTimer]) m))"
    if "server_id m = me" "peers m = ps" "durable (\<alpha> (db m)) = vote_of m" for m
    using preserves_run [OF rest follow [OF that]] by (simp add: mseq_app del: mdo.simps)
  show ?thesis
    using n stepped d
    by (auto simp: StepDown_def mseq_app mwhen_def run cancel_opt_def emit_def elected_ok_def vote_of_def
        split: option.split)
qed

text \<open>The granted responses that arrive are votes that were given to this node.\<close>

definition gives_vote :: "codecs \<Rightarrow> (i32 \<Rightarrow> u64 \<Rightarrow> bool) \<Rightarrow> RaftRpc \<Rightarrow> bool" where
  "gives_vote pb auth rpc \<longleftrightarrow> (msg_type rpc = REQUEST_VOTE_RESPONSE \<longrightarrow>
     (case parse (request_vote_response_pb pb) (msg_payload rpc) of
        None \<Rightarrow> True
      | Some p \<Rightarrow> rvr_vote_granted p \<longrightarrow> auth (i32_of_u64 (rvr_responder_id p)) (rvr_term p)))"

lemma elected_ok_reply: "preserves (elected_ok \<alpha> me ps auth) (reply E c T payload rid)"
  by (intro frame [OF quiet_elected_ok] makes_True)

lemma elected_ok_HandleRequestVote:
  assumes store: "rocksdb_ok (env_rocks E) \<alpha>" "rocksdb_faultless (env_rocks E)"
    and me: "u64_of_i32 me \<noteq> - 1"
  shows "preserves (elected_ok \<alpha> me ps auth) (HandleRequestVote E c payload rid)"
    (is "preserves ?P _")
proof -
  note q = quiet_elected_ok [of \<alpha> me ps auth]
  have down: "preserves ?P (mget (\<lambda>n. mwhen (current_term n < t) (StepDown E t)))" for t
    by (rule preserves_mget_at) (simp add: mwhen_def elected_ok_StepDown [OF store])
  have vote: "?P (snd (mwhen (grants_vote n q) (mdo [mput (\<lambda>n. n\<lparr>voted_for := rv_candidate_id q\<rparr>),
      Node_PersistState E, ResetElectionTimer]) n))" if n: "?P n" for n q
  proof (cases "grants_vote n q")
    case True
    let ?m = "n\<lparr>voted_for := rv_candidate_id q\<rparr>"
    obtain d where run: "Node_PersistState E ?m = (Inr (), ?m\<lparr>db := d\<rparr>)" and d: "durable (\<alpha> d) = vote_of ?m"
      using faultless_PersistState [OF store] by blast
    have "role n \<noteq> Follower \<Longrightarrow> rv_candidate_id q = u64_of_i32 me"
      using n True me by (auto simp: elected_ok_def grants_vote_def)
    then have "?P (?m\<lparr>db := d\<rparr>)" using n d by (auto simp: elected_ok_def vote_of_def)
    moreover have "preserves ?P (mdo [ResetElectionTimer])"
      by (intro pres frame [OF q])
    ultimately show ?thesis
      using True by (simp add: mwhen_def mseq_app run preserves_def)
  qed (simp add: mwhen_def n)
  have voting: "preserves ?P (mget (\<lambda>n.
           let grant = grants_vote n q in
           mseq (mwhen grant (mdo [
             mput (\<lambda>n. n\<lparr>voted_for := rv_candidate_id q\<rparr>),
             Node_PersistState E,
             ResetElectionTimer])) (k grant)))"
    if "\<And>g. preserves ?P (k g)" for q k
    unfolding Let_def using that by (intro preserves_mget_at snd_mseq [of ?P] vote)
  show ?thesis
    unfolding HandleRequestVote_def
  proof (rule preserves_case_option)
    show "preserves ?P (emit (Shutdown c))"
      by (intro pres quiet_trace [OF q])
  qed (rule preserves_mseq [OF down voting], intro preserves_mget elected_ok_reply)
qed

lemma elected_ok_BecomeLeader:
  assumes "elected_ok \<alpha> me ps auth n" and "role n = Candidate" and "quorum n \<le> votes_received n"
  shows "elected_ok \<alpha> me ps auth (snd (BecomeLeader E n))"
proof (rule preserves_BecomeLeader [OF quiet_elected_ok])
  show "elected_ok \<alpha> me ps auth (n\<lparr>role := Leader, leader := True\<rparr>)"
    using assms by (auto simp: elected_ok_def vote_of_def quorum_def)
qed (simp_all add: elected_ok_free preserves_SendAppend [OF quiet_elected_ok])

lemma elected_ok_HandleRequestVoteResponse:
  assumes store: "rocksdb_ok (env_rocks E) \<alpha>" "rocksdb_faultless (env_rocks E)"
    and auth: "\<And>p. parse (request_vote_response_pb (env_pb E)) payload = Some p \<Longrightarrow>
      rvr_vote_granted p \<Longrightarrow> auth (i32_of_u64 (rvr_responder_id p)) (rvr_term p)"
  shows "preserves (elected_ok \<alpha> me ps auth) (HandleRequestVoteResponse E c payload rid)"
    (is "preserves ?P _")
proof -
  have count: "?P (snd (mdo [
           mput (\<lambda>n. n\<lparr>granted_votes := insert responder (granted_votes n)\<rparr>),
           mput (\<lambda>n. n\<lparr>votes_received := card (granted_votes n)\<rparr>),
           mget (\<lambda>n. mwhen (quorum n \<le> votes_received n) (BecomeLeader E))] n))"
    if n: "?P n" and c: "role n = Candidate" and r: "auth responder (current_term n)" for n responder
  proof -
    let ?g = "insert responder (granted_votes n)"
    let ?m = "n\<lparr>granted_votes := ?g, votes_received := card ?g\<rparr>"
    have m: "?P ?m" using n c r by (auto simp: elected_ok_def vote_of_def)
    have "?P (snd (mwhen (quorum ?m \<le> votes_received ?m) (BecomeLeader E) ?m))"
      using m c elected_ok_BecomeLeader [OF m] by (simp add: mwhen_def)
    then show ?thesis by (auto simp: mseq_app split: prod.splits sum.splits)
  qed
  show ?thesis
    unfolding HandleRequestVoteResponse_def Let_def
    by (intro preserves_case_option preserves_ret preserves_mget_at)
       (auto simp: elected_ok_StepDown [OF store] simp del: mdo.simps intro!: count dest: auth)
qed

lemma elected_ok_campaign:
  assumes store: "rocksdb_ok (env_rocks E) \<alpha>" "rocksdb_faultless (env_rocks E)"
  shows "preserves (elected_ok \<alpha> me ps auth) (on_election_timeout E)"
proof (rule preservesI)
  fix n :: "'a node"
  let ?P = "elected_ok \<alpha> me ps auth"
  assume n: "?P n"
  let ?m = "n\<lparr>role := Candidate, leader := False, current_term := current_term n + 1,
       voted_for := u64_of_i32 (server_id n), votes_received := 1, granted_votes := {server_id n}\<rparr>"
  obtain d where run: "Node_PersistState E ?m = (Inr (), ?m\<lparr>db := d\<rparr>)" and d: "durable (\<alpha> d) = vote_of ?m"
    using faultless_PersistState [OF store] by blast
  let ?Q = "\<lambda>n. ?P n \<and> role n = Candidate"
  have q: "quiet (\<lambda>_. True) ?Q"
    using quiet_elected_ok [of \<alpha> me ps auth] unfolding quiet_def by simp
  have sends: "preserves ?Q ResetElectionTimer" "preserves ?Q (SendRequestVotes E)"
    by (intro frame [OF q] makes_True)+
  have m: "?Q (?m\<lparr>db := d\<rparr>)" using n d by (auto simp: elected_ok_def vote_of_def)
  have last: "?P (snd (mdo [mget (\<lambda>n. mwhen (quorum n \<le> votes_received n) (BecomeLeader E))] k))"
    if "?Q k" for k
    unfolding mdo.simps using that
    by (intro snd_mseq [of ?P] preserves_ret) (simp add: mwhen_def elected_ok_BecomeLeader)
  have asked: "?P (snd (mdo [SendRequestVotes E,
      mget (\<lambda>n. mwhen (quorum n \<le> votes_received n) (BecomeLeader E))] k))" if "?Q k" for k
    unfolding mdo.simps(2) [of "SendRequestVotes E"]
    by (rule snd_mseq_via [OF sends(2) that]) (simp_all only: last)
  have "?P (snd (mdo [ResetElectionTimer, SendRequestVotes E,
      mget (\<lambda>n. mwhen (quorum n \<le> votes_received n) (BecomeLeader E))] (?m\<lparr>db := d\<rparr>)))"
    unfolding mdo.simps(2) [of ResetElectionTimer]
    by (rule snd_mseq_via [OF sends(1) m]) (simp_all only: asked)
  then have "?P (snd (BecomeCandidate E n))"
    by (simp only: BecomeCandidate_def mdo.simps mseq_Inr [OF mput_app]
        mseq_Inr [where m = "Node_PersistState E", OF run])
  then show "?P (snd (on_election_timeout E n))"
    using n by (simp add: on_election_timeout_def mwhen_def)
qed

theorem elected_ok_event:
  assumes store: "rocksdb_ok (env_rocks E) \<alpha>" "rocksdb_faultless (env_rocks E)"
    and me: "u64_of_i32 me \<noteq> - 1" and ok: "rpcs_ok E (\<lambda>_. gives_vote (env_pb E) auth) ev"
  shows "preserves (elected_ok \<alpha> me ps auth) (handle_event E ev)"
    (is "preserves ?P _")
proof -
  note q = quiet_elected_ok [of \<alpha> me ps auth] and w = write_ok_elected_ok [of \<alpha> me ps auth]
  have applies: "preserves ?P (ApplyCommitted E)"
    by (rule writes_ApplyCommitted [OF store(1) w])
  have rq: "read_quiet E (\<lambda>_. True) ?P"
    using elected_ok_free by (auto simp: read_quiet_def q applies)
  note reads = preserves_read_index [OF rq] preserves_read_messages [OF rq elected_ok_StepDown [OF store]]
  have "node_invariant_all E (\<lambda>_. gives_vote (env_pb E) auth) (\<lambda>_. True) ?P"
  proof
    fix c rpc
    assume "gives_vote (env_pb E) auth rpc" and "msg_type rpc = REQUEST_VOTE_RESPONSE"
    then show "preserves ?P (HandleRequestVoteResponse E c (msg_payload rpc) (msg_request_id rpc))"
      by (intro elected_ok_HandleRequestVoteResponse store) (simp add: gives_vote_def)
  next
    show "preserves ?P (SendRequestVoteToPeer E peer)" for peer
      by (intro frame [OF q] makes_True)
  qed (use elected_ok_free write_okD [OF w] in \<open>simp_all add: q applies reads
         writes_PersistLog [OF store(1) w] writes_install_complete [OF store(1) w] elected_ok_StepDown [OF store]
         elected_ok_HandleRequestVote [OF store me] elected_ok_campaign [OF store]\<close>)
  from node_invariant_all.any_event [OF this ok] show ?thesis .
qed

end
