(* ===== verification/Raft_Cluster.thy ===== *)
theory Raft_Cluster
  imports Raft_Leadership
begin

text \<open>
  A cluster of nodes that run the code, with crashes and restarts, and the election safety of
  Raft: no two members lead in one term, at any two moments of a run.

  A member takes a step when its loop runs a callback. It crashes between two callbacks or inside
  one, when the store starts to fail; what is left is the store. It comes back by \<open>Start\<close> on a
  fresh node over that store. The network may lose, delay, duplicate and reorder frames; a frame
  that is delivered on a connection was sent by the member at its other end. The environment
  (which connections are up, how the store answers) may be different in every step.
\<close>

section \<open>Starting a node\<close>

text \<open>
  What a run of \<open>Start\<close> keeps: a predicate \<open>S\<close> on the node from its creation on, and a stronger one
  \<open>K\<close> from the moment that \<open>LoadState\<close> has returned. Neither looks at what the start sets up.
\<close>

definition start_quiet :: "(io \<Rightarrow> bool) \<Rightarrow> ('db node \<Rightarrow> bool) \<Rightarrow> ('db node \<Rightarrow> bool) \<Rightarrow> bool" where
  "start_quiet B S K \<longleftrightarrow> quiet B S \<and> quiet B K \<and> (\<forall>n. K n \<longrightarrow> S n) \<and>
     (\<forall>n mi b. K n \<longrightarrow> K (n\<lparr>match_index := mi\<rparr>) \<and> K (n\<lparr>ready := b\<rparr>) \<and> K (n\<lparr>startup_finished := b\<rparr>)) \<and>
     (\<forall>n k. K n \<longrightarrow> K (n\<lparr>commit_index := k\<rparr>) \<and> K (n\<lparr>last_applied := k\<rparr>)) \<and>
     (\<forall>n ar pr b b' e. S n \<longrightarrow> S (n\<lparr>active_read_index := ar\<rparr>) \<and> S (n\<lparr>pending_read_indexes := pr\<rparr>) \<and>
        S (n\<lparr>ready := b, leader := b'\<rparr>) \<and> S (n\<lparr>raft_loop := b\<rparr>) \<and> S (n\<lparr>raft_thread := b\<rparr>) \<and>
        S (n\<lparr>startup_error := e, startup_finished := b\<rparr>) \<and>
        S (n\<lparr>role := Follower, votes_received := 0, granted_votes := {}\<rparr>) \<and>
        S (n\<lparr>stopping := False, ready := False, leader := False, startup_finished := False,
            startup_error := None, raft_thread := True, raft_loop := True\<rparr>))"

lemma start_quietD:
  assumes "start_quiet B S K"
  shows "quiet B K" and "quiet B (\<lambda>n. S n \<and> startup_error n \<noteq> None)" and "K n \<Longrightarrow> S n"
  using assms by (simp_all add: start_quiet_def quiet_def)

text \<open>
  \<open>LoadState\<close> takes over what \<open>Load\<close> found: this is the node between the two assignments that
  follow and the replay.
\<close>

definition take_over :: "PersistedRaftState \<Rightarrow> 'db node \<Rightarrow> 'db node" where
  "take_over state n = n\<lparr>snapshot_index := ps_snapshot_index state,
     snapshot_term := ps_snapshot_term state, snapshot_data := ps_snapshot_data state,
     current_term := ps_current_term state, voted_for := ps_voted_for state,
     commit_index := max (ps_commit_index state) (ps_snapshot_index state),
     last_applied := max (ps_last_applied state) (ps_snapshot_index state),
     log := ps_log state\<rparr>"

lemma LoadState_establishes:
  assumes frame': "start_quiet B S K" and applies: "preserves K (ApplyCommitted E)"
    and loads: "\<And>n state. S n \<Longrightarrow> Load (env_pb E) (env_rocks E) (db n) = Inr state \<Longrightarrow> K (take_over state n)"
    and n: "S n"
  shows "S (snd (LoadState E n))" and "fst (LoadState E n) = Inr u \<Longrightarrow> K (snd (LoadState E n))"
proof -
  have "LoadState E n = (Inl e, n)"
    if load: "Load (env_pb E) (env_rocks E) (db n) = Inl e" for e
    using load by (simp add: LoadState_def mbind_app)
  moreover have "K (snd (LoadState E n))"
    if load: "Load (env_pb E) (env_rocks E) (db n) = Inr state" for state
  proof -
    have "preserves K (mdo [
       mput (\<lambda>n. n\<lparr>commit_index := min (commit_index n) (LastIndex n)\<rparr>),
       mput (\<lambda>n. n\<lparr>last_applied := min (last_applied n) (commit_index n)\<rparr>),
       ApplyCommitted E])" (is "preserves _ ?rest")
      using frame' by (intro pres preserves_mput applies) (simp_all add: start_quiet_def)
    moreover have "LoadState E n = ?rest (take_over state n)"
      by (simp add: LoadState_def mbind_app mseq_app load take_over_def)
    ultimately show ?thesis by (simp only: preserves_run loads [OF n load])
  qed
  ultimately show "S (snd (LoadState E n))" and "fst (LoadState E n) = Inr u \<Longrightarrow> K (snd (LoadState E n))"
    using n start_quietD(3) [OF frame'] by (cases "Load (env_pb E) (env_rocks E) (db n)"; force)+
qed

lemma StartInLoop_establishes:
  assumes frame': "start_quiet B S K"
    and applies: "preserves K (ApplyCommitted E)"
    and loads: "\<And>n state. S n \<Longrightarrow> Load (env_pb E) (env_rocks E) (db n) = Inr state \<Longrightarrow> K (take_over state n)"
    and n: "S n" and run: "StartInLoop E n = (r, m)"
  shows "S m" and "r = Inr u \<Longrightarrow> K m"
proof -
  let ?n = "n\<lparr>role := Follower, votes_received := 0, granted_votes := {}\<rparr>"
  let ?rest = "mdo [
     mget (\<lambda>n. mbind (lift_result (ParseEndpoint (endpoint n))) (\<lambda>(host, port).
       emit (ServerStart host port))),
     for_peers (\<lambda>p. mseq (mget (\<lambda>n. mwhen (i32_less (server_id n) p) (CreatePeerClient p)))
       (init_peer p)),
     mput (\<lambda>n. n\<lparr>ready := True\<rparr>),
     ResetElectionTimer]"
  note q = start_quietD(1) [OF frame']
  have free: "K (n\<lparr>match_index := mi\<rparr>)" "K (n\<lparr>ready := b\<rparr>)" if "K n" for n mi b
    using that frame' by (simp_all add: start_quiet_def)
  have rest: "preserves K ?rest"
    unfolding init_peer_def
    by (intro pres frame [OF q] preserves_mput quietD [OF q] quiet_trace [OF q] free)
  have "S ?n" using n frame' by (simp add: start_quiet_def)
  note loaded = LoadState_establishes [OF frame' applies loads this]
  have run': "mseq (LoadState E) ?rest ?n = (r, m)"
    using run by (simp only: StartInLoop_def mdo.simps(2) [of "mput _"] mdo.simps(2) [of "LoadState E"]
        mseq_Inr [OF mput_app])
  have "K m \<or> (\<exists>e. r = Inl e) \<and> S m"
  proof (cases "LoadState E ?n")
    case (Pair r' k)
    then show ?thesis
      using run' loaded preservesD [OF rest, of k r m] by (cases r') (auto simp: mseq_app simp del: mdo.simps)
  qed
  then show "S m" and "r = Inr u \<Longrightarrow> K m"
    using start_quietD(3) [OF frame'] by auto
qed

lemma Start_establishes:
  assumes frame': "start_quiet B S K"
    and applies: "preserves K (ApplyCommitted E)"
    and loads: "\<And>n state. S n \<Longrightarrow> Load (env_pb E) (env_rocks E) (db n) = Inr state \<Longrightarrow> K (take_over state n)"
    and n: "S n" and fresh: "\<not> raft_thread n" and run: "Start E n = (r, m)"
  shows "S m" and "r = Inr u \<Longrightarrow> K m"
proof -
  let ?F = "\<lambda>n. S n \<and> startup_error n \<noteq> None"
  let ?n = "n\<lparr>stopping := False, ready := False, leader := False,
    startup_finished := False, startup_error := None, raft_thread := True, raft_loop := True\<rparr>"
  note q = start_quietD(2) [OF frame'] and law = frame' [unfolded start_quiet_def]
  obtain r' k where start: "StartInLoop E ?n = (r', k)" by fastforce
  have "S ?n" using n law by blast
  note k = StartInLoop_establishes [OF frame' applies loads this start]
  have free: "?F (n\<lparr>active_read_index := ar\<rparr>)" "?F (n\<lparr>pending_read_indexes := pr\<rparr>)"
    "?F (n\<lparr>ready := b, leader := b'\<rparr>)" "?F (n\<lparr>raft_loop := b\<rparr>)" if "?F n" for n ar pr b b'
    using that law by simp_all
  have stop: "preserves ?F (mdo [StopInLoop, leave_loop])"
    unfolding StopInLoop_def leave_loop_def
    by (intro pres frame [OF q] preserves_mput quietD [OF q] quiet_trace [OF q] free)
  have marked: "?F (snd (MarkStartFailure e k))" for e
    using k(1) law by (auto simp: MarkStartFailure_def split: option.split)
  let ?start = "mtry (mseq (StartInLoop E) (mput (\<lambda>n. n\<lparr>startup_finished := True\<rparr>)))
         (\<lambda>e. mdo [MarkStartFailure e, StopInLoop, leave_loop])"
  obtain rs ms where start': "?start ?n = (rs, ms)" by fastforce
  have ms: "S ms \<and> (rs = Inr () \<and> startup_error ms = None \<longrightarrow> K ms)"
  proof (cases r')
    case (Inr x)
    then have "ms = k\<lparr>startup_finished := True\<rparr>" and "K k"
      using start' start k(2) by (auto simp: mtry_def mseq_app)
    then show ?thesis using law by blast
  next
    case (Inl e)
    have "?F (snd (mdo [MarkStartFailure e, StopInLoop, leave_loop] k))"
      unfolding mdo.simps(2) [of "MarkStartFailure e"] by (intro snd_mseq [of ?F] marked stop)
    then show ?thesis
      using start' start Inl k(1) by (auto simp: mtry_def mseq_app simp del: mdo.simps split: if_splits)
  qed
  have "mseq ?start (mdo [mget (\<lambda>n. case startup_error n of
           None \<Rightarrow> ret ()
         | Some e \<Rightarrow> mseq (mput (\<lambda>n. n\<lparr>raft_thread := False\<rparr>)) (raise e))]) ?n = (r, m)"
    using run fresh by (simp only: Start_def mget_app if_False mdo.simps(2) [of "mput _"]
        mdo.simps(2) [of "mtry _ _"] mseq_Inr [OF mput_app])
  from this [unfolded mseq_app [of ?start] start'] have "S m \<and> (r = Inr () \<longrightarrow> K m)"
    using ms law by (cases rs) (auto simp: mseq_app split: option.splits)
  then show "S m" and "r = Inr u \<Longrightarrow> K m" by auto
qed

subsection \<open>The vote of a node that starts\<close>

lemma Load_vote:
  assumes "rocksdb_ok R \<alpha>" and "Load P R d = Inr state"
  shows "(ps_current_term state, ps_voted_for state) = durable (\<alpha> d)"
  using assms(2) Get_lookup [OF assms(1)]
  by (auto simp: Load_def rbind_Inr_iff durable_def)

definition starting :: "codecs \<Rightarrow> ('db \<Rightarrow> contents) \<Rightarrow> i32 \<Rightarrow> RaftPeer list \<Rightarrow> u64 \<times> i64 \<Rightarrow> 'db node \<Rightarrow> bool" where
  "starting pb \<alpha> me ps v n \<longleftrightarrow> server_id n = me \<and> peers n = ps \<and> role n = Follower \<and>
     durable (\<alpha> (db n)) = v \<and> list_all (no_vote pb) (trace n)"

definition loaded :: "codecs \<Rightarrow> ('db \<Rightarrow> contents) \<Rightarrow> i32 \<Rightarrow> RaftPeer list \<Rightarrow> u64 \<times> i64 \<Rightarrow> 'db node \<Rightarrow> bool" where
  "loaded pb \<alpha> me ps v n \<longleftrightarrow> starting pb \<alpha> me ps v n \<and> vote_of n = v"

lemma write_ok_loaded: "write_ok \<alpha> (loaded pb \<alpha> me ps v)"
  unfolding write_ok_def by (auto simp: starting_def loaded_def vote_of_def)

lemma starting_quiet: "start_quiet (no_vote pb) (starting pb \<alpha> me ps v) (loaded pb \<alpha> me ps v)"
  using no_vote_other by (auto simp: start_quiet_def quiet_def starting_def loaded_def vote_of_def)

lemma Start_vote:
  assumes store: "rocksdb_ok (env_rocks E) \<alpha>"
    and run: "Start E (fresh_node me ep port d ps) = (r, m)"
  shows "starting pb \<alpha> me ps (durable (\<alpha> d)) m"
    and "r = Inr u \<Longrightarrow> loaded pb \<alpha> me ps (durable (\<alpha> d)) m"
proof -
  let ?S = "starting pb \<alpha> me ps (durable (\<alpha> d))" and ?K = "loaded pb \<alpha> me ps (durable (\<alpha> d))"
  note w = write_ok_loaded [of \<alpha> pb me ps "durable (\<alpha> d)"]
  have took: "?K (take_over state n)"
    if "?S n" and "Load (env_pb E) (env_rocks E) (db n) = Inr state" for state n
    using Load_vote [OF store that(2)] that(1) by (auto simp: loaded_def starting_def vote_of_def take_over_def)
  have "?S (fresh_node me ep port d ps)" "\<not> raft_thread (fresh_node me ep port d ps)"
    by (simp_all add: starting_def fresh_node_def)
  from Start_establishes [OF starting_quiet writes_ApplyCommitted [OF store w] took this run]
  show "?S m" and "r = Inr u \<Longrightarrow> ?K m" by blast+
qed

section \<open>The cluster\<close>

text \<open>
  \<open>other\<close> maps the end of a connection at a member to its end at the other member. \<open>sent\<close> and
  \<open>votes\<close> are histories: everything a member sent in all its lives, and the votes it gave in its
  messages or that were on its disk after a step.
\<close>

record 'db cluster =
  member :: "i32 \<Rightarrow> 'db node"
  up :: "i32 \<Rightarrow> bool"
  sent :: "i32 \<Rightarrow> io list"
  votes :: "i32 \<Rightarrow> (u64 \<times> i64) list"

type_synonym wiring = "i32 \<times> conn \<Rightarrow> i32 \<times> conn"

definition peer_at :: "wiring \<Rightarrow> i32 \<Rightarrow> conn \<Rightarrow> i64" where
  "peer_at other i c = u64_of_i32 (fst (other (i, c)))"

definition returned :: "error + 'a \<Rightarrow> bool" where
  "returned r = (case r of Inl _ \<Rightarrow> False | Inr _ \<Rightarrow> True)"

definition advance ::
    "codecs \<Rightarrow> ('db \<Rightarrow> contents) \<Rightarrow> wiring \<Rightarrow> i32 \<Rightarrow> 'db node \<Rightarrow> 'db node \<Rightarrow> bool \<Rightarrow> 'db cluster \<Rightarrow> 'db cluster" where
  "advance pb \<alpha> other i n n' alive C = (let new = drop (length (trace n)) (trace n') in
     C\<lparr>member := (member C)(i := n'), up := (up C)(i := alive),
       sent := (sent C)(i := sent C i @ new),
       votes := (votes C)(i := votes C i @ ballots pb (peer_at other i) new @ [durable (\<alpha> (db n'))])\<rparr>)"

fun delivered :: "wiring \<Rightarrow> 'db cluster \<Rightarrow> i32 \<Rightarrow> event \<Rightarrow> bool" where
  "delivered other C i (Bytes c buffer) \<longleftrightarrow>
     (\<forall>payload \<in> set (fst (deframe buffer)). \<exists>f. Frame payload = Inr f \<and>
        Send (snd (other (i, c))) f \<in> set (sent C (fst (other (i, c)))))"
| "delivered other C i _ \<longleftrightarrow> True"

definition environment :: "codecs \<Rightarrow> ('db \<Rightarrow> contents) \<Rightarrow> 'db env \<Rightarrow> bool" where
  "environment pb \<alpha> E \<longleftrightarrow> env_pb E = pb \<and> rocksdb_ok (env_rocks E) \<alpha>"

text \<open>Terms do not overflow: a node does not campaign in the last term.\<close>

definition term_room :: "event \<Rightarrow> 'db node \<Rightarrow> bool" where
  "term_room ev n \<longleftrightarrow> (ev = Fire ElectionTimeout \<longrightarrow> current_term n \<noteq> - 1)"

text \<open>
  The steps of a cluster. \<open>Q\<close> restricts the environments and events of a run further; \<open>cluster_step\<close>
  restricts nothing.
\<close>

inductive cluster_move ::
    "codecs \<Rightarrow> ('db \<Rightarrow> contents) \<Rightarrow> RaftPeer list \<Rightarrow> wiring \<Rightarrow> ('db env \<Rightarrow> event option \<Rightarrow> 'db node \<Rightarrow> bool) \<Rightarrow>
     'db cluster \<Rightarrow> 'db cluster \<Rightarrow> bool"
  for pb \<alpha> ps other Q where
  runs: "\<lbrakk>i \<in> peer_id ` set ps; up C i; environment pb \<alpha> E; rocksdb_faultless (env_rocks E);
      delivered other C i ev; term_room ev (member C i); Q E (Some ev) (member C i);
      handle_event E ev (member C i) = (r, n')\<rbrakk> \<Longrightarrow>
    cluster_move pb \<alpha> ps other Q C (advance pb \<alpha> other i (member C i) n' (returned r) C)"
| crashes: "\<lbrakk>i \<in> peer_id ` set ps; up C i; environment pb \<alpha> E;
      delivered other C i ev; term_room ev (member C i); Q E (Some ev) (member C i);
      handle_event E ev (member C i) = (r, n')\<rbrakk> \<Longrightarrow>
    cluster_move pb \<alpha> ps other Q C (advance pb \<alpha> other i (member C i) n' False C)"
| halts: "cluster_move pb \<alpha> ps other Q C (C\<lparr>up := (up C)(i := False)\<rparr>)"
| restarts: "\<lbrakk>i \<in> peer_id ` set ps; \<not> up C i; environment pb \<alpha> E;
      n = fresh_node i ep port (db (member C i)) ps; Q E None n; Start E n = (r, n')\<rbrakk> \<Longrightarrow>
    cluster_move pb \<alpha> ps other Q C (advance pb \<alpha> other i n n' (returned r) C)"

definition cluster_step ::
    "codecs \<Rightarrow> ('db \<Rightarrow> contents) \<Rightarrow> RaftPeer list \<Rightarrow> wiring \<Rightarrow> 'db cluster \<Rightarrow> 'db cluster \<Rightarrow> bool" where
  "cluster_step pb \<alpha> ps other = cluster_move pb \<alpha> ps other (\<lambda>_ _ _. True)"

definition cluster_start :: "'db cluster \<Rightarrow> bool" where
  "cluster_start C \<longleftrightarrow> (\<forall>i. \<not> up C i \<and> sent C i = [] \<and> votes C i = [])"

definition leads :: "'db cluster \<Rightarrow> i32 \<Rightarrow> u64 \<Rightarrow> bool" where
  "leads C i t \<longleftrightarrow> up C i \<and> role (member C i) = Leader \<and> current_term (member C i) = t"

definition configuration_ok :: "RaftPeer list \<Rightarrow> wiring \<Rightarrow> bool" where
  "configuration_ok ps other \<longleftrightarrow>
     distinct (map peer_id ps) \<and> - 1 \<notin> peer_id ` set ps \<and> (\<forall>e. other (other e) = e)"

section \<open>Quorums\<close>

locale quorum_system =
  fixes members :: "'a set"
  assumes finite_members: "finite members"
begin

lemma quorums_meet:
  assumes "A \<subseteq> members" "B \<subseteq> members" "card members div 2 < card A" "card members div 2 < card B"
  shows "A \<inter> B \<noteq> {}"
proof
  assume "A \<inter> B = {}"
  then have "card (A \<union> B) = card A + card B"
    using assms(1,2) finite_members by (meson card_Un_disjoint finite_subset)
  moreover have "card (A \<union> B) \<le> card members"
    using assms(1,2) finite_members by (intro card_mono) auto
  ultimately show False using assms(3,4) by linarith
qed

end

interpretation configuration: quorum_system "peer_id ` set ps" for ps
  by unfold_locales simp

section \<open>The invariant of the cluster\<close>

definition member_ok :: "codecs \<Rightarrow> ('db \<Rightarrow> contents) \<Rightarrow> RaftPeer list \<Rightarrow> wiring \<Rightarrow> 'db cluster \<Rightarrow> i32 \<Rightarrow> bool" where
  "member_ok pb \<alpha> ps other C i \<longleftrightarrow>
     (votes C i \<noteq> [] \<longrightarrow> i \<in> peer_id ` set ps) \<and>
     sorted_wrt vote_le (votes C i) \<and>
     (\<forall>x \<in> set (votes C i). vote_le x (durable (\<alpha> (db (member C i))))) \<and>
     list_all (honest pb i) (sent C i) \<and>
     set (ballots pb (peer_at other i) (sent C i)) \<subseteq> set (votes C i) \<and>
     (up C i \<longrightarrow> durable (\<alpha> (db (member C i))) \<in> set (votes C i) \<and>
        elected_ok \<alpha> i ps (\<lambda>r t. (t, u64_of_i32 i) \<in> set (votes C r)) (member C i))"

lemma i32_u64_roundtrip [simp]: "i32_of_u64 (u64_of_i32 x) = x"
  unfolding i32_of_u64_def u64_of_i32_def by (rule bit_word_eqI) (auto simp: bit_simps)

lemma u64_of_i32_inject [simp]: "u64_of_i32 x = u64_of_i32 y \<longleftrightarrow> x = y"
  by (metis i32_u64_roundtrip)

lemma u64_of_i32_minus: "u64_of_i32 (- 1) = - 1"
  by (simp add: u64_of_i32_def)

lemma elected_ok_mono:
  assumes "elected_ok \<alpha> me ps auth n" and "\<And>r t. auth r t \<Longrightarrow> auth' r t"
  shows "elected_ok \<alpha> me ps auth' n"
  using assms by (auto simp: elected_ok_def)

lemma advance_ok:
  assumes ok: "\<And>j. member_ok pb \<alpha> ps other C j" and i: "i \<in> peer_id ` set ps"
    and db: "db n = db (member C i)" and new: "trace n' = trace n @ new"
    and honest: "list_all (honest pb i) new"
    and sorted: "sorted_wrt vote_le (durable (\<alpha> (db n)) # ballots pb (peer_at other i) new @ [durable (\<alpha> (db n'))])"
    and alive: "alive \<Longrightarrow> elected_ok \<alpha> i ps (\<lambda>r t. (t, u64_of_i32 i) \<in> set (votes C r)) n'"
  shows "member_ok pb \<alpha> ps other (advance pb \<alpha> other i n n' alive C) j"
proof -
  let ?C = "advance pb \<alpha> other i n n' alive C" and ?b = "ballots pb (peer_at other i) new"
  have C: "member ?C = (member C)(i := n')" "up ?C = (up C)(i := alive)"
    "sent ?C = (sent C)(i := sent C i @ new)"
    "votes ?C = (votes C)(i := votes C i @ ?b @ [durable (\<alpha> (db n'))])"
    by (simp_all add: advance_def new)
  have grow: "set (votes C r) \<subseteq> set (votes ?C r)" for r
    by (auto simp: C)
  have up_ok: "elected_ok \<alpha> j ps (\<lambda>r t. (t, u64_of_i32 j) \<in> set (votes ?C r)) m"
    if "elected_ok \<alpha> j ps (\<lambda>r t. (t, u64_of_i32 j) \<in> set (votes C r)) m" for m
    by (rule elected_ok_mono [OF that]) (use grow in blast)
  show ?thesis
  proof (cases "j = i")
    case False
    have "member_ok pb \<alpha> ps other C j" by (rule ok)
    then show ?thesis
      using up_ok [of "member C j"] False unfolding member_ok_def C by simp
  next
    case True
    note mi = ok [of i, unfolded member_ok_def]
    have old: "vote_le x (durable (\<alpha> (db n)))" if "x \<in> set (votes C i)" for x
      using mi that db by simp
    have "vote_le (durable (\<alpha> (db n))) y" if "y \<in> set (?b @ [durable (\<alpha> (db n'))])" for y
      using that sorted by auto
    then have later: "vote_le x y" if "x \<in> set (votes C i)" "y \<in> set (?b @ [durable (\<alpha> (db n'))])" for x y
      using vote_le_trans [OF old [OF that(1)]] that(2) by blast
    have "sorted_wrt vote_le (votes C i @ ?b @ [durable (\<alpha> (db n'))])"
      using mi sorted later by (simp add: sorted_wrt_append)
    moreover have "\<forall>x \<in> set (votes C i @ ?b @ [durable (\<alpha> (db n'))]). vote_le x (durable (\<alpha> (db n')))"
      using later [where y = "durable (\<alpha> (db n'))"] sorted by (auto simp: sorted_wrt_append)
    moreover have "list_all (honest pb i) (sent C i @ new)" using mi honest by simp
    moreover have "set (ballots pb (peer_at other i) (sent C i @ new))
        \<subseteq> set (votes C i @ ?b @ [durable (\<alpha> (db n'))])"
      using mi by (auto simp: ballots_def)
    ultimately show ?thesis
      using i alive up_ok [of n'] unfolding member_ok_def True C by simp
  qed
qed

text \<open>What arrives was sent by the member at the other end, which was honest.\<close>

lemma delivered_sent:
  assumes "delivered other C i (Bytes c buffer)" and "payload \<in> set (fst (deframe buffer))"
    and "parse (rpc_pb pb) payload = Some rpc"
  obtains f where "Send (snd (other (i, c))) f \<in> set (sent C (fst (other (i, c))))" and "rpc_in pb f = Some rpc"
proof -
  obtain f where f: "Frame payload = Inr f" "Send (snd (other (i, c))) f \<in> set (sent C (fst (other (i, c))))"
    using assms(1,2) by auto
  have "next_frame f = Frame_ready payload []"
    using next_frame_Frame [of _ payload f "[]"] f(1) by (simp add: Frame_def)
  then show thesis using that [OF f(2)] assms(3) by (simp add: rpc_in_def)
qed

lemma delivered_ok:
  assumes ok: "\<And>j. member_ok pb \<alpha> ps other C j" and conf: "configuration_ok ps other"
    and env: "env_pb E = pb" and del: "delivered other C i ev"
  shows "rpcs_ok E (asks_for (env_pb E) (peer_at other i)) ev"
    and "rpcs_ok E (\<lambda>_. gives_vote (env_pb E) (\<lambda>r t. (t, u64_of_i32 i) \<in> set (votes C r))) ev"
proof -
  let ?auth = "\<lambda>r t. (t, u64_of_i32 i) \<in> set (votes C r)"
  have "asks_for pb (peer_at other i) c rpc \<and> gives_vote pb ?auth rpc"
    if ev: "ev = Bytes c buffer" and p: "payload \<in> set (fst (deframe buffer))"
      and rpc: "parse (rpc_pb pb) payload = Some rpc" for c buffer payload rpc
  proof -
    obtain j c' where ends: "other (i, c) = (j, c')" by fastforce
    obtain f where f: "Send c' f \<in> set (sent C j)" "rpc_in pb f = Some rpc"
      using delivered_sent [OF del [unfolded ev] p rpc] by (auto simp: ends)
    note mj = ok [of j, unfolded member_ok_def]
    have honest: "honest pb j (Send c' f)"
      using mj f(1) unfolding list_all_iff by blast
    have "set (ballot pb (peer_at other j) (Send c' f)) \<subseteq> set (ballots pb (peer_at other j) (sent C j))"
      using f(1) unfolding ballots_def by (simp only: set_concat set_map) blast
    then have b: "set (ballot pb (peer_at other j) (Send c' f)) \<subseteq> set (votes C j)"
      using mj by blast
    have "other (j, c') = (i, c)" using conf ends by (metis configuration_ok_def)
    then have peer: "peer_at other j c' = u64_of_i32 i" by (simp add: peer_at_def)
    have "peer_at other i c = u64_of_i32 j" by (simp add: peer_at_def ends)
    then have "asks_for pb (peer_at other i) c rpc"
      using honest f(2) by (cases "parse (request_vote_pb pb) (msg_payload rpc)") (simp_all add: asks_for_def)
    moreover have "?auth (i32_of_u64 (rvr_responder_id p)) (rvr_term p)"
      if "msg_type rpc = REQUEST_VOTE_RESPONSE"
        and "parse (request_vote_response_pb pb) (msg_payload rpc) = Some p" and "rvr_vote_granted p" for p
      using that honest b f(2) peer by simp
    ultimately show ?thesis
      by (simp add: gives_vote_def split: option.split)
  qed
  note arrives = this
  show "rpcs_ok E (asks_for (env_pb E) (peer_at other i)) ev"
    using arrives by (cases ev) (simp_all add: env split: option.split)
  show "rpcs_ok E (\<lambda>_. gives_vote (env_pb E) ?auth) ev"
    using arrives by (cases ev) (simp_all add: env split: option.split)
qed

lemma step_ok:
  assumes "cluster_move pb \<alpha> ps other Q C C'"
    and codecs: "codecs_ok pb" and conf: "configuration_ok ps other"
    and ok: "\<And>j. member_ok pb \<alpha> ps other C j"
  shows "member_ok pb \<alpha> ps other C' j"
proof -
  have event: "(\<exists>new. trace n' = trace (member C i) @ new \<and> list_all (honest pb i) new \<and>
        sorted_wrt vote_le (durable (\<alpha> (db (member C i))) # ballots pb (peer_at other i) new @ [durable (\<alpha> (db n'))])) \<and>
      (rocksdb_faultless (env_rocks E) \<longrightarrow>
        elected_ok \<alpha> i ps (\<lambda>r t. (t, u64_of_i32 i) \<in> set (votes C r)) n')"
    if i: "i \<in> peer_id ` set ps" and up: "up C i" and env: "environment pb \<alpha> E"
      and del: "delivered other C i ev" and room: "term_room ev (member C i)"
      and run: "handle_event E ev (member C i) = (r, n')" for i E ev r n'
  proof -
    let ?auth = "\<lambda>r t. (t, u64_of_i32 i) \<in> set (votes C r)"
    have pb: "env_pb E = pb" and store: "rocksdb_ok (env_rocks E) \<alpha>"
      using env by (simp_all add: environment_def)
    note arrives = delivered_ok [OF ok conf pb del]
    have elected: "elected_ok \<alpha> i ps ?auth (member C i)"
      using ok [of i] up by (simp add: member_ok_def)
    then have start: "votes_ok pb \<alpha> (peer_at other i) (member C i) (member C i)" and id: "server_id (member C i) = i"
      by (auto simp: elected_ok_def intro: votes_ok_start)
    have "votes_ok pb \<alpha> (peer_at other i) (member C i) n'"
      using votes_ok_event [OF store _ arrives(1), where n = "member C i" and n0 = "member C i"]
        codecs start room pb run by (simp add: term_room_def)
    moreover have "- 1 \<notin> peer_id ` set ps" using conf by (simp add: configuration_ok_def)
    then have "u64_of_i32 i \<noteq> - 1" using i u64_of_i32_minus by (metis u64_of_i32_inject)
    then have "elected_ok \<alpha> i ps ?auth n'" if "rocksdb_faultless (env_rocks E)"
      using preservesD [OF elected_ok_event [OF store that _ arrives(2)] run elected] by simp
    ultimately show ?thesis by (auto simp: votes_ok_def id)
  qed
  show ?thesis using assms(1)
  proof cases
    case (runs i E ev r n')
    with event [of i E ev r n'] show ?thesis by (auto intro!: advance_ok ok)
  next
    case (crashes i E ev r n')
    with event [of i E ev r n'] show ?thesis by (auto intro!: advance_ok ok)
  next
    case (halts i)
    then show ?thesis using ok [of j] by (simp add: member_ok_def)
  next
    case (restarts i E n ep port r n')
    have store: "rocksdb_ok (env_rocks E) \<alpha>" using restarts(4) by (simp add: environment_def)
    note s = Start_vote [OF store restarts(7) [unfolded restarts(5)], where pb = pb]
    have quiet: "list_all (no_vote pb) (trace n')" using s(1) by (simp add: starting_def)
    have "list_all (honest pb i) (trace n')"
      using quiet no_vote_entry by (auto simp: list_all_iff)
    moreover have "ballots pb (peer_at other i) (trace n') = []"
      using quiet no_vote_entry by (auto simp: ballots_def list_all_iff)
    moreover have "elected_ok \<alpha> i ps (\<lambda>r t. (t, u64_of_i32 i) \<in> set (votes C r)) n'" if "returned r"
      using that s(2) by (auto simp: returned_def loaded_def starting_def elected_ok_def split: sum.splits)
    ultimately show ?thesis
      using s(1) unfolding restarts(1) restarts(5)
      by (intro advance_ok [where new = "trace n'"] ok restarts(2)) (simp_all add: fresh_node_def starting_def)
  qed
qed

text \<open>The history of votes only grows.\<close>

lemma step_votes:
  assumes "cluster_move pb \<alpha> ps other Q C C'"
  shows "set (votes C j) \<subseteq> set (votes C' j)"
  using assms by cases (auto simp: advance_def Let_def)

lemma run_ok:
  assumes "(cluster_move pb \<alpha> ps other Q)\<^sup>*\<^sup>* C C'" and "codecs_ok pb" and "configuration_ok ps other"
    and "\<And>j. member_ok pb \<alpha> ps other C j"
  shows "member_ok pb \<alpha> ps other C' j" and "set (votes C j) \<subseteq> set (votes C' j)"
proof -
  have "(\<forall>j. member_ok pb \<alpha> ps other C' j) \<and> (\<forall>j. set (votes C j) \<subseteq> set (votes C' j))"
    using assms(1)
  proof (induction rule: rtranclp_induct)
    case (step C1 C2)
    then show ?case
      using step_ok [OF step(2) assms(2,3)] step_votes [OF step(2)] by blast
  qed (use assms(4) in simp)
  then show "member_ok pb \<alpha> ps other C' j" and "set (votes C j) \<subseteq> set (votes C' j)" by blast+
qed

lemma start_ok: "cluster_start C \<Longrightarrow> member_ok pb \<alpha> ps other C j"
  by (simp add: cluster_start_def member_ok_def ballots_def)

lemma configuration_card: "configuration_ok ps other \<Longrightarrow> card (peer_id ` set ps) = length ps"
  by (metis configuration_ok_def distinct_card length_map set_map)

lemma one_vote_per_term:
  assumes "sorted_wrt vote_le xs" and "(t, a) \<in> set xs" and "(t, b) \<in> set xs" and "a \<noteq> - 1" and "b \<noteq> - 1"
  shows "a = b"
proof -
  have "vote_le (t, a) (t, b) \<or> vote_le (t, b) (t, a)"
    using assms(1-3)
  proof (induction xs)
    case (Cons x xs)
    then show ?case by auto
  qed simp
  then show ?thesis using assms(4,5) by (auto simp: vote_le_def)
qed

text \<open>A member was elected in a term when a quorum of members voted for it, itself included.\<close>

definition elected :: "RaftPeer list \<Rightarrow> 'db cluster \<Rightarrow> i32 \<Rightarrow> u64 \<Rightarrow> bool" where
  "elected ps C i t \<longleftrightarrow> (t, u64_of_i32 i) \<in> set (votes C i) \<and>
     (\<exists>Q \<subseteq> peer_id ` set ps. card (peer_id ` set ps) div 2 < card Q \<and>
        (\<forall>r \<in> Q. (t, u64_of_i32 i) \<in> set (votes C r)))"

lemma leader_elected:
  assumes ok: "\<And>j. member_ok pb \<alpha> ps other C j" and leads: "leads C i t" and conf: "configuration_ok ps other"
  shows "elected ps C i t"
proof -
  let ?n = "member C i"
  have e: "elected_ok \<alpha> i ps (\<lambda>r t. (t, u64_of_i32 i) \<in> set (votes C r)) ?n"
    and d: "durable (\<alpha> (db ?n)) \<in> set (votes C i)" and n: "role ?n = Leader" "current_term ?n = t"
    using ok [of i] leads by (simp_all add: member_ok_def leads_def)
  have self: "(t, u64_of_i32 i) \<in> set (votes C i)"
    using e d n by (simp add: elected_ok_def vote_of_def)
  have voted: "(t, u64_of_i32 i) \<in> set (votes C r)" if "r \<in> granted_votes ?n" for r
    using e n self that by (auto simp: elected_ok_def)
  have "granted_votes ?n \<subseteq> peer_id ` set ps"
    using voted ok by (fastforce simp: member_ok_def)
  moreover have "card (peer_id ` set ps) = length ps" by (rule configuration_card [OF conf])
  then have "card (peer_id ` set ps) div 2 < card (granted_votes ?n)"
    using e n by (simp add: elected_ok_def)
  ultimately show ?thesis using self voted unfolding elected_def by blast
qed

lemma elected_mono: "elected ps C i t \<Longrightarrow> (\<And>r. set (votes C r) \<subseteq> set (votes C' r)) \<Longrightarrow> elected ps C' i t"
  unfolding elected_def by blast

text \<open>Two quorums have a member in common, and it votes once in a term.\<close>

lemma elected_unique:
  assumes ok: "\<And>j. member_ok pb \<alpha> ps other C j" and conf: "configuration_ok ps other"
    and "elected ps C i t" and "elected ps C j t"
  shows "i = j"
proof -
  obtain Q Q' where Q: "Q \<subseteq> peer_id ` set ps" "Q' \<subseteq> peer_id ` set ps"
    "card (peer_id ` set ps) div 2 < card Q" "card (peer_id ` set ps) div 2 < card Q'"
    and voted: "\<forall>r \<in> Q. (t, u64_of_i32 i) \<in> set (votes C r)" "\<forall>r \<in> Q'. (t, u64_of_i32 j) \<in> set (votes C r)"
    using assms(3,4) unfolding elected_def by blast
  obtain r where "r \<in> Q" "r \<in> Q'" using configuration.quorums_meet [OF Q] by blast
  then have both: "(t, u64_of_i32 i) \<in> set (votes C r)" "(t, u64_of_i32 j) \<in> set (votes C r)"
    using voted by blast+
  have "u64_of_i32 k \<noteq> - 1" if "elected ps C k t" for k
  proof -
    have "k \<in> peer_id ` set ps" using that ok [of k] by (auto simp: elected_def member_ok_def)
    then show ?thesis using conf u64_of_i32_minus by (metis configuration_ok_def u64_of_i32_inject)
  qed
  moreover have "sorted_wrt vote_le (votes C r)" using ok [of r] by (simp add: member_ok_def)
  ultimately have "u64_of_i32 i = u64_of_i32 j" using one_vote_per_term both assms(3,4) by blast
  then show ?thesis by simp
qed

end
