(* ===== verification/Raft_Restart.thy ===== *)
theory Raft_Restart
  imports Raft_Leadership
begin

text \<open>
  Starting a node over a store that holds a persisted state, and the election of the only member of
  a cluster: the two runs of the life cycle that are shown to return.
\<close>

section \<open>Computations of the loop that return\<close>

lemma mseq_ret_unit: "mseq m (ret ()) = m"
  by (rule ext) (auto simp: mseq_app split: prod.split sum.split)

lemma runs_unitD: "runs P m \<Longrightarrow> P s \<Longrightarrow> \<exists>s'. m s = (Inr (), s') \<and> P s'"
  using runsD [of P m s] by auto

lemma runs_emit: "(\<And>n. P n \<Longrightarrow> P (n\<lparr>trace := trace n @ [x]\<rparr>)) \<Longrightarrow> runs P (emit x)"
  unfolding emit_def by (rule runs_mput)

lemma runs_cancel_opt [total]:
  assumes "quiet B P"
  shows "runs P (cancel_opt t)"
  unfolding cancel_opt_def by (intro total runs_emit quiet_trace [OF assms])

lemma runs_ResetElectionTimer [total]:
  assumes "quiet B P"
  shows "runs P ResetElectionTimer"
  unfolding ResetElectionTimer_def run_after_def
  by (intro total runs_emit runs_mput quietD [OF assms] quiet_trace [OF assms]
      runs_cancel_opt [OF assms])

lemma runs_for_peers:
  assumes "\<And>p. p \<in> set ps \<Longrightarrow> runs (\<lambda>n. P n \<and> peers n = ps) (f (peer_id p))"
  shows "runs (\<lambda>n. P n \<and> peers n = ps) (for_peers f)"
  unfolding for_peers_def using assms by (intro total) auto

lemma runs_PersistState:
  assumes "rocksdb_faultless (env_rocks E)" and "\<And>n d. P n \<Longrightarrow> P (n\<lparr>db := d\<rparr>)"
  shows "runs P (Node_PersistState E)"
  unfolding runs_def
proof (intro allI impI)
  fix n
  assume n: "P n"
  obtain d where "PersistState (env_rocks E) (current_term n) (voted_for n) (commit_index n)
      (last_applied n) (snapshot_index n) (snapshot_term n) (db n) = (Inr (), d)"
    using faultless_Write [OF assms(1)] unfolding PersistState_def by blast
  then show "\<exists>x s'. Node_PersistState E n = (Inr x, s') \<and> P s'"
    using assms(2) [OF n] by (simp add: Node_PersistState_def on_db_def)
qed

text \<open>With nothing left to apply and too few entries for a snapshot, applying only writes the state.\<close>

definition idle :: "'db node \<Rightarrow> bool" where
  "idle n \<longleftrightarrow> snapshot_index n \<le> last_applied n \<and> last_applied n = commit_index n \<and>
     commit_index n - snapshot_index n < kSnapshotThreshold"

lemma runs_ApplyCommitted_idle:
  assumes "rocksdb_faultless (env_rocks E)" and "\<And>n d. P n \<Longrightarrow> P (n\<lparr>db := d\<rparr>)" and "\<And>n. P n \<Longrightarrow> idle n"
  shows "runs P (ApplyCommitted E)"
proof -
  have loop: "runs P (apply_loop E)"
    using assms(3) by (auto simp: runs_def idle_def apply_loop.simps)
  have snapshot: "runs P (CreateSnapshotIfNeeded E)"
    using assms(3) by (force simp: runs_def idle_def CreateSnapshotIfNeeded_def)
  have "runs P (mget (\<lambda>n. mwhen (last_applied n < snapshot_index n)
       (mput (\<lambda>n. n\<lparr>last_applied := snapshot_index n\<rparr>))))"
    using assms(3) by (fastforce simp: runs_def idle_def mwhen_def)
  moreover have "runs P (Node_PersistState E)"
    by (rule runs_PersistState [OF assms(1)]) (rule assms(2))
  ultimately show ?thesis
    unfolding ApplyCommitted_def by (intro runs_mdo) (simp add: loop snapshot)
qed

section \<open>Restart\<close>

definition recovered :: "PersistedRaftState \<Rightarrow> 'db node \<Rightarrow> bool" where
  "recovered st n \<longleftrightarrow>
     current_term n = ps_current_term st \<and> voted_for n = ps_voted_for st \<and>
     commit_index n = ps_commit_index st \<and> last_applied n = ps_last_applied st \<and>
     snapshot_index n = ps_snapshot_index st \<and> snapshot_term n = ps_snapshot_term st \<and>
     snapshot_data n = ps_snapshot_data st \<and> log n = ps_log st \<and> role n = Follower \<and> \<not> stopping n"

text \<open>The persisted states that the node has nothing to do for: applied up to the commit index, which
  lies in the retained log, with less than a snapshot's worth of entries behind the snapshot.\<close>

definition settled :: "PersistedRaftState \<Rightarrow> bool" where
  "settled st \<longleftrightarrow>
     unat (ps_snapshot_index st) + length (ps_log st) < 2 ^ 64 - 1 \<and>
     ps_snapshot_index st \<le> ps_commit_index st \<and> ps_last_applied st = ps_commit_index st \<and>
     ps_commit_index st \<le> ps_snapshot_index st + of_nat (length (ps_log st)) \<and>
     ps_commit_index st - ps_snapshot_index st < kSnapshotThreshold"

lemma LoadState_recovers:
  assumes "rocksdb_ok (env_rocks E) \<alpha>" and "rocksdb_faultless (env_rocks E)"
    and "represents (env_pb E) (\<alpha> (db n)) st" and "settled st" and "role n = Follower"
    and "\<not> stopping n" and "peers n = ps" and "server_id n = me" and "endpoint n = ep" and "startup_error n = None"
  obtains m where "LoadState E n = (Inr (), m)" and "recovered st m" and "peers m = ps"
    and "server_id m = me" and "endpoint m = ep" and "startup_error m = None"
proof -
  have load: "Load (env_pb E) (env_rocks E) (db n) = Inr st"
    using assms(4) by (intro Load_represents [OF assms(1-3)]) (simp add: settled_def)
  let ?m = "n\<lparr>snapshot_index := ps_snapshot_index st, snapshot_term := ps_snapshot_term st,
    snapshot_data := ps_snapshot_data st, current_term := ps_current_term st,
    voted_for := ps_voted_for st, log := ps_log st, commit_index := ps_commit_index st,
    last_applied := ps_last_applied st\<rparr>"
  let ?P = "\<lambda>m. recovered st m \<and> peers m = ps \<and> server_id m = me \<and> endpoint m = ep \<and> startup_error m = None"
  have "max (ps_commit_index st) (ps_snapshot_index st) = ps_commit_index st"
    "min (ps_commit_index st) (ps_snapshot_index st + of_nat (length (ps_log st))) = ps_commit_index st"
    "ps_last_applied st = ps_commit_index st"
    using assms(4) by (simp_all add: settled_def max_absorb1 min_absorb1)
  then have "LoadState E n = ApplyCommitted E ?m"
    by (simp add: LoadState_def mbind_app load mseq_ret_unit mseq_app [of "mput _"] LastIndex_def)
  moreover have "runs ?P (ApplyCommitted E)"
    using assms(4) by (intro runs_ApplyCommitted_idle assms) (auto simp: recovered_def idle_def settled_def)
  moreover have "?P ?m" using assms by (simp add: recovered_def)
  ultimately show thesis using that runsD [of ?P "ApplyCommitted E" ?m] by fastforce
qed

definition endpoints_ok :: "i32 \<Rightarrow> string \<Rightarrow> RaftPeer list \<Rightarrow> bool" where
  "endpoints_ok me ep ps \<longleftrightarrow> (\<exists>h. ParseEndpoint ep = Inr h) \<and>
     (\<forall>p \<in> set ps. i32_less me (peer_id p) \<longrightarrow> (\<exists>h. ParseEndpoint (peer_endpoint p) = Inr h))"

lemma runs_CreatePeerClient:
  assumes "quiet B P" and "\<And>n. P n \<Longrightarrow> peers n = ps \<and> server_id n = me" and "endpoints_ok me ep ps"
  shows "runs P (CreatePeerClient peer)"
proof -
  have connect: "runs P (mbind (lift_result (ParseEndpoint (peer_endpoint p))) (\<lambda>(host, port). mdo [
           emit (ClientConnect peer host port), mput (\<lambda>n. n\<lparr>clients := List.insert peer (clients n)\<rparr>)]))"
    if p: "p \<in> set ps" "peer_id p = peer" "i32_less me peer" for p
  proof -
    obtain h where "ParseEndpoint (peer_endpoint p) = Inr h"
      using assms(3) p unfolding endpoints_ok_def by blast
    moreover have "runs P (mdo [emit (ClientConnect peer (fst h) (snd h)),
        mput (\<lambda>n. n\<lparr>clients := List.insert peer (clients n)\<rparr>)])"
      by (intro total runs_emit runs_mput quietD [OF assms(1)] quiet_trace [OF assms(1)])
    ultimately show ?thesis
      by (simp add: runs_def mbind_app split_beta del: mdo.simps)
  qed
  show ?thesis
    unfolding CreatePeerClient_def
  proof (intro runs_mget runs_case_option runs_ret)
    fix n p
    assume n: "P n" and p: "find (\<lambda>p. peer_id p = peer) (peers n) = Some p"
    have "p \<in> set ps" "peer_id p = peer" using p assms(2) [OF n] by (auto simp: find_Some_iff)
    then show "runs P (if \<not> i32_less (server_id n) peer then ret ()
      else mbind (lift_result (ParseEndpoint (peer_endpoint p))) (\<lambda>(host, port). mdo [
           emit (ClientConnect peer host port), mput (\<lambda>n. n\<lparr>clients := List.insert peer (clients n)\<rparr>)]))"
      using connect assms(2) [OF n] by (simp add: runs_ret del: mdo.simps)
  qed
qed

lemma StartInLoop_recovers:
  assumes "rocksdb_ok (env_rocks E) \<alpha>" and "rocksdb_faultless (env_rocks E)"
    and "represents (env_pb E) (\<alpha> (db n)) st" and "settled st"
    and "\<not> stopping n" and "peers n = ps" and "server_id n = me" and "endpoint n = ep" and "startup_error n = None"
    and eps: "endpoints_ok me ep ps"
  shows "\<exists>m. StartInLoop E n = (Inr (), m) \<and> recovered st m \<and> ready m \<and> peers m = ps \<and>
    server_id m = me \<and> startup_error m = None"
proof -
  let ?n = "n\<lparr>role := Follower, votes_received := 0, granted_votes := {}\<rparr>"
  obtain m where load: "LoadState E ?n = (Inr (), m)"
    and m: "recovered st m" "peers m = ps" "server_id m = me" "endpoint m = ep" "startup_error m = None"
    by (rule LoadState_recovers [OF assms(1,2), of ?n st ps me ep]) (use assms in auto)
  let ?P = "\<lambda>m. (recovered st m \<and> server_id m = me \<and> endpoint m = ep \<and> startup_error m = None) \<and> peers m = ps"
  let ?R = "\<lambda>m. recovered st m \<and> server_id m = me \<and> startup_error m = None \<and> peers m = ps \<and> ready m"
  have q: "quiet (\<lambda>_. True) ?P" and r: "quiet (\<lambda>_. True) ?R"
    by (auto simp: quiet_def recovered_def)
  let ?listen = "mget (\<lambda>n. mbind (lift_result (ParseEndpoint (endpoint n))) (\<lambda>(host, port). emit (ServerStart host port)))"
  let ?connect = "for_peers (\<lambda>p. mseq (mget (\<lambda>n. mwhen (i32_less (server_id n) p) (CreatePeerClient p))) (init_peer p))"
  have "runs ?P ?listen"
    using eps by (auto simp: runs_def endpoints_ok_def mbind_app emit_def recovered_def)
  from runs_unitD [OF this, of m] m obtain k where k: "?listen m = (Inr (), k)" "?P k" by blast
  have "runs ?P ?connect"
    unfolding init_peer_def
    by (intro runs_for_peers total runs_mput runs_CreatePeerClient [OF q _ eps]) (auto simp: recovered_def)
  from runs_unitD [OF this k(2)] obtain k' where k': "?connect k = (Inr (), k')" "?P k'" by blast
  have "?R (k'\<lparr>ready := True\<rparr>)" using k'(2) by (simp add: recovered_def)
  with runs_unitD [OF runs_ResetElectionTimer [OF r]] obtain m' where
    m': "ResetElectionTimer (k'\<lparr>ready := True\<rparr>) = (Inr (), m')" "?R m'" by blast
  have "StartInLoop E n = (Inr (), m')"
    by (simp only: StartInLoop_def mdo.simps mseq_Inr [OF mput_app] mseq_Inr [where m = "LoadState E", OF load]
        mseq_Inr [where m = ?listen, OF k(1)] mseq_Inr [where m = ?connect, OF k'(1)]
        mseq_Inr [where m = ResetElectionTimer, OF m'(1)] ret_app)
  with m'(2) show ?thesis by blast
qed

lemma Start_recovers:
  assumes "rocksdb_ok (env_rocks E) \<alpha>" and "rocksdb_faultless (env_rocks E)"
    and "represents (env_pb E) (\<alpha> d) st" and "settled st" and "endpoints_ok me ep ps"
  shows "\<exists>n. Start E (fresh_node me ep port d ps) = (Inr (), n) \<and> recovered st n \<and> ready n \<and>
    peers n = ps \<and> server_id n = me"
proof -
  let ?n = "(fresh_node me ep port d ps)\<lparr>stopping := False, ready := False, leader := False,
    startup_finished := False, startup_error := None, raft_thread := True, raft_loop := True\<rparr>"
  have "\<exists>m. StartInLoop E ?n = (Inr (), m) \<and> recovered st m \<and> ready m \<and> peers m = ps \<and>
      server_id m = me \<and> startup_error m = None"
    by (rule StartInLoop_recovers [OF assms(1,2) _ assms(4) _ _ _ _ _ assms(5)])
       (use assms(3) in \<open>simp_all add: fresh_node_def\<close>)
  then obtain m where m: "StartInLoop E ?n = (Inr (), m)" "recovered st m" "ready m" "peers m = ps"
    "server_id m = me" "startup_error m = None" by blast
  have raft: "\<not> raft_thread (fresh_node me ep port d ps)" by (simp add: fresh_node_def)
  have "Start E (fresh_node me ep port d ps) = (Inr (), m\<lparr>startup_finished := True\<rparr>)"
    using m(1,6) raft by (simp add: Start_def mseq_app mtry_def)
  then show ?thesis using m(2-5) by (simp add: recovered_def)
qed

section \<open>The only member of a cluster elects itself\<close>

lemma runs_for_peers_alone:
  assumes "\<And>n. P n \<Longrightarrow> \<forall>p \<in> set (peers n). peer_id p = server_id n"
  shows "runs P (for_peers f)"
  unfolding for_peers_def using assms by (intro total) auto

lemma runs_BecomeLeader_alone:
  assumes q: "quiet (\<lambda>_. True) P" and alone: "\<And>n. P n \<Longrightarrow> \<forall>p \<in> set (peers n). peer_id p = server_id n"
    and n: "P (n\<lparr>role := Leader, leader := True\<rparr>)"
  shows "\<exists>m. BecomeLeader E n = (Inr (), m) \<and> P m"
proof -
  note peers = runs_for_peers_alone [of P, OF alone]
  have "runs P (run_after kHeartbeatInterval HeartbeatTick)"
    unfolding run_after_def by (intro total runs_emit runs_mput quietD [OF q] quiet_trace [OF q])
  then have "runs P (SendHeartbeats E)"
    unfolding SendHeartbeats_def
    by (intro runs_mget) (auto intro!: total peers runs_mput quietD [OF q])
  then have "runs P (mdo [
     mget (\<lambda>n. cancel_opt (election_timer n)), mput (\<lambda>n. n\<lparr>election_timer := None\<rparr>),
     mget (\<lambda>n. cancel_opt (heartbeat_timer n)), mput (\<lambda>n. n\<lparr>heartbeat_timer := None\<rparr>),
     for_peers (\<lambda>p. mput (\<lambda>n. n\<lparr>
       next_index := AList.update p (LastIndex n + 1) (next_index n),
       match_index := AList.update p 0 (match_index n),
       rpc_inflight := (rpc_inflight n)(p := False)\<rparr>)),
     SendHeartbeats E])" (is "runs P ?rest")
    by (intro runs_mdo list_all_total runs_mget runs_cancel_opt [OF q] runs_mput quietD [OF q] peers)
  from runs_unitD [OF this n] show ?thesis
    by (simp only: BecomeLeader_def mdo.simps mseq_Inr [OF mput_app])
qed

lemma election_alone:
  assumes store: "rocksdb_ok (env_rocks E) \<alpha>" "rocksdb_faultless (env_rocks E)"
    and n: "peers n = [p]" "peer_id p = server_id n" "role n \<noteq> Leader" "\<not> stopping n"
  shows "\<exists>m. handle_event E (Fire ElectionTimeout) n = (Inr (), m) \<and> role m = Leader \<and>
    current_term m = current_term n + 1 \<and> durable (\<alpha> (db m)) = (current_term n + 1, u64_of_i32 (server_id n))"
proof -
  let ?m = "n\<lparr>role := Candidate, leader := False, current_term := current_term n + 1,
       voted_for := u64_of_i32 (server_id n), votes_received := 1, granted_votes := {server_id n}\<rparr>"
  let ?Q = "\<lambda>m. peers m = [p] \<and> server_id m = server_id n \<and> current_term m = current_term n + 1 \<and>
    durable (\<alpha> (db m)) = (current_term n + 1, u64_of_i32 (server_id n))"
  let ?C = "\<lambda>m. ?Q m \<and> votes_received m = 1" and ?L = "\<lambda>m. ?Q m \<and> role m = Leader"
  have qc: "quiet (\<lambda>_. True) ?C" and ql: "quiet (\<lambda>_. True) ?L" by (auto simp: quiet_def)
  obtain d where run: "Node_PersistState E ?m = (Inr (), ?m\<lparr>db := d\<rparr>)" and d: "durable (\<alpha> d) = vote_of ?m"
    using faultless_PersistState [OF store] by blast
  have "?C (?m\<lparr>db := d\<rparr>)" using d n by (simp add: vote_of_def)
  with runs_unitD [OF runs_ResetElectionTimer [OF qc]] obtain k where
    k: "ResetElectionTimer (?m\<lparr>db := d\<rparr>) = (Inr (), k)" "?C k" by blast
  have "runs ?C (SendRequestVotes E)"
    unfolding SendRequestVotes_def using n(2) by (intro runs_for_peers_alone) auto
  from runs_unitD [OF this k(2)] obtain k' where k': "SendRequestVotes E k = (Inr (), k')" "?C k'" by blast
  have "\<exists>m. BecomeLeader E k' = (Inr (), m) \<and> ?L m"
    using k'(2) n(2) by (intro runs_BecomeLeader_alone [OF ql]) auto
  then obtain m where m: "BecomeLeader E k' = (Inr (), m)" "?L m" by blast
  have "quorum k' \<le> votes_received k'" using k'(2) by (simp add: quorum_def)
  then have "BecomeCandidate E n = (Inr (), m)"
    by (simp only: BecomeCandidate_def mdo.simps mseq_Inr [OF mput_app]
        mseq_Inr [where m = "Node_PersistState E", OF run] mseq_Inr [where m = ResetElectionTimer, OF k(1)]
        mseq_Inr [where m = "SendRequestVotes E", OF k'(1)] mseq_ret_unit mget_app mwhen_def if_True m(1))
  then have "handle_event E (Fire ElectionTimeout) n = (Inr (), m)"
    using n(3,4) by (simp add: handle_event_def run_callback_def on_election_timeout_def mwhen_def)
  then show ?thesis using m(2) by blast
qed

end
