(* ===== verification/Election_Properties.thy ===== *)
theory Election_Properties
  imports Raft_Cluster Raft_Restart Mem_Instance
begin

text \<open>
  The properties of terms, votes, elections and restarts, each followed by an instance on the
  in-memory store and codecs.
\<close>

section \<open>Instances\<close>

definition demo_peer :: RaftPeer where
  "demo_peer = \<lparr>peer_id = 1, peer_endpoint = ''127.0.0.1:9000''\<rparr>"

definition demo_node :: "mem node" where
  "demo_node = fresh_node 1 ''127.0.0.1:9000'' 9000 [] [demo_peer]"

text \<open>A wiring in which the two ends of a connection carry each other's number.\<close>

definition demo_wiring :: wiring where
  "demo_wiring e = (if snd e < 2 ^ 32 then (word_of_nat (snd e), unat (fst e)) else e)"

definition demo_cluster :: "mem cluster" where
  "demo_cluster = \<lparr>member = (\<lambda>_. demo_node), up = (\<lambda>_. False), sent = (\<lambda>_. []), votes = (\<lambda>_. [])\<rparr>"

lemma demo_cluster_start: "cluster_start demo_cluster"
  by (simp add: cluster_start_def demo_cluster_def)

lemma demo_configuration: "configuration_ok [demo_peer] demo_wiring"
proof -
  have "unat (x :: i32) < 4294967296" for x using unsigned_less [of x] by simp
  then show ?thesis
    by (auto simp: configuration_ok_def demo_peer_def demo_wiring_def unat_of_nat)
qed

lemma blank_settled: "settled blank_state"
  by (simp add: blank_state_def settled_def kSnapshotThreshold_def)

lemma demo_endpoints: "endpoints_ok 1 ''127.0.0.1:9000'' [demo_peer]"
proof -
  have "''127.0.0.1:9000'' = ''127.0.0.1'' @ CHR '':'' # dec 9000"
    by (simp add: dec.simps digit_char_def char_of_def bit_0)
  then have "ParseEndpoint ''127.0.0.1:9000'' = Inr (''127.0.0.1'', 9000)"
    using ParseEndpoint_format [of "''127.0.0.1''" 9000] by simp
  then show ?thesis
    by (auto simp: endpoints_ok_def demo_peer_def)
qed

lemma mem_environment: "environment mem_pb map_of mem_env" "rocksdb_faultless (env_rocks mem_env)"
  by (simp_all add: environment_def mem_rocks_ok mem_rocks_faultless)

text \<open>A run of the single member to leadership in term 1.\<close>

lemma demo_election:
  obtains C where "(cluster_step mem_pb map_of [demo_peer] demo_wiring)\<^sup>*\<^sup>* demo_cluster C" and "leads C 1 1"
proof -
  let ?step = "cluster_step mem_pb map_of [demo_peer] demo_wiring"
  have fresh: "demo_node = fresh_node 1 ''127.0.0.1:9000'' 9000 (db (member demo_cluster 1)) [demo_peer]"
    by (simp add: demo_cluster_def demo_node_def fresh_node_def)
  obtain n where start: "Start mem_env demo_node = (Inr (), n)" and n: "recovered blank_state n"
    "peers n = [demo_peer]" "server_id n = 1"
    using Start_recovers [of mem_env map_of "[]" blank_state 1 "''127.0.0.1:9000''" "[demo_peer]" 9000]
      mem_rocks_ok mem_rocks_faultless blank_represents blank_settled demo_endpoints by (auto simp: demo_node_def)
  let ?C = "advance mem_pb map_of demo_wiring 1 demo_node n True demo_cluster"
  have s1: "?step demo_cluster ?C"
    using cluster_move.restarts [OF _ _ mem_environment(1) fresh _ start, where other = demo_wiring and Q = "\<lambda>_ _ _. True"]
    by (simp add: cluster_step_def demo_peer_def demo_cluster_def returned_def)
  obtain m where elect: "handle_event mem_env (Fire ElectionTimeout) n = (Inr (), m)"
    and m: "role m = Leader" "current_term m = 1"
    using election_alone [of mem_env map_of n demo_peer] mem_environment n
    by (auto simp: environment_def recovered_def blank_state_def demo_peer_def)
  have member: "member ?C 1 = n" "up ?C 1" by (simp_all add: advance_def Let_def)
  have s2: "?step ?C (advance mem_pb map_of demo_wiring 1 n m True ?C)"
    using cluster_move.runs [where Q = "\<lambda>_ _ _. True" and i = 1 and C = ?C and ev = "Fire ElectionTimeout" and ps = "[demo_peer]"
        and r = "Inr ()" and n' = m, OF _ member(2) mem_environment] elect member n
    by (simp add: cluster_step_def demo_peer_def returned_def term_room_def recovered_def blank_state_def)
  show thesis
  proof (rule that)
    show "?step\<^sup>*\<^sup>* demo_cluster (advance mem_pb map_of demo_wiring 1 n m True ?C)"
      using s1 s2 by (meson converse_rtranclp_into_rtranclp r_into_rtranclp)
    show "leads (advance mem_pb map_of demo_wiring 1 n m True ?C) 1 1"
      using m by (simp add: leads_def advance_def Let_def)
  qed
qed

section \<open>Elections of a cluster\<close>

text \<open>C1: Election safety. In every run of a cluster whose members run this code over stores that do
  not fail while the member is up, with crashes inside callbacks (in which the store may fail),
  restarts from what is on disk, and a network that loses, delays, duplicates and reorders frames:
  two members that lead in the same term, at the same or at different moments of the run, are the
  same member.\<close>

theorem election_safety:
  assumes codecs: "codecs_ok pb" and conf: "configuration_ok ps other" and start: "cluster_start C0"
    and first: "(cluster_step pb \<alpha> ps other)\<^sup>*\<^sup>* C0 C" and later: "(cluster_step pb \<alpha> ps other)\<^sup>*\<^sup>* C C'"
    and i: "leads C i t" and j: "leads C' j t"
  shows "i = j"
proof -
  note first = first [unfolded cluster_step_def] and later = later [unfolded cluster_step_def]
  note ok = run_ok(1) [OF first codecs conf start_ok [OF start]]
  note ok' = run_ok [OF later codecs conf ok]
  have "elected ps C' i t"
    using leader_elected [OF ok i conf] ok'(2) by (rule elected_mono)
  then show ?thesis
    using elected_unique [OF ok'(1) conf] leader_elected [OF ok'(1) j conf] by blast
qed

theorem election_safety_witness:
  "\<exists>C i j. (cluster_step mem_pb map_of [demo_peer] demo_wiring)\<^sup>*\<^sup>* demo_cluster C \<and>
     leads C i 1 \<and> leads C j 1 \<and> i = j"
proof -
  obtain C where C: "(cluster_step mem_pb map_of [demo_peer] demo_wiring)\<^sup>*\<^sup>* demo_cluster C" "leads C 1 1"
    by (rule demo_election)
  from election_safety [OF mem_pb_ok demo_configuration demo_cluster_start C(1) rtranclp.rtrancl_refl C(2) C(2)] C
  show ?thesis by blast
qed

text \<open>C9: A leader was elected by a quorum whose votes are durable: in every reachable state of the
  cluster there is a majority of the members on whose disks the vote for the leader, or a later one,
  is stored, whether those members are up or not.\<close>

theorem leader_has_durable_quorum:
  assumes "codecs_ok pb" and conf: "configuration_ok ps other" and "cluster_start C0"
    and "(cluster_step pb \<alpha> ps other)\<^sup>*\<^sup>* C0 C" and leads: "leads C i t"
  shows "\<exists>Q \<subseteq> peer_id ` set ps. length ps div 2 < card Q \<and>
    Q \<subseteq> {r. vote_le (t, u64_of_i32 i) (durable (\<alpha> (db (member C r))))}"
proof -
  note ok = run_ok(1) [OF assms(4) [unfolded cluster_step_def] assms(1,2) start_ok [OF assms(3)]]
  obtain Q where Q: "Q \<subseteq> peer_id ` set ps" "card (peer_id ` set ps) div 2 < card Q"
    and voted: "\<And>r. r \<in> Q \<Longrightarrow> (t, u64_of_i32 i) \<in> set (votes C r)"
    using leader_elected [OF ok leads conf] unfolding elected_def by blast
  have "vote_le (t, u64_of_i32 i) (durable (\<alpha> (db (member C r))))" if "r \<in> Q" for r
    using voted [OF that] ok [of r] by (simp add: member_ok_def)
  moreover have "card (peer_id ` set ps) = length ps" by (rule configuration_card [OF conf])
  ultimately show ?thesis using Q by (intro exI [of _ Q]) auto
qed

theorem leader_has_durable_quorum_witness:
  "\<exists>C. leads C 1 1 \<and> (\<exists>Q \<subseteq> peer_id ` set [demo_peer]. length [demo_peer] div 2 < card Q \<and>
    Q \<subseteq> {r. vote_le (1, u64_of_i32 1) (durable (map_of (db (member C r))))})"
proof -
  obtain C where C: "(cluster_step mem_pb map_of [demo_peer] demo_wiring)\<^sup>*\<^sup>* demo_cluster C" "leads C 1 1"
    by (rule demo_election)
  from leader_has_durable_quorum [OF mem_pb_ok demo_configuration demo_cluster_start C] C(2)
  show ?thesis by blast
qed

section \<open>Votes of a node\<close>

text \<open>C17: The term and the vote in memory only move upwards, to a later term or from no vote to a vote
  in the same term, at every event and whatever the messages, the environment and the store do, as long
  as an election timeout does not meet the last 64-bit term.\<close>

theorem vote_moves_up:
  assumes "term_room ev n"
  shows "vote_le (vote_of n) (vote_of (snd (handle_event E ev n)))"
proof -
  have n: "voted_since (vote_of n) n" by (simp add: voted_since_def)
  have "voted_since (vote_of n) (snd (handle_event E ev n))"
  proof (cases "ev = Fire ElectionTimeout")
    case True
    then show ?thesis
      using voted_since_campaign [OF n] assms by (simp add: term_room_def handle_event_def run_callback_def)
  next
    case False
    have "rpcs_ok E (\<lambda>_ _. True) ev" by (cases ev) (auto split: option.split)
    from since.event [OF this False] n show ?thesis by (rule preserves_run)
  qed
  then show ?thesis by (simp add: voted_since_def)
qed

theorem vote_moves_up_witness:
  "vote_le (vote_of demo_node) (vote_of (snd (handle_event mem_env (Fire ElectionTimeout) demo_node)))"
  by (rule vote_moves_up) (simp add: term_room_def demo_node_def fresh_node_def)

text \<open>C16: Votes are durable before they are given away. At every event, for every behaviour of the
  store that its documentation allows (a write may fail with or without effect): the granted vote
  responses that the event sends lie, in the order of votes, between the vote on disk before the event
  and the vote on disk after it, so that no two of them, nor one before and one after a crash, give
  votes to different candidates in one term. Requests are assumed to name the peer at the other end of
  their connection.\<close>

theorem granted_votes_durable:
  assumes "rocksdb_ok (env_rocks E) \<alpha>" and "codecs_ok (env_pb E)"
    and "rpcs_ok E (asks_for (env_pb E) peer) ev" and "term_room ev n"
    and "vote_le (durable (\<alpha> (db n))) (vote_of n)"
    and "handle_event E ev n = (r, n')"
  shows "\<exists>new. trace n' = trace n @ new \<and>
    sorted_wrt vote_le (durable (\<alpha> (db n)) # ballots (env_pb E) peer new @ [durable (\<alpha> (db n'))]) \<and>
    vote_le (durable (\<alpha> (db n'))) (vote_of n')"
proof -
  have "votes_ok (env_pb E) \<alpha> peer n (snd (handle_event E ev n))"
    using assms(4) by (intro votes_ok_event assms(1-3) votes_ok_start assms(5)) (simp add: term_room_def)
  then show ?thesis using assms(6) by (auto simp: votes_ok_def)
qed

definition demo_request :: RequestVoteRequest where
  "demo_request = \<lparr>rv_term = 3, rv_candidate_id = 2, rv_last_log_index = 0, rv_last_log_term = 0\<rparr>"

definition demo_rpc :: RaftRpc where
  "demo_rpc = \<lparr>msg_type = REQUEST_VOTE, msg_request_id = 7, msg_sender_id = 2,
     msg_payload = the (serialize (request_vote_pb mem_pb) demo_request)\<rparr>"

definition demo_ask :: string where
  "demo_ask = the (serialize (rpc_pb mem_pb) demo_rpc)"

lemma demo_ask_parses: "parse (rpc_pb mem_pb) demo_ask = Some demo_rpc"
  "parse (request_vote_pb mem_pb) (msg_payload demo_rpc) = Some demo_request"
  using mem_pb_ok mem_pb_total
  by (auto simp: demo_ask_def demo_rpc_def codecs_ok_def codecs_total_def codec_ok_def codec_total_def)

lemma demo_ask_delivered:
  "rpcs_ok mem_env (asks_for (env_pb mem_env) (\<lambda>_. 2)) (Bytes 5 (htonl_bytes (length demo_ask) @ demo_ask))"
proof -
  have len: "length demo_ask \<le> kMaxFrameSize"
  proof -
    have "length demo_ask \<le> 100" by code_simp
    then show ?thesis by (simp add: kMaxFrameSize_def)
  qed
  then have "fst (deframe (htonl_bytes (length demo_ask) @ demo_ask)) = [demo_ask]"
    by (subst deframe_Frame [where e = "[]"]) (simp_all add: frame_or_def)
  then show ?thesis
    using demo_ask_parses by (simp add: asks_for_def) (simp add: demo_request_def)
qed

theorem granted_votes_durable_witness:
  "\<exists>n' new. trace n' = trace demo_node @ new \<and>
    sorted_wrt vote_le (durable (map_of (db demo_node)) # ballots mem_pb (\<lambda>_. 2) new @ [durable (map_of (db n'))]) \<and>
    vote_le (durable (map_of (db n'))) (vote_of n')"
proof -
  obtain r n' where "handle_event mem_env (Bytes 5 (htonl_bytes (length demo_ask) @ demo_ask)) demo_node = (r, n')"
    by fastforce
  from granted_votes_durable [OF _ _ demo_ask_delivered _ _ this, where \<alpha> = map_of]
  show ?thesis
    by (auto simp: mem_rocks_ok mem_pb_ok term_room_def demo_node_def fresh_node_def vote_of_def durable_def
        ParseUint64_def ParseInt64_def)
qed

text \<open>C32: The flag that \<open>IsLeader\<close> reads agrees with the role: every event, whatever it carries and
  whether it throws or not, keeps the agreement.\<close>

theorem leader_flag_agrees:
  assumes "leader n = (role n = Leader)" and "handle_event E ev n = (r, n')"
  shows "leader n' = (role n' = Leader)"
proof -
  have "rpcs_ok E (\<lambda>_ _. True) ev" by (cases ev) (auto split: option.split)
  from preservesD [OF flag.any_event [OF this] assms(2)] assms(1)
  show ?thesis by (simp add: leader_flag_def)
qed

theorem leader_flag_agrees_witness:
  "leader (snd (handle_event mem_env (Fire ElectionTimeout) demo_node)) =
   (role (snd (handle_event mem_env (Fire ElectionTimeout) demo_node)) = Leader)"
  by (rule leader_flag_agrees [where n = demo_node, OF _ prod.collapse [symmetric]])
     (simp add: demo_node_def fresh_node_def)

section \<open>Starting and campaigning\<close>

text \<open>C18: A restart recovers. Over a store that holds a persisted state in which everything committed
  is applied and less than a snapshot's worth of entries lies behind the snapshot, and with endpoints
  that parse, \<open>Start\<close> returns, and the node is a ready follower with exactly the persisted term,
  vote, log, snapshot and indices.\<close>

theorem restart_recovers:
  assumes "rocksdb_ok (env_rocks E) \<alpha>" and "rocksdb_faultless (env_rocks E)"
    and "represents (env_pb E) (\<alpha> d) st" and "settled st" and "endpoints_ok me ep ps"
  shows "\<exists>n. Start E (fresh_node me ep port d ps) = (Inr (), n) \<and> recovered st n \<and> ready n"
  using Start_recovers [OF assms, of port] by blast

theorem restart_recovers_witness:
  "\<exists>n. Start mem_env (fresh_node 1 ''127.0.0.1:9000'' 9000 [] [demo_peer]) = (Inr (), n) \<and>
     recovered blank_state n \<and> ready n"
  using blank_represents blank_settled by (intro restart_recovers [of _ map_of] demo_endpoints)
    (simp_all add: mem_rocks_ok mem_rocks_faultless)

text \<open>C31: The only member of a cluster that does not lead becomes leader of the next term at its
  election timeout: the callback returns, with the vote for itself on disk.\<close>

theorem single_member_elects_itself:
  assumes "rocksdb_ok (env_rocks E) \<alpha>" and "rocksdb_faultless (env_rocks E)"
    and "peers n = [p]" and "peer_id p = server_id n" and "role n \<noteq> Leader" and "\<not> stopping n"
  shows "\<exists>m. handle_event E (Fire ElectionTimeout) n = (Inr (), m) \<and> role m = Leader \<and>
    current_term m = current_term n + 1 \<and>
    durable (\<alpha> (db m)) = (current_term n + 1, u64_of_i32 (server_id n))"
  by (rule election_alone [OF assms])

theorem single_member_elects_itself_witness:
  "\<exists>m. handle_event mem_env (Fire ElectionTimeout) demo_node = (Inr (), m) \<and> role m = Leader \<and>
     current_term m = 1 \<and> durable (map_of (db m)) = (1, 1)"
  using single_member_elects_itself [of mem_env map_of demo_node demo_peer]
  by (simp add: mem_rocks_ok mem_rocks_faultless demo_node_def fresh_node_def demo_peer_def u64_of_i32_def)

section \<open>A write that fails while stepping down\<close>

text \<open>C35: When the write of a newer term fails, \<open>StepDown\<close> throws with the newer term already in
  memory and the role unchanged: a leader goes on as a leader of a term in which nobody elected it.\<close>

theorem failed_step_down_keeps_role:
  assumes "current_term n < t"
    and "Node_PersistState E (n\<lparr>current_term := t, voted_for := - 1\<rparr>) = (Inl e, m)"
  shows "StepDown E t n = (Inl e, m) \<and> current_term m = t \<and> role m = role n"
  using assms
  by (auto simp: StepDown_def mwhen_def mseq_app Node_PersistState_def on_db_def split: prod.splits)

definition full_rocks :: "mem rocksdb" where
  "full_rocks = mem_rocks\<lparr>DB_Write := (\<lambda>m ops. (Status_Error ''IO error: No space left on device'', m))\<rparr>"

theorem failed_step_down_keeps_role_witness:
  "\<exists>m. StepDown (mem_env\<lparr>env_rocks := full_rocks\<rparr>) 9 (demo_node\<lparr>role := Leader\<rparr>)
       = (Inl (Runtime_error ''RocksDB atomic write failed: IO error: No space left on device''), m) \<and>
     current_term m = 9 \<and> role m = Leader"
proof -
  have "Node_PersistState (mem_env\<lparr>env_rocks := full_rocks\<rparr>)
      ((demo_node\<lparr>role := Leader\<rparr>)\<lparr>current_term := 9, voted_for := - 1\<rparr>) =
      (Inl (Runtime_error ''RocksDB atomic write failed: IO error: No space left on device''),
       (demo_node\<lparr>role := Leader\<rparr>)\<lparr>current_term := 9, voted_for := - 1\<rparr>)"
    by (simp add: Node_PersistState_def on_db_def PersistState_def WriteAtomically_def full_rocks_def mbind_app)
  from failed_step_down_keeps_role [OF _ this] show ?thesis by (auto simp: demo_node_def fresh_node_def)
qed

end
