(* ===== verification/Raft_Log.thy ===== *)
theory Raft_Log
  imports Raft_Loop
begin

text \<open>
  The replicated log of a node (\<open>src/raft_node.cpp\<close>): its entries by index, the loop over the
  entries of an AppendEntries request against a reference definition on lists, the batch of entries
  a leader sends, and the index it may commit.
\<close>

section \<open>Entries by index\<close>

text \<open>The index counts from the beginning of time; the entries up to the snapshot are gone.\<close>

definition log_at :: "'db node \<Rightarrow> nat \<Rightarrow> RaftLogEntry option" where
  "log_at n i =
     (if unat (snapshot_index n) < i \<and> i \<le> unat (snapshot_index n) + length (log n)
      then Some (log n ! (i - unat (snapshot_index n) - 1)) else None)"

definition log_fits :: "'db node \<Rightarrow> bool" where
  "log_fits n \<longleftrightarrow> unat (snapshot_index n) + length (log n) < 2 ^ 64"

definition last_nat :: "'db node \<Rightarrow> nat" where
  "last_nat n = unat (snapshot_index n) + length (log n)"

lemma unat_LastIndex [simp]: "log_fits n \<Longrightarrow> unat (LastIndex n) = last_nat n"
  by (simp add: LastIndex_def log_fits_def last_nat_def unat_add_of_nat)

lemma LogOffset_iff:
  assumes "log_fits n"
  shows "LogOffset n index = Inr offset \<longleftrightarrow>
    unat (snapshot_index n) < unat index \<and> unat index \<le> last_nat n \<and>
    offset = unat index - unat (snapshot_index n) - 1"
proof -
  have "unat (index - snapshot_index n - 1) = unat index - unat (snapshot_index n) - 1"
    if "snapshot_index n < index"
  proof -
    have "unat (index - snapshot_index n) = unat index - unat (snapshot_index n)"
      using that by (intro unat_sub) simp
    moreover from this that have "index - snapshot_index n \<noteq> 0" by (auto simp: word_less_nat_alt)
    ultimately show ?thesis by (simp add: unat_minus_one)
  qed
  with assms show ?thesis
    by (auto simp: LogOffset_def word_less_nat_alt word_le_nat_alt)
qed

lemma LogOffset_Inr:
  assumes "log_fits n" and "unat (snapshot_index n) < unat index" and "unat index \<le> last_nat n"
  shows "LogOffset n index = Inr (unat index - unat (snapshot_index n) - 1)"
  using LogOffset_iff [OF assms(1)] assms(2,3) by blast

lemma TermAt_log:
  assumes "log_fits n" and "unat (snapshot_index n) < unat index"
  shows "TermAt n index = (case log_at n (unat index) of None \<Rightarrow> 0 | Some e \<Rightarrow> entry_term e)"
  using assms LogOffset_Inr [OF assms]
  by (auto simp: TermAt_def log_at_def last_nat_def word_less_nat_alt word_le_nat_alt)

section \<open>AppendEntries\<close>

text \<open>
  The reference definition: existing entries stay as long as the incoming ones agree with them in
  the term; from the first that does not, or from the end of the log on, the incoming ones count.
\<close>

fun merge :: "RaftLogEntry list \<Rightarrow> RaftLogEntry list \<Rightarrow> RaftLogEntry list" where
  "merge [] es = es"
| "merge (x # xs) [] = x # xs"
| "merge (x # xs) (e # es) = (if entry_term x = entry_term e then x # merge xs es else e # es)"

definition entry_of :: "proto_RaftLogEntry \<Rightarrow> RaftLogEntry" where
  "entry_of p = \<lparr>entry_term = le_term p, entry_command = le_command p\<rparr>"

lemma entry_of_term [simp]: "entry_term (entry_of p) = le_term p"
  by (simp add: entry_of_def)

lemma merge_Nil [simp]: "merge xs [] = xs"
  by (cases xs) auto

lemma length_merge_le: "length (merge xs es) \<le> max (length xs) (length es)" "length es \<le> length (merge xs es)"
  by (induction xs es rule: merge.induct) auto

lemma merge_terms: "i < length es \<Longrightarrow> entry_term (merge xs es ! i) = entry_term (es ! i)"
  by (induction xs es arbitrary: i rule: merge.induct) (auto simp: nth_Cons split: nat.splits)

definition after_append :: "u64 \<Rightarrow> RaftLogEntry list \<Rightarrow> 'db node \<Rightarrow> 'db node" where
  "after_append prev es n = (let k = unat prev - unat (snapshot_index n) in
     n\<lparr>log := take k (log n) @ merge (drop k (log n)) es\<rparr>)"

lemma push_entry_log:
  assumes "log_fits n" and "unat index = Suc p" and "unat (snapshot_index n) \<le> p" and "p \<le> last_nat n"
  shows "push_entry index e n = (if p = last_nat n then n\<lparr>log := log n @ [entry_of e]\<rparr> else n)"
  using assms by (auto simp: push_entry_def word_less_nat_alt entry_of_def)

text \<open>One turn of the loop stops, or goes on with a log that the reference definition allows.\<close>

definition turn_ok :: "nat \<Rightarrow> proto_RaftLogEntry \<Rightarrow> 'db node \<Rightarrow> RaftLogEntry list \<Rightarrow> bool" where
  "turn_ok k e n L \<longleftrightarrow> Suc k \<le> length L \<and> length L \<le> max (length (log n)) (Suc k) \<and>
     (\<forall>es. take (Suc k) L @ merge (drop (Suc k) L) es = take k (log n) @ merge (drop k (log n)) (entry_of e # es)) \<and>
     (\<forall>i \<le> min (unat (commit_index n)) (last_nat n).
        log_at (n\<lparr>log := L\<rparr>) i = log_at n i \<and> i \<le> unat (snapshot_index n) + length L)"

lemma turn_ok_extend: "turn_ok (length (log n)) e n (log n @ [entry_of e])"
  by (auto simp: turn_ok_def log_at_def last_nat_def nth_append)

lemma turn_ok_keep: "k < length (log n) \<Longrightarrow> entry_term (log n ! k) = le_term e \<Longrightarrow> turn_ok k e n (log n)"
  by (auto simp: turn_ok_def last_nat_def take_Suc_conv_app_nth Cons_nth_drop_Suc [symmetric])

lemma turn_ok_replace:
  assumes "k < length (log n)" and "entry_term (log n ! k) \<noteq> le_term e"
    and "unat (commit_index n) \<le> unat (snapshot_index n) + k"
  shows "turn_ok k e n (take k (log n) @ [entry_of e])"
  using assms
  by (auto simp: turn_ok_def last_nat_def log_at_def nth_append Cons_nth_drop_Suc [symmetric])

text \<open>Why it stops: the entry has the wrong index, or it contradicts a committed one.\<close>

definition refused :: "u64 \<Rightarrow> proto_RaftLogEntry \<Rightarrow> 'db node \<Rightarrow> bool" where
  "refused prev e n \<longleftrightarrow> le_index e \<noteq> prev + 1 \<or>
     unat prev < unat (commit_index n) \<and>
     (\<exists>x. log_at n (Suc (unat prev)) = Some x \<and> entry_term x \<noteq> le_term e)"

lemma append_loop_turn:
  assumes "unat prev + 1 < 2 ^ 64" and "unat (snapshot_index n) \<le> unat prev"
    and "unat prev \<le> last_nat n" and "log_fits n"
  shows "(\<exists>i. append_loop (e # es) prev n = (Inr (False, i), n)) \<and> refused prev e n \<or>
    (\<exists>L. append_loop (e # es) prev n = append_loop es (prev + 1) (n\<lparr>log := L\<rparr>) \<and>
       turn_ok (unat prev - unat (snapshot_index n)) e n L)"
proof -
  let ?s = "unat (snapshot_index n)" and ?p = "unat prev"
  let ?k = "?p - ?s"
  have index: "unat (prev + 1) = Suc ?p" using assms(1) by (subst unat_add_one) simp_all
  consider (bad) "le_index e \<noteq> prev + 1" | (past) "le_index e = prev + 1" "?p = last_nat n"
    | (inside) "le_index e = prev + 1" "?k < length (log n)" "?p < last_nat n"
    using assms(2,3) by (force simp: last_nat_def)
  then show ?thesis
  proof cases
    case bad
    then show ?thesis by (simp add: refused_def)
  next
    case past
    then have "append_loop (e # es) prev n = append_loop es (prev + 1) (n\<lparr>log := log n @ [entry_of e]\<rparr>)"
      using assms index by (simp add: Let_def word_le_nat_alt push_entry_log)
    moreover have "?k = length (log n)" using past(2) by (simp add: last_nat_def)
    ultimately show ?thesis using turn_ok_extend [of n e] by (intro disjI2) auto
  next
    case inside
    have term_eq: "TermAt n (prev + 1) = entry_term (log n ! ?k)"
      using inside assms(2) by (subst TermAt_log [OF assms(4)]) (auto simp: index log_at_def last_nat_def)
    have offset: "LogOffset n (prev + 1) = Inr ?k"
      using inside assms(2) by (subst LogOffset_Inr [OF assms(4)]) (auto simp: index)
    have cut: "push_entry (prev + 1) e (n\<lparr>log := take ?k (log n)\<rparr>) = n\<lparr>log := take ?k (log n) @ [entry_of e]\<rparr>"
      using assms inside by (subst push_entry_log [OF _ index]) (auto simp: log_fits_def last_nat_def)
    have keep: "push_entry (prev + 1) e n = n"
      using assms inside by (subst push_entry_log [OF _ index]) auto
    have at: "log_at n (Suc ?p) = Some (log n ! ?k)"
      using inside assms(2) by (simp add: log_at_def last_nat_def)
    have "n = n\<lparr>log := log n\<rparr>" by simp
    with inside assms offset cut keep term_eq index at
      turn_ok_keep [OF inside(2)] turn_ok_replace [OF inside(2)]
    show ?thesis
      by (auto simp: Let_def word_le_nat_alt not_le refused_def intro: exI [of _ "log n"])
  qed
qed

text \<open>
  Whatever the request holds, the loop does not throw, and it leaves the log as the reference
  definition does for the entries it went through; entries up to the commit index stay.
\<close>

lemma append_loop_merge:
  assumes "unat prev + length es < 2 ^ 64" and "unat (snapshot_index n) \<le> unat prev"
    and "unat prev \<le> last_nat n" and "log_fits n"
  shows "\<exists>ok index j. append_loop es prev n =
      (Inr (ok, index), after_append prev (map entry_of (take j es)) n) \<and> j \<le> length es \<and>
    (if ok then j = length es \<and> index = prev + of_nat j
     else j < length es \<and> refused (prev + of_nat j) (es ! j) n) \<and>
    (\<forall>i \<le> min (unat (commit_index n)) (last_nat n).
       log_at (after_append prev (map entry_of (take j es)) n) i = log_at n i)"
  using assms
proof (induction es arbitrary: prev n)
  case Nil
  show ?case by (rule exI [of _ True]) (simp add: after_append_def)
next
  case (Cons e es)
  let ?s = "unat (snapshot_index n)"
  let ?k = "unat prev - ?s"
  have room: "unat prev + 1 < 2 ^ 64" using Cons.prems(1) by simp
  then have index: "unat (prev + 1) = Suc (unat prev)" by (subst unat_add_one) simp_all
  consider i where "append_loop (e # es) prev n = (Inr (False, i), n)" "refused prev e n"
    | L where "append_loop (e # es) prev n = append_loop es (prev + 1) (n\<lparr>log := L\<rparr>)" "turn_ok ?k e n L"
    using append_loop_turn [OF room Cons.prems(2-4), of e es] by blast
  then show ?case
  proof cases
    case 1
    then show ?thesis
      by (intro exI [of _ False] exI [of _ i] exI [of _ 0]) (simp add: after_append_def del: append_loop.simps)
  next
    case (2 L)
    let ?n = "n\<lparr>log := L\<rparr>"
    have L: "Suc ?k \<le> length L" "length L \<le> max (length (log n)) (Suc ?k)" and k: "Suc (unat prev) - ?s = Suc ?k"
      using 2(2) Cons.prems(2) by (auto simp: turn_ok_def)
    have "log_fits ?n" "Suc (unat prev) \<le> last_nat ?n"
      using L Cons.prems by (auto simp: log_fits_def last_nat_def)
    then obtain ok i j where run: "append_loop es (prev + 1) ?n =
        (Inr (ok, i), after_append (prev + 1) (map entry_of (take j es)) ?n)" "j \<le> length es"
      "if ok then j = length es \<and> i = prev + 1 + of_nat j
       else j < length es \<and> refused (prev + 1 + of_nat j) (es ! j) ?n"
      and same: "\<forall>i \<le> min (unat (commit_index ?n)) (last_nat ?n).
        log_at (after_append (prev + 1) (map entry_of (take j es)) ?n) i = log_at ?n i"
      using Cons.IH [of "prev + 1" ?n] Cons.prems(1,2) index by auto
    have "after_append (prev + 1) (map entry_of (take j es)) ?n = after_append prev (map entry_of (take (Suc j) (e # es))) n"
      using 2(2) by (simp add: after_append_def index k turn_ok_def Let_def)
    moreover have "refused (prev + 1 + of_nat j) (es ! j) n"
      if "refused (prev + 1 + of_nat j) (es ! j) ?n" "j < length es"
    proof -
      have "unat (prev + 1 + of_nat j) = Suc (unat prev) + j"
        using Cons.prems(1) that(2) index by (subst unat_add_of_nat) simp_all
      then show ?thesis
        using that(1) L 2(2) Cons.prems(2) by (auto simp: refused_def turn_ok_def log_at_def last_nat_def split: if_splits)
    qed
    ultimately show ?thesis using run same 2
      by (intro exI [of _ ok] exI [of _ i] exI [of _ "Suc j"])
         (auto simp: algebra_simps last_nat_def turn_ok_def simp del: append_loop.simps)
  qed
qed

section \<open>What a leader sends\<close>

definition proto_at :: "'db node \<Rightarrow> nat \<Rightarrow> proto_RaftLogEntry" where
  "proto_at n i = (let e = the (log_at n i) in
     \<lparr>le_index = of_nat i, le_term = entry_term e, le_command = entry_command e\<rparr>)"

lemma append_batch_entries:
  assumes fits: "last_nat n + 65 < 2 ^ 64" and "unat (snapshot_index n) < unat next"
    and from_next: "unat next \<le> Suc (last_nat n)" and "unat next \<le> unat index"
  shows "append_batch n next index =
    Inr (map (proto_at n) [unat index..<min (Suc (last_nat n)) (unat next + 64)])"
  using assms(2,4)
proof (induction "unat next + 64 - unat index" arbitrary: index rule: less_induct)
  case less
  have log: "log_fits n" using fits by (simp add: log_fits_def last_nat_def)
  have upper: "unat (next + kMaxEntriesPerRpc) = unat next + 64"
    using unat_add_of_nat [of "next" 64] fits from_next by (simp add: kMaxEntriesPerRpc_def)
  show ?case
  proof (cases "unat index < min (Suc (last_nat n)) (unat next + 64)")
    case True
    have "unat (index + 1) = Suc (unat index)" using True fits by (subst unat_add_one) simp_all
    moreover from this have "append_batch n next (index + 1) =
        Inr (map (proto_at n) [Suc (unat index)..<min (Suc (last_nat n)) (unat next + 64)])"
      using less.hyps [of "index + 1"] less.prems True by simp linarith
    moreover have "LogOffset n index = Inr (unat index - unat (snapshot_index n) - 1)"
      using True less.prems by (intro LogOffset_Inr log) auto
    moreover have "log_at n (unat index) = Some (log n ! (unat index - unat (snapshot_index n) - 1))"
      using True less.prems by (simp add: log_at_def last_nat_def)
    ultimately show ?thesis
      using True by (subst append_batch.simps)
        (simp add: log upper word_le_nat_alt word_less_nat_alt upt_conv_Cons proto_at_def Let_def)
  next
    case False
    then show ?thesis
      by (subst append_batch.simps) (auto simp: log upper word_le_nat_alt word_less_nat_alt)
  qed
qed

lemma append_batch_log:
  assumes "last_nat n + 65 < 2 ^ 64" and "snapshot_index n < next" and "unat next \<le> Suc (last_nat n)"
  shows "\<exists>es. append_batch n next next = Inr es \<and> length es = min 64 (Suc (last_nat n) - unat next) \<and>
    (\<forall>j < length es. le_index (es ! j) = next + of_nat j \<and> log_at n (unat next + j) = Some (entry_of (es ! j)))"
proof (intro exI conjI allI impI)
  let ?es = "map (proto_at n) [unat next..<min (Suc (last_nat n)) (unat next + 64)]"
  show "append_batch n next next = Inr ?es"
    using assms by (intro append_batch_entries) (simp_all add: word_less_nat_alt)
  show "length ?es = min 64 (Suc (last_nat n) - unat next)" using assms(3) by auto
  fix j
  assume j: "j < length ?es"
  then have nth: "?es ! j = proto_at n (unat next + j)"
    by (simp add: less_diff_conv add.commute del: min_less_iff_conj)
  have "log_at n (unat next + j) \<noteq> None"
    using j assms(2) by (auto simp: log_at_def last_nat_def word_less_nat_alt)
  then show "log_at n (unat next + j) = Some (entry_of (?es ! j))"
    unfolding nth by (auto simp: proto_at_def entry_of_def Let_def)
  show "le_index (?es ! j) = next + of_nat j" unfolding nth by (simp add: proto_at_def Let_def)
qed

section \<open>What a leader commits\<close>

definition committable :: "'db node \<Rightarrow> u64 set" where
  "committable n = {i. commit_index n < i \<and> i \<le> LastIndex n \<and> TermAt n i = current_term n \<and>
     length (peers n) div 2 < replicated n i}"

lemma commit_candidate_greatest:
  "case commit_candidate n index of
     None \<Rightarrow> \<forall>j. commit_index n < j \<and> j \<le> index \<longrightarrow>
       \<not> (TermAt n j = current_term n \<and> length (peers n) div 2 < replicated n j)
   | Some i \<Rightarrow> commit_index n < i \<and> i \<le> index \<and> TermAt n i = current_term n \<and>
       length (peers n) div 2 < replicated n i \<and>
       (\<forall>j. i < j \<and> j \<le> index \<longrightarrow>
          \<not> (TermAt n j = current_term n \<and> length (peers n) div 2 < replicated n j))"
proof (induction n index rule: commit_candidate.induct)
  case (1 n index)
  let ?ok = "\<lambda>j. TermAt n j = current_term n \<and> length (peers n) div 2 < replicated n j"
  have below: "j \<le> index - 1 \<longleftrightarrow> j \<le> index \<and> j \<noteq> index" if "commit_index n < index" for j
    using that by (auto simp: word_le_nat_alt unat_pred [OF that] word_less_nat_alt word_unat_eq_iff)
  show ?case
  proof (cases "commit_index n < index \<and> \<not> ?ok index")
    case True
    then have "commit_candidate n index = commit_candidate n (index - 1)"
      by (subst commit_candidate.simps) auto
    with "1.IH" True below show ?thesis by (auto split: option.splits)
  qed (subst commit_candidate.simps, auto)
qed

lemma commit_candidate_Max:
  "commit_candidate n (LastIndex n) = (if committable n = {} then None else Some (Max (committable n)))"
proof (cases "commit_candidate n (LastIndex n)")
  case None
  then show ?thesis using commit_candidate_greatest [of n "LastIndex n"] by (auto simp: committable_def)
next
  case (Some i)
  have "i \<in> committable n" and "\<And>j. j \<in> committable n \<Longrightarrow> j \<le> i"
    using commit_candidate_greatest [of n "LastIndex n"] Some
    by (auto simp: committable_def not_less [symmetric])
  then have "Max (committable n) = i" by (intro Max_eqI) auto
  with Some \<open>i \<in> committable n\<close> show ?thesis by auto
qed

section \<open>Applying what is committed\<close>

text \<open>The abstract machine run over log entries.\<close>

fun spec_run :: "codecs \<Rightarrow> RaftLogEntry list \<Rightarrow> kv_machine \<Rightarrow> kv_machine option" where
  "spec_run P [] k = Some k"
| "spec_run P (e # es) k = (case parse (command_pb P) (entry_command e) of
       None \<Rightarrow> None
     | Some c \<Rightarrow> (case spec_apply P c k of None \<Rightarrow> None | Some k' \<Rightarrow> spec_run P es k'))"

definition entries_between :: "'db node \<Rightarrow> nat \<Rightarrow> nat \<Rightarrow> RaftLogEntry list" where
  "entries_between n a b = map (\<lambda>i. the (log_at n i)) [Suc a..<Suc b]"

lemma entries_between_step:
  assumes "a < b"
  shows "entries_between n a b = the (log_at n (Suc a)) # entries_between n (Suc a) b"
  using assms by (simp add: entries_between_def upt_conv_Cons del: upt_Suc)

lemma entries_between_same [simp]: "entries_between n a a = []"
  by (simp add: entries_between_def)

lemma log_at_cong [simp]:
  "log_at (n\<lparr>db := d\<rparr>) i = log_at n i" "log_at (n\<lparr>db := d, last_applied := a\<rparr>) i = log_at n i"
  by (simp_all add: log_at_def)

lemma entries_between_cong [simp]: "entries_between (n\<lparr>db := d, last_applied := a\<rparr>) i j = entries_between n i j"
  by (simp add: entries_between_def)

text \<open>The application of entries up to where the loop got; it may have thrown in the middle.\<close>

definition applied_to :: "'db env \<Rightarrow> ('db \<Rightarrow> contents) \<Rightarrow> 'db node \<Rightarrow> nat \<Rightarrow> 'db node \<Rightarrow> bool" where
  "applied_to E \<alpha> n i n' \<longleftrightarrow> unat (last_applied n) \<le> i \<and>
     spec_run (env_pb E) (entries_between n (unat (last_applied n)) i) (abs_machine (\<alpha> (db n))) =
       Some (abs_machine (\<alpha> (db n')))"

lemma applied_to_step:
  assumes ok: "rocksdb_ok (env_rocks E) \<alpha>" and last: "unat (last_applied n) < unat (commit_index n)"
    and e: "log_at n (Suc (unat (last_applied n))) = Some e"
    and c: "parse (command_pb (env_pb E)) (entry_command e) = Some c"
    and d: "apply_contents (env_pb E) c i j (\<alpha> (db n)) = Some (\<alpha> d)"
    and "applied_to E \<alpha> (n\<lparr>db := d, last_applied := last_applied n + 1\<rparr>) k n'"
  shows "applied_to E \<alpha> n k n'"
proof -
  have "spec_apply (env_pb E) c (abs_machine (\<alpha> (db n))) = Some (abs_machine (\<alpha> d))"
    using apply_contents_refines [of "env_pb E" c i j "\<alpha> (db n)"] d by simp
  moreover have "unat (last_applied n + 1) = Suc (unat (last_applied n))"
    using last by (simp add: unat_succ_less [of _ "commit_index n"] word_less_nat_alt)
  ultimately show ?thesis
    using assms(6) e c by (auto simp: applied_to_def entries_between_step)
qed

lemma ApplyAtomically_live:
  assumes ok: "rocksdb_ok R \<alpha>" and live: "rocksdb_faultless R" and run: "ApplyAtomically P R c i j d = (Inl e, d')"
  shows "spec_apply P c (abs_machine (\<alpha> d)) = None"
proof (rule ccontr)
  assume "spec_apply P c (abs_machine (\<alpha> d)) \<noteq> None"
  then obtain m' where "apply_contents P c i j (\<alpha> d) = Some m'"
    by (auto simp flip: apply_contents_refines [of P c i j])
  from ApplyAtomically_accepts [OF ok live this] run show False by auto
qed

lemma apply_loop_turn:
  assumes ok: "rocksdb_ok (env_rocks E) \<alpha>" and "log_fits n" and "unat (commit_index n) \<le> last_nat n"
    and "snapshot_index n \<le> last_applied n" and more: "last_applied n < commit_index n"
  obtains (throws) e d where "apply_loop E n = (Inl e, n\<lparr>db := d\<rparr>)"
      and "applied_to E \<alpha> n (unat (last_applied n)) (n\<lparr>db := d\<rparr>) \<or>
        applied_to E \<alpha> n (Suc (unat (last_applied n))) (n\<lparr>db := d\<rparr>)"
      and "rocksdb_faultless (env_rocks E) \<Longrightarrow>
        spec_run (env_pb E) [the (log_at n (Suc (unat (last_applied n))))] (abs_machine (\<alpha> (db n))) = None"
  | (turns) d where "apply_loop E n = apply_loop E (n\<lparr>db := d, last_applied := last_applied n + 1\<rparr>)"
      and "\<And>k n'. applied_to E \<alpha> (n\<lparr>db := d, last_applied := last_applied n + 1\<rparr>) k n' \<Longrightarrow> applied_to E \<alpha> n k n'"
proof -
  let ?i = "last_applied n + 1"
  have i: "unat ?i = Suc (unat (last_applied n))" and la: "unat (last_applied n) < unat (commit_index n)"
    using more unat_succ_less [OF more] by (simp_all add: word_less_nat_alt)
  define off where "off = unat ?i - unat (snapshot_index n) - 1"
  have offset: "LogOffset n ?i = Inr off" and e: "log_at n (Suc (unat (last_applied n))) = Some (log n ! off)"
    using assms(3,4) la LogOffset_Inr [OF assms(2), of ?i] unfolding off_def
    by (auto simp: i word_le_nat_alt log_at_def last_nat_def)
  show thesis
  proof (cases "parse (command_pb (env_pb E)) (entry_command (log n ! off))")
    case None
    then show thesis
      using more offset e by (intro throws [of _ "db n"]) (simp_all add: apply_loop.simps [of E n] applied_to_def)
  next
    case (Some c)
    obtain r d where c: "ApplyAtomically (env_pb E) (env_rocks E) c ?i (commit_index n) (db n) = (r, d)" by fastforce
    note step = applied_to_step [OF ok la e Some]
    show thesis
    proof (cases r)
      case (Inl x)
      with ApplyAtomically_live [OF ok _ c [unfolded Inl]] ApplyAtomically_throws [OF ok c [unfolded Inl]] step [of ?i "commit_index n" d "unat ?i" "n\<lparr>db := d\<rparr>"] more offset Some c
      show thesis
        by (intro throws [of x d]) (auto simp: apply_loop.simps [of E n] applied_to_def i e)
    next
      case (Inr u)
      with step [OF ApplyAtomically_returns [OF ok c [unfolded Inr]]] more offset Some c
      show thesis by (intro turns [of d]) (simp_all add: apply_loop.simps [of E n])
    qed
  qed
qed

lemma apply_loop_spec:
  assumes ok: "rocksdb_ok (env_rocks E) \<alpha>" and "log_fits n" and "unat (commit_index n) \<le> last_nat n"
    and "snapshot_index n \<le> last_applied n" and "apply_loop E n = (r, n')"
  shows "\<exists>d a. n' = n\<lparr>db := d, last_applied := a\<rparr> \<and> last_applied n \<le> a \<and>
    (case r of
       Inr _ \<Rightarrow> applied_to E \<alpha> n (unat a) n' \<and> a = max (last_applied n) (commit_index n)
     | Inl e \<Rightarrow> applied_to E \<alpha> n (unat a) n' \<or> applied_to E \<alpha> n (Suc (unat a)) n')"
  using assms(2-5)
proof (induction "unat (commit_index n) - unat (last_applied n)" arbitrary: n rule: less_induct)
  case less
  show ?case
  proof (cases "last_applied n < commit_index n")
    case False
    then have "n' = n" "r = Inr ()" using less.prems(4) by (simp_all add: apply_loop.simps [of E n])
    then show ?thesis
      using False by (intro exI [of _ "db n"] exI [of _ "last_applied n"]) (auto simp: applied_to_def)
  next
    case True
    from ok less.prems(1-3) True show ?thesis
    proof (cases rule: apply_loop_turn)
      case (throws e d)
      with less.prems(4) show ?thesis by (intro exI [of _ d] exI [of _ "last_applied n"]) auto
    next
      case (turns d)
      let ?m = "n\<lparr>db := d, last_applied := last_applied n + 1\<rparr>"
      have i: "unat (last_applied n + 1) = Suc (unat (last_applied n))" by (rule unat_succ_less [OF True, simplified])
      have "unat (commit_index ?m) - unat (last_applied ?m) < unat (commit_index n) - unat (last_applied n)"
        and "log_fits ?m" "unat (commit_index ?m) \<le> last_nat ?m" "snapshot_index ?m \<le> last_applied ?m"
        using less.prems(1-3) True i by (auto simp: log_fits_def last_nat_def word_le_nat_alt word_less_nat_alt)
      with less.prems(4) turns(1) obtain d' a' where m: "n' = ?m\<lparr>db := d', last_applied := a'\<rparr>" "last_applied ?m \<le> a'"
        "case r of Inr _ \<Rightarrow> applied_to E \<alpha> ?m (unat a') n' \<and> a' = max (last_applied ?m) (commit_index ?m)
           | Inl e \<Rightarrow> applied_to E \<alpha> ?m (unat a') n' \<or> applied_to E \<alpha> ?m (Suc (unat a')) n'"
        using less.hyps [of ?m] by metis
      have "max (last_applied n + 1) (commit_index n) = max (last_applied n) (commit_index n)" "last_applied n \<le> last_applied n + 1"
        using True i by (auto simp: max_def word_le_nat_alt word_less_nat_alt)
      with m show ?thesis
        by (intro exI [of _ d'] exI [of _ a']) (auto split: sum.splits intro: turns(2))
    qed
  qed
qed

lemma applied_entries_between:
  assumes "rocksdb_ok (env_rocks E) \<alpha>" and "log_fits n" and "commit_index n \<le> LastIndex n"
    and "snapshot_index n \<le> last_applied n" and "last_applied n \<le> commit_index n" and "apply_loop E n = (Inr u, n')"
  shows "last_applied n' = commit_index n \<and>
    spec_run (env_pb E) (entries_between n (unat (last_applied n)) (unat (commit_index n))) (abs_machine (\<alpha> (db n))) =
      Some (abs_machine (\<alpha> (db n')))"
proof -
  have "unat (commit_index n) \<le> last_nat n" using assms(2,3) by (simp add: word_le_nat_alt)
  from apply_loop_spec [OF assms(1,2) this assms(4,6)] assms(5)
  show ?thesis by (auto simp: applied_to_def max_absorb2)
qed

text \<open>Over a store that does not fail the loop returns when the machine accepts the entries.\<close>

lemma apply_loop_returns:
  assumes ok: "rocksdb_ok (env_rocks E) \<alpha>" and live: "rocksdb_faultless (env_rocks E)"
    and "log_fits n" and "unat (commit_index n) \<le> last_nat n" and "snapshot_index n \<le> last_applied n"
    and "spec_run (env_pb E) (entries_between n (unat (last_applied n)) (unat (commit_index n)))
      (abs_machine (\<alpha> (db n))) \<noteq> None"
  shows "\<exists>n'. apply_loop E n = (Inr (), n')"
  using assms(3-6)
proof (induction "unat (commit_index n) - unat (last_applied n)" arbitrary: n rule: less_induct)
  case less
  show ?case
  proof (cases "last_applied n < commit_index n")
    case True
    then have i: "unat (last_applied n + 1) = Suc (unat (last_applied n))" and la: "unat (last_applied n) < unat (commit_index n)"
      using unat_succ_less [OF True] by (simp_all add: word_less_nat_alt)
    from ok less.prems(1-3) True show ?thesis
    proof (cases rule: apply_loop_turn)
      case (throws e d)
      with live less.prems(4) la show ?thesis
        by (auto simp: entries_between_step split: option.splits)
    next
      case (turns d)
      let ?m = "n\<lparr>db := d, last_applied := last_applied n + 1\<rparr>"
      have "applied_to E \<alpha> n (Suc (unat (last_applied n))) ?m"
        by (intro turns(2)) (simp add: applied_to_def i)
      then have "spec_run (env_pb E) (entries_between n (Suc (unat (last_applied n))) (unat (commit_index n)))
          (abs_machine (\<alpha> d)) \<noteq> None"
        using less.prems(4) la by (auto simp: applied_to_def entries_between_step split: option.splits)
      then have "\<exists>n'. apply_loop E ?m = (Inr (), n')"
        using less.prems(1-3) la i
        by (intro less.hyps) (auto simp: log_fits_def last_nat_def word_le_nat_alt)
      with turns(1) show ?thesis by simp
    qed
  qed (simp add: apply_loop.simps [of E n])
qed

lemma ApplyAtomically_ends: "ApplyAtomically P R c i j d = (Inl e, d') \<Longrightarrow> e \<noteq> Divergence"
  by (auto simp: ApplyAtomically_app ApplyFresh_def mbind_app effect_puts_def WriteAtomically_def Get_def Let_def
      split: if_splits option.splits prod.splits sum.splits CommandType.splits)

lemma LogOffset_ends: "LogOffset n i = Inl e \<Longrightarrow> e \<noteq> Divergence"
  by (auto simp: LogOffset_def split: if_splits)

lemma apply_loop_ends: "apply_loop E n = (Inl e, n') \<Longrightarrow> e \<noteq> Divergence"
proof (induction E n rule: apply_loop.induct)
  case (1 E n)
  from "1.prems" show ?case
    by (subst (asm) apply_loop.simps)
       (auto dest!: "1.IH" dest: ApplyAtomically_ends LogOffset_ends split: if_splits sum.splits option.splits prod.splits)
qed

text \<open>A committed entry that the machine refuses stops the application for good.\<close>

definition wedged :: "'db env \<Rightarrow> ('db \<Rightarrow> contents) \<Rightarrow> 'db node \<Rightarrow> bool" where
  "wedged E \<alpha> n \<longleftrightarrow> log_fits n \<and> unat (commit_index n) \<le> last_nat n \<and> snapshot_index n \<le> last_applied n \<and>
     last_applied n < commit_index n \<and>
     spec_run (env_pb E) [the (log_at n (Suc (unat (last_applied n))))] (abs_machine (\<alpha> (db n))) = None"

lemma wedged_throws:
  assumes ok: "rocksdb_ok (env_rocks E) \<alpha>" and n: "wedged E \<alpha> n"
  obtains e d where "ApplyCommitted E n = (Inl e, n\<lparr>db := d\<rparr>)" and "e \<noteq> Divergence" and "wedged E \<alpha> (n\<lparr>db := d\<rparr>)"
proof -
  obtain r n' where run: "apply_loop E n = (r, n')" by fastforce
  let ?la = "unat (last_applied n)"
  have none: "\<not> applied_to E \<alpha> n b m" if "?la < b" for b m
    using n that by (auto simp: wedged_def applied_to_def entries_between_step split: option.splits)
  obtain d a where n': "n' = n\<lparr>db := d, last_applied := a\<rparr>" "last_applied n \<le> a"
    and out: "case r of Inr _ \<Rightarrow> applied_to E \<alpha> n (unat a) n' \<and> a = max (last_applied n) (commit_index n)
      | Inl e \<Rightarrow> applied_to E \<alpha> n (unat a) n' \<or> applied_to E \<alpha> n (Suc (unat a)) n'"
    using apply_loop_spec [OF ok _ _ _ run] n unfolding wedged_def by blast
  have "max (last_applied n) (commit_index n) = commit_index n" using n by (simp add: wedged_def max_absorb2)
  then have "r \<noteq> Inr ()"
    using out none [of "unat (commit_index n)"] n by (auto simp: wedged_def word_less_nat_alt)
  then obtain e where r: "r = Inl e" by (cases r) auto
  have upto: "applied_to E \<alpha> n (unat a) n'"
    using out none [of "Suc (unat a)" n'] n'(2) by (auto simp: r word_le_nat_alt)
  then have "\<not> ?la < unat a" using none by blast
  with n'(2) have a: "a = last_applied n" by (simp add: word_le_nat_alt word_unat_eq_iff)
  from upto have abs: "abs_machine (\<alpha> d) = abs_machine (\<alpha> (db n))" by (simp add: applied_to_def n'(1) a)
  show thesis
  proof (rule that)
    show "ApplyCommitted E n = (Inl e, n\<lparr>db := d\<rparr>)"
      using n run by (auto simp: ApplyCommitted_def wedged_def mseq_app mwhen_def r n'(1) a)
    show "e \<noteq> Divergence" using run [unfolded r] by (rule apply_loop_ends)
    show "wedged E \<alpha> (n\<lparr>db := d\<rparr>)"
      using n abs by (simp add: wedged_def last_nat_def log_fits_def)
  qed
qed

lemma wedged_trace [simp]: "wedged E \<alpha> (n\<lparr>trace := t\<rparr>) = wedged E \<alpha> n"
  by (simp add: wedged_def log_fits_def last_nat_def log_at_def)

lemma wedged_forever:
  assumes ok: "rocksdb_ok (env_rocks E) \<alpha>" and n: "wedged E \<alpha> n"
  shows "(\<exists>e. fst (ApplyCommitted E (((\<lambda>m. snd (ApplyCommitted E m)) ^^ k) n)) = Inl e) \<and>
    last_applied (((\<lambda>m. snd (ApplyCommitted E m)) ^^ k) n) = last_applied n"
proof -
  let ?m = "\<lambda>k. ((\<lambda>m. snd (ApplyCommitted E m)) ^^ k) n"
  have m: "wedged E \<alpha> (?m k) \<and> last_applied (?m k) = last_applied n"
  proof (induction k)
    case (Suc k)
    from ok Suc.IH [THEN conjunct1] obtain e d where
      "ApplyCommitted E (?m k) = (Inl e, (?m k)\<lparr>db := d\<rparr>)" and "wedged E \<alpha> ((?m k)\<lparr>db := d\<rparr>)"
      by (rule wedged_throws)
    with Suc.IH show ?case by simp
  qed (simp add: n)
  from ok m [THEN conjunct1] obtain e d where "ApplyCommitted E (?m k) = (Inl e, (?m k)\<lparr>db := d\<rparr>)"
    by (rule wedged_throws)
  with m show ?thesis by simp
qed

text \<open>
  A command that the machine refuses in every state stops a single member for good: the entry is
  written and committed before it is applied, and the exception is answered with \<open>false\<close>.
\<close>

lemma submit_refused:
  assumes ok: "rocksdb_ok (env_rocks E) \<alpha>" and live: "rocksdb_faultless (env_rocks E)" and total: "codecs_total (env_pb E)"
    and n: "role n = Leader" "\<not> stopping n" "length (peers n) \<le> 1"
    and upto: "last_applied n = LastIndex n" "commit_index n = LastIndex n" "unat (snapshot_index n) + length (log n) + 1 < 2 ^ 64"
    and free: "\<alpha> (db n) (LogKey j) = None"
    and c: "parse (command_pb (env_pb E)) s = Some c" "\<And>k. spec_apply (env_pb E) c k = None"
  obtains m where "submit_task E s client 0 result n = (Inr (), m\<lparr>trace := trace n @ [SetValue result False]\<rparr>)"
    and "wedged E \<alpha> m" and "last_applied m = last_applied n"
proof -
  define k where "k = n\<lparr>log := log n @ [\<lparr>entry_term = current_term n, entry_command = s\<rparr>]\<rparr>"
  have "snapshot_index n \<noteq> - 1" using upto(3) by auto
  then obtain d where d: "PersistLog (env_pb E) (env_rocks E) (snapshot_index n) (log k) (db n) = (Inr (), d)"
    using PersistLog_returns [OF ok live total _ free] by blast
  let ?k = "k\<lparr>db := d\<rparr>"
  have fits: "log_fits n" "log_fits ?k" using upto(3) by (simp_all add: k_def log_fits_def)
  have last: "unat (LastIndex ?k) = Suc (unat (LastIndex n))" "last_nat ?k = Suc (unat (LastIndex n))"
    using fits by (simp_all add: k_def last_nat_def)
  have at: "log_at ?k (Suc (unat (LastIndex n))) = Some \<lparr>entry_term = current_term n, entry_command = s\<rparr>"
    using fits by (simp add: k_def log_at_def last_nat_def)
  have "LastIndex ?k \<in> committable ?k"
    using TermAt_log [OF fits(2), of "LastIndex ?k"] at last n(3) upto(2) fits
    by (auto simp: committable_def word_less_nat_alt replicated_def last_nat_def) (simp_all add: k_def last_nat_def)
  then have candidate: "commit_candidate ?k (LastIndex ?k) = Some (LastIndex ?k)"
    by (subst commit_candidate.simps) (simp add: committable_def)
  let ?m = "?k\<lparr>commit_index := LastIndex ?k\<rparr>"
  have m: "wedged E \<alpha> ?m"
    using c fits last at upto by (auto simp: wedged_def k_def log_fits_def word_less_nat_alt last_nat_def word_le_nat_alt log_at_def)
  from ok m obtain e d' where throws: "ApplyCommitted E ?m = (Inl e, ?m\<lparr>db := d'\<rparr>)" and ends: "e \<noteq> Divergence" and m': "wedged E \<alpha> (?m\<lparr>db := d'\<rparr>)"
    by (rule wedged_throws)
  have "TryAdvanceCommit E ?k = (Inl e, ?m\<lparr>db := d'\<rparr>)"
    using candidate throws n(1) by (simp add: TryAdvanceCommit_def mseq_app) (simp add: k_def)
  moreover have "Node_PersistLog E k = (Inr (), ?k)" using d by (simp add: Node_PersistLog_def on_db_def k_def)
  ultimately have "submit_entry E s result n = (Inl e, ?m\<lparr>db := d'\<rparr>)"
    by (simp add: submit_entry_def mseq_app Let_def k_def [symmetric])
  then have "submit_task E s client 0 result n = (Inr (), ?m\<lparr>db := d', trace := trace n @ [SetValue result False]\<rparr>)"
    using n ends by (simp add: submit_task_def mtry_def mbind_app set_value_def emit_def k_def)
  with m' show thesis by (intro that [of "?m\<lparr>db := d'\<rparr>"]) (simp_all add: k_def)
qed

end
