(* ===== verification/Raft_Links.thy ===== *)
theory Raft_Links
  imports Raft_Ballots Raft_Log
begin

text \<open>
  Where the entries of the logs come from. A link records the creation of an entry: the leader that
  created it, the index, the term of the entry before it and the entry. The predicate \<open>links_ok\<close>
  says of a node that its log, its log on disk and the AppendEntries requests it sent are chains of
  links, from an index and a term on, and that a leader has all entries it created in its term.
  Every event keeps it but the submission of a new entry, which extends the set of links by one.
\<close>

section \<open>Chains\<close>

type_synonym link = "i32 \<times> nat \<times> u64 \<times> RaftLogEntry"

fun chained :: "link set \<Rightarrow> nat \<Rightarrow> u64 \<Rightarrow> RaftLogEntry list \<Rightarrow> bool" where
  "chained L i p [] \<longleftrightarrow> True"
| "chained L i p (e # es) \<longleftrightarrow> (\<exists>c. (c, Suc i, p, e) \<in> L) \<and> chained L (Suc i) (entry_term e) es"

text \<open>The term at the end of a chain.\<close>

fun chain_end :: "u64 \<Rightarrow> RaftLogEntry list \<Rightarrow> u64" where
  "chain_end p [] = p"
| "chain_end p (e # es) = chain_end (entry_term e) es"

lemma chained_append [simp]:
  "chained L i p (xs @ ys) \<longleftrightarrow> chained L i p xs \<and> chained L (i + length xs) (chain_end p xs) ys"
  by (induction xs arbitrary: i p) auto

lemma chain_end_append [simp]: "chain_end p (xs @ ys) = chain_end (chain_end p xs) ys"
  by (induction xs arbitrary: p) auto

lemma chain_end_take: "k < length xs \<Longrightarrow> chain_end p (take (Suc k) xs) = entry_term (xs ! k)"
  by (simp add: take_Suc_conv_app_nth)

lemma chained_take_drop:
  assumes "chained L i p xs" and "k \<le> length xs"
  shows "chained L i p (take k xs)" and "chained L (i + k) (chain_end p (take k xs)) (drop k xs)"
proof -
  have "chained L i p (take k xs @ drop k xs)" using assms(1) by simp
  with assms(2) show "chained L i p (take k xs)" "chained L (i + k) (chain_end p (take k xs)) (drop k xs)"
    by (simp_all only: chained_append length_take min_absorb2)
qed

lemma chained_mono: "chained L i p xs \<Longrightarrow> L \<subseteq> L' \<Longrightarrow> chained L' i p xs"
  by (induction xs arbitrary: i p) auto

lemma chained_merge: "chained L i p xs \<Longrightarrow> chained L i p es \<Longrightarrow> chained L i p (merge xs es)"
  by (induction xs es arbitrary: i p rule: merge.induct) auto

lemma chained_nth:
  assumes "chained L i p xs" and "k < length xs"
  shows "\<exists>c. (c, Suc (i + k), chain_end p (take k xs), xs ! k) \<in> L"
  using chained_take_drop(2) [OF assms(1) less_imp_le [OF assms(2)]] assms(2)
  by (simp add: Cons_nth_drop_Suc [symmetric])

text \<open>Room for indices: behind every link there is space for a batch.\<close>

definition bounded :: "link set \<Rightarrow> bool" where
  "bounded L \<longleftrightarrow> (\<forall>c k p e. (c, k, p, e) \<in> L \<longrightarrow> k + 65 < 2 ^ 64)"

lemma chained_bounded:
  assumes "chained L i p xs" and "bounded L" and "xs \<noteq> []"
  shows "i + length xs + 65 < 2 ^ 64"
proof -
  have last: "length xs - 1 < length xs" "Suc (i + (length xs - 1)) = i + length xs"
    using assms(3) by (cases xs; simp)+
  from chained_nth [OF assms(1) last(1)] obtain c p' e where "(c, i + length xs, p', e) \<in> L"
    unfolding last(2) by blast
  with assms(2) show ?thesis unfolding bounded_def by blast
qed

section \<open>The log in memory\<close>

definition log_chained :: "link set \<Rightarrow> 'db node \<Rightarrow> bool" where
  "log_chained L n \<longleftrightarrow> chained L (unat (snapshot_index n)) (snapshot_term n) (log n)"

lemma log_chained_fits:
  assumes "log_chained L n" and "bounded L"
  shows "log_fits n" and "log n \<noteq> [] \<Longrightarrow> last_nat n + 65 < 2 ^ 64"
  using chained_bounded [OF assms(1) [unfolded log_chained_def] assms(2)] unsigned_less [of "snapshot_index n"]
  by (cases "log n = []"; simp add: log_fits_def last_nat_def)+

lemma TermAt_chain:
  assumes "log_fits n" and "snapshot_index n \<le> i" and "i \<le> LastIndex n"
  shows "TermAt n i = chain_end (snapshot_term n) (take (unat i - unat (snapshot_index n)) (log n))"
proof (cases "i = snapshot_index n")
  case False
  then have i: "unat (snapshot_index n) < unat i" "unat i \<le> last_nat n"
    using assms by (simp_all add: word_le_nat_alt word_unat_eq_iff)
  then obtain k where k: "unat i - unat (snapshot_index n) = Suc k" by (metis Suc_diff_Suc)
  with i show ?thesis
    by (simp add: TermAt_log [OF assms(1) i(1)] log_at_def last_nat_def chain_end_take)
qed (simp add: TermAt_def)

text \<open>What a leader sends is a chain from the index and the term it names.\<close>

lemma append_batch_chained:
  assumes n: "log_chained L n" "bounded L" and next_i: "snapshot_index n < next" "next \<le> LastIndex n + 1"
    and es: "append_batch n next next = Inr es"
  shows "chained L (unat (next - 1)) (TermAt n (next - 1)) (map entry_of es)"
proof (cases "log n = []")
  case True
  then have "LastIndex n = snapshot_index n" by (simp add: LastIndex_def)
  then have "\<not> next \<le> LastIndex n" using next_i(1) by (simp add: not_le)
  with es show ?thesis by (subst (asm) append_batch.simps) auto
next
  case False
  note fits = log_chained_fits(1) [OF n] log_chained_fits(2) [OF n False]
  let ?s = "unat (snapshot_index n)"
  have one: "unat (LastIndex n + 1) = Suc (last_nat n)"
    using fits by (subst unat_add_one) simp_all
  have nat: "?s < unat next" "unat next \<le> Suc (last_nat n)"
    using next_i by (simp_all add: word_less_nat_alt word_le_nat_alt one)
  have pred: "unat (next - 1) = unat next - 1" using nat(1) by (intro unat_minus_one) auto
  let ?k = "unat next - 1 - ?s"
  have "es = map (proto_at n) [unat next..<min (Suc (last_nat n)) (unat next + 64)]"
    using append_batch_entries [OF fits(2) nat] es by simp
  moreover have "map entry_of (map (proto_at n) [unat next..<m]) = take (m - unat next) (drop ?k (log n))"
    if "m \<le> Suc (last_nat n)" for m
  proof (rule nth_equalityI)
    fix j
    assume "j < length (map entry_of (map (proto_at n) [unat next..<m]))"
    then have j: "unat next + j < m" by simp
    have "?s < unat next + j" "unat next + j \<le> ?s + length (log n)"
      using j that nat(1) by (simp_all add: last_nat_def)
    then have "log_at n (unat next + j) = Some (log n ! (unat next + j - ?s - 1))" by (simp add: log_at_def)
    moreover have "unat next + j - ?s - 1 = ?k + j" using nat(1) by simp
    ultimately show "map entry_of (map (proto_at n) [unat next..<m]) ! j = take (m - unat next) (drop ?k (log n)) ! j"
      using j that nat by (simp add: proto_at_def entry_of_def Let_def last_nat_def)
  qed (use that nat in \<open>simp add: last_nat_def\<close>)
  ultimately obtain c where es': "map entry_of es = take c (drop ?k (log n))" by (metis min.cobounded1)
  have k: "?k \<le> length (log n)" "?s + ?k = unat (next - 1)" using nat pred by (simp_all add: last_nat_def)
  have "TermAt n (next - 1) = chain_end (snapshot_term n) (take ?k (log n))"
    using TermAt_chain [OF fits(1), of "next - 1"] nat pred by (simp add: word_le_nat_alt fits)
  with chained_take_drop(2) [OF n(1) [unfolded log_chained_def] k(1)] show ?thesis
    unfolding es' k(2) by (metis append_take_drop_id chained_append)
qed

text \<open>A follower whose log agrees with the request at its preceding entry takes the chain over.\<close>

lemma append_loop_chained:
  assumes n: "log_chained L n" "bounded L" and prev: "prev_matches n q"
    and q: "chained L (unat (ae_prev_log_index q)) (ae_prev_log_term q) (map entry_of (ae_entries q))"
    and run: "append_loop (ae_entries q) (ae_prev_log_index q) n = (r, n')"
  shows "log_chained L n' \<and> (\<exists>l. n' = n\<lparr>log := l\<rparr>)"
proof -
  let ?i = "ae_prev_log_index q"
  let ?k = "unat ?i - unat (snapshot_index n)"
  note fits = log_chained_fits(1) [OF n]
  have i: "unat (snapshot_index n) \<le> unat ?i" "unat ?i \<le> last_nat n"
    and t: "chain_end (snapshot_term n) (take ?k (log n)) = ae_prev_log_term q"
    using prev TermAt_chain [OF fits, of ?i] fits by (simp_all add: prev_matches_def word_le_nat_alt)
  have room: "unat ?i + length (ae_entries q) < 2 ^ 64"
    using chained_bounded [OF q n(2)] unsigned_less [of ?i] by (cases "ae_entries q = []") simp_all
  from append_loop_merge [OF room i fits] run obtain j where
    n': "n' = after_append ?i (map entry_of (take j (ae_entries q))) n" by auto
  have k: "?k \<le> length (log n)" "unat (snapshot_index n) + ?k = unat ?i" using i by (simp_all add: last_nat_def)
  have "chained L (unat ?i) (ae_prev_log_term q) (map entry_of (take j (ae_entries q)))"
    using q by (metis append_take_drop_id chained_append map_append)
  moreover have "chained L (unat ?i) (ae_prev_log_term q) (drop ?k (log n))"
    using chained_take_drop(2) [OF n(1) [unfolded log_chained_def] k(1)] by (simp only: k(2) t)
  ultimately have "chained L (unat ?i) (ae_prev_log_term q)
      (merge (drop ?k (log n)) (map entry_of (take j (ae_entries q))))"
    by (intro chained_merge)
  then show ?thesis
    using chained_take_drop(1) [OF n(1) [unfolded log_chained_def] k(1)] k
    by (auto simp: n' after_append_def log_chained_def Let_def t)
qed

section \<open>The log on disk\<close>

text \<open>The index and the term that the snapshot metadata in a store name.\<close>

definition disk_base :: "codecs \<Rightarrow> contents \<Rightarrow> u64 \<Rightarrow> u64 \<Rightarrow> bool" where
  "disk_base pb m s t \<longleftrightarrow> (case m ''__raft/snapshot_metadata'' of
       None \<Rightarrow> s = 0 \<and> t = 0
     | Some x \<Rightarrow> parse (snapshot_metadata_pb pb) x =
         Some \<lparr>sm_last_included_index = s, sm_last_included_term = t\<rparr>)"

definition disk_chained :: "codecs \<Rightarrow> link set \<Rightarrow> contents \<Rightarrow> u64 \<Rightarrow> u64 \<Rightarrow> bool" where
  "disk_chained pb L m s t \<longleftrightarrow> disk_base pb m s t \<and> (\<exists>l. log_stored pb m s l \<and> chained L (unat s) t l)"

definition same_log :: "contents \<Rightarrow> contents \<Rightarrow> bool" where
  "same_log m m' \<longleftrightarrow> m' ''__raft/snapshot_metadata'' = m ''__raft/snapshot_metadata'' \<and>
     (\<forall>i. m' (LogKey i) = m (LogKey i))"

lemma disk_chained_same: "same_log m m' \<Longrightarrow> disk_chained pb L m s t \<Longrightarrow> disk_chained pb L m' s t"
  using log_stored_cong [of m' m] by (simp add: same_log_def disk_chained_def disk_base_def)

lemma disk_base_metadata:
  assumes "codecs_ok pb" and "m ''__raft/snapshot_metadata'' = Some x" and "SerializeSnapshotMetadata pb s t = Inr x"
  shows "disk_base pb m s t"
  using assms by (auto simp: disk_base_def SerializeSnapshotMetadata_def codecs_ok_def intro: codec_parse split: option.splits)

lemma load_log_unique:
  assumes ok: "rocksdb_ok R \<alpha>"
  shows "load_log P R d (i + 1) = Inr l' \<Longrightarrow> log_stored P (\<alpha> d) i l \<Longrightarrow> l' = l"
proof (induction l arbitrary: i l')
  case Nil
  then show ?case
    using Get_lookup [OF ok, of d "LogKey (i + 1)"]
    by (subst (asm) load_log.simps) (auto split: sum.splits option.splits)
next
  case (Cons e l)
  then obtain s where s: "\<alpha> d (LogKey (i + 1)) = Some s"
    and e: "parse (log_entry_pb P) s = Some \<lparr>le_index = i + 1, le_term = entry_term e, le_command = entry_command e\<rparr>"
    and l: "log_stored P (\<alpha> d) (i + 1) l" by (auto split: option.splits)
  from Cons.prems(1) s e obtain l0 where "load_log P R d (i + 1 + 1) = Inr l0" "l' = e # l0"
    using Get_lookup [OF ok, of d "LogKey (i + 1)"]
    by (subst (asm) load_log.simps) (auto split: sum.splits option.splits if_splits)
  with Cons.IH l show ?case by blast
qed

lemma LoadSnapshot_lookup:
  assumes "rocksdb_ok R \<alpha>" and "LoadSnapshot R d = Inr x"
  shows "\<alpha> d ''__raft/snapshot_metadata'' = map_option fst x"
proof -
  obtain st v where get: "DB_Get R d ''__raft/snapshot_metadata'' = (st, v)" by fastforce
  with assms(2) have "if st = Status_OK then x = Some (v, snd (DB_Get R d ''__raft/snapshot_data''))
      else IsNotFound st \<and> x = None"
    by (auto simp: LoadSnapshot_def split: prod.splits if_splits)
  with assms(1) get show ?thesis by (cases st) (auto simp: rocksdb_ok_def)
qed

lemma Load_unique:
  assumes ok: "rocksdb_ok R \<alpha>" and load: "Load P R d = Inr st"
    and disk: "disk_base P (\<alpha> d) s t" "log_stored P (\<alpha> d) s l"
  shows "ps_snapshot_index st = s" and "ps_snapshot_term st = t" and "ps_log st = l"
proof -
  obtain x where x: "LoadSnapshot R d = Inr x"
    using load by (cases "LoadSnapshot R d") (auto simp: Load_def)
  have l: "load_log P R d (ps_snapshot_index st + 1) = Inr (ps_log st)"
    and base: "case x of
         None \<Rightarrow> ps_snapshot_index st = 0 \<and> ps_snapshot_term st = 0
       | Some (md, _) \<Rightarrow> parse (snapshot_metadata_pb P) md =
           Some \<lparr>sm_last_included_index = ps_snapshot_index st, sm_last_included_term = ps_snapshot_term st\<rparr>"
    using load x
    by (cases x; cases "parse (snapshot_metadata_pb P) (fst (the x))";
        auto simp: Load_def rbind_Inr_iff split: if_splits)+
  show st: "ps_snapshot_index st = s" "ps_snapshot_term st = t"
    using LoadSnapshot_lookup [OF ok x] base disk(1) by (auto simp: disk_base_def split: option.splits)
  then show "ps_log st = l" using load_log_unique [OF ok l] disk(2) by simp
qed

lemma Load_chained:
  assumes "rocksdb_ok R \<alpha>" and "Load P R d = Inr st" and "disk_chained P L (\<alpha> d) s t"
  shows "ps_snapshot_index st = s" and "ps_snapshot_term st = t" and "chained L (unat s) t (ps_log st)"
  using assms(3) Load_unique [OF assms(1,2)] unfolding disk_chained_def by blast+

text \<open>The writes that leave metadata and log alone.\<close>

lemma same_log_refl [simp]: "same_log m m"
  by (simp add: same_log_def)

lemma PersistState_same:
  assumes "rocksdb_ok R \<alpha>" and "PersistState R a b c d' e f d = (r, d1)"
  shows "same_log (\<alpha> d) (\<alpha> d1)"
  using rocks.write_frame [OF assms(1) assms(2) [unfolded PersistState_def]] state_puts_keys LogKey_not_meta
  by (auto simp: same_log_def state_puts_def LogKey_def)

lemma apply_contents_same: "apply_contents P c i j m = Some m' \<Longrightarrow> same_log m m'"
  using apply_contents_frame [of P c i j m m'] by (auto simp: same_log_def LogKey_def)

lemma ApplyAtomically_same:
  assumes "rocksdb_ok R \<alpha>" and "ApplyAtomically P R c i j d = (r, d')"
  shows "same_log (\<alpha> d) (\<alpha> d')"
proof (cases r)
  case (Inl e)
  with ApplyAtomically_throws [OF assms(1) assms(2) [unfolded Inl]] apply_contents_same show ?thesis by fastforce
next
  case (Inr u)
  with ApplyAtomically_returns [OF assms(1) assms(2) [unfolded Inr]] apply_contents_same show ?thesis by blast
qed

text \<open>The writes of the log, over a store whose failed writes have no effect.\<close>

lemma write_fails:
  assumes "rocksdb_ok R \<alpha> \<and> rocksdb_clean R \<alpha>" and "WriteAtomically R puts dels d = (Inl e, d')"
  shows "\<alpha> d' = \<alpha> d"
  using rocks_clean.write_clean [OF assms] .

lemma log_write_fails:
  assumes clean: "rocksdb_ok R \<alpha> \<and> rocksdb_clean R \<alpha>"
  shows "PersistLog P R s l d = (Inl e, d') \<Longrightarrow> \<alpha> d' = \<alpha> d"
    and "PersistSnapshot P R a b c d0 s t metadata data l d = (Inl e, d') \<Longrightarrow> \<alpha> d' = \<alpha> d"
    and "ApplySnapshot P R sc a b c d0 s t l d = (Inl e, d') \<Longrightarrow> \<alpha> d' = \<alpha> d"
  using write_fails [OF clean]
  by (auto simp: PersistLog_def PersistSnapshot_def ApplySnapshot_def mbind_app mwhen_def Let_def ret_def
      split: if_splits sum.splits)

lemma PersistLog_chained:
  assumes clean: "rocksdb_ok R \<alpha> \<and> rocksdb_clean R \<alpha>" and pb: "codecs_ok P"
    and run: "PersistLog P R s l d = (r, d')" and disk: "disk_chained P L (\<alpha> d) s t"
    and l: "chained L (unat s) t l" "length l < 2 ^ 64"
  shows "disk_chained P L (\<alpha> d') s t"
proof (cases r)
  case (Inl e)
  with log_write_fails(1) [OF clean] run disk show ?thesis by simp
next
  case (Inr u)
  have "codec_ok (log_entry_pb P)" using pb by (simp add: codecs_ok_def)
  note stored = PersistLog_stored [OF conjunct1 [OF clean] this run [unfolded Inr] l(2)]
  have "\<alpha> d' ''__raft/snapshot_metadata'' = \<alpha> d ''__raft/snapshot_metadata''"
    by (rule stored(2)) (auto simp: LogKey_def)
  with disk stored(1) l(1) show ?thesis by (auto simp: disk_chained_def disk_base_def)
qed

lemma TakeSnapshot_outcome:
  assumes clean: "rocksdb_ok (env_rocks E) \<alpha> \<and> rocksdb_clean (env_rocks E) \<alpha>" and pb: "codecs_ok (env_pb E)"
    and fits: "log_fits n"
  obtains (kept) d where "snd (TakeSnapshot E n) = n\<lparr>db := d\<rparr>" and "\<alpha> d = \<alpha> (db n)"
  | (taken) d data k where "k = unat (commit_index n) - unat (snapshot_index n)"
      and "snapshot_index n \<le> commit_index n" and "commit_index n \<le> LastIndex n"
      and "disk_base (env_pb E) (\<alpha> d) (commit_index n) (TermAt n (commit_index n))"
      and "log_stored (env_pb E) (\<alpha> d) (commit_index n) (drop k (log n))"
      and "snd (TakeSnapshot E n) = n\<lparr>db := d, snapshot_index := commit_index n,
        snapshot_term := TermAt n (commit_index n), snapshot_data := data, log := drop k (log n)\<rparr>"
proof (cases rule: TakeSnapshot_cases [of E n])
  case (fails e)
  then show thesis using kept [of "db n"] by simp
next
  case (writes entries requests metadata data)
  let ?c = "commit_index n" and ?s = "snapshot_index n"
  let ?k = "unat (?c - ?s)" and ?t = "TermAt n ?c"
  have c: "?s \<le> ?c" "?c \<le> LastIndex n" using writes(1) fits
    by (auto simp: TermAt_def word_le_nat_alt word_less_nat_alt last_nat_def split: if_splits)
  then have k: "?k = unat ?c - unat ?s" by (simp add: unat_sub word_le_nat_alt)
  obtain r d where run: "PersistSnapshot (env_pb E) (env_rocks E) (current_term n) (voted_for n)
      ?c (last_applied n) ?c ?t metadata data (drop ?k (log n)) (db n) = (r, d)" by fastforce
  show thesis
  proof (cases r)
    case (Inl e)
    then have "\<alpha> d = \<alpha> (db n)" using log_write_fails(2) [OF clean] run by blast
    then show thesis using kept [of d] by (simp add: writes(7) run Inl)
  next
    case (Inr u)
    have "length (drop ?k (log n)) < 2 ^ 64" using fits by (simp add: log_fits_def)
    note stored = PersistSnapshot_stored [OF conjunct1 [OF clean] pb run [unfolded Inr] this]
    have "\<alpha> d ''__raft/snapshot_metadata'' = Some metadata"
      using stored(2) [of "''__raft/snapshot_metadata''"] by (simp add: meta_keys_def meta_puts_def state_puts_def)
    then have "disk_base (env_pb E) (\<alpha> d) ?c ?t" by (rule disk_base_metadata [OF pb _ writes(4)])
    then show thesis using taken [OF k c, of d data] stored(1) by (simp add: writes(7) run Inr)
  qed
qed

section \<open>The predicate on nodes\<close>

definition request_linked :: "codecs \<Rightarrow> link set \<Rightarrow> RaftRpc \<Rightarrow> bool" where
  "request_linked pb L m \<longleftrightarrow> (msg_type m = APPEND_ENTRIES \<longrightarrow>
     (case parse (append_entries_pb pb) (msg_payload m) of
        None \<Rightarrow> True
      | Some q \<Rightarrow> chained L (unat (ae_prev_log_index q)) (ae_prev_log_term q) (map entry_of (ae_entries q))))"

fun linked :: "codecs \<Rightarrow> link set \<Rightarrow> io \<Rightarrow> bool" where
  "linked pb L (Send c f) \<longleftrightarrow> (case rpc_in pb f of None \<Rightarrow> True | Some m \<Rightarrow> request_linked pb L m)"
| "linked pb L _ \<longleftrightarrow> True"

text \<open>
  The entries that a node created are of its term or of earlier ones; it has those of its own term
  while it leads, and there are none yet while it is a candidate.
\<close>

definition owns :: "link set \<Rightarrow> i32 \<Rightarrow> 'db node \<Rightarrow> bool" where
  "owns L me n \<longleftrightarrow> (\<forall>k p e. (me, k, p, e) \<in> L \<longrightarrow> entry_term e \<le> current_term n \<and>
     (entry_term e = current_term n \<longrightarrow> role n \<noteq> Candidate \<and> (role n = Leader \<longrightarrow> k \<le> last_nat n)))"

definition links_ok :: "codecs \<Rightarrow> ('db \<Rightarrow> contents) \<Rightarrow> link set \<Rightarrow> i32 \<Rightarrow> 'db node \<Rightarrow> bool" where
  "links_ok pb \<alpha> L me n \<longleftrightarrow> log_chained L n \<and>
     disk_chained pb L (\<alpha> (db n)) (snapshot_index n) (snapshot_term n) \<and>
     owns L me n \<and> list_all (linked pb L) (trace n)"

lemma linked_other: "(\<And>c f. x \<noteq> Send c f) \<Longrightarrow> linked pb L x"
  by (cases x) auto

lemmas links_defs = links_ok_def log_chained_def owns_def last_nat_def

lemma quiet_links: "quiet (linked pb L) (links_ok pb \<alpha> L me)"
  by (simp add: quiet_def links_defs linked_other)

lemma links_free:
  assumes "links_ok pb \<alpha> L me n"
  shows "links_ok pb \<alpha> L me (n\<lparr>commit_index := k\<rparr>)" "links_ok pb \<alpha> L me (n\<lparr>match_index := mi\<rparr>)"
    "links_ok pb \<alpha> L me (n\<lparr>active_read_index := ar\<rparr>)" "links_ok pb \<alpha> L me (n\<lparr>pending_read_indexes := pr\<rparr>)"
    "links_ok pb \<alpha> L me (n\<lparr>incoming_snapshot_index := k\<rparr>)" "links_ok pb \<alpha> L me (n\<lparr>incoming_snapshot_term := k\<rparr>)"
    "links_ok pb \<alpha> L me (n\<lparr>incoming_snapshot_data := bytes\<rparr>)" "links_ok pb \<alpha> L me (n\<lparr>incoming_snapshot_active := b\<rparr>)"
    "links_ok pb \<alpha> L me (n\<lparr>granted_votes := g\<rparr>)" "links_ok pb \<alpha> L me (n\<lparr>votes_received := w\<rparr>)"
    "links_ok pb \<alpha> L me (n\<lparr>voted_for := v\<rparr>)" "links_ok pb \<alpha> L me (n\<lparr>last_applied := k\<rparr>)"
    "links_ok pb \<alpha> L me (n\<lparr>snapshot_data := bytes\<rparr>)" "links_ok pb \<alpha> L me (n\<lparr>snapshot_in_progress := b\<rparr>)"
    "links_ok pb \<alpha> L me (n\<lparr>ready := b\<rparr>)" "links_ok pb \<alpha> L me (n\<lparr>role := Follower, leader := b\<rparr>)"
  using assms by (simp_all add: links_defs)

lemma links_store:
  assumes "links_ok pb \<alpha> L me n" and "same_log (\<alpha> (db n)) (\<alpha> d)"
  shows "links_ok pb \<alpha> L me (n\<lparr>db := d\<rparr>)"
  using assms disk_chained_same by (auto simp: links_defs)

lemma makes_linked:
  assumes "codecs_ok (env_pb E)" and "T \<noteq> APPEND_ENTRIES"
  shows "makes E (linked (env_pb E) L) T"
  unfolding makes_def
proof (intro allI impI)
  fix c payload f
  assume "frame_of E T payload f"
  then obtain rid sid where "rpc_in (env_pb E) f
      = Some \<lparr>msg_type = T, msg_request_id = rid, msg_sender_id = sid, msg_payload = payload\<rparr>"
    by (rule rpc_in_frame [OF assms(1)])
  with assms(2) show "linked (env_pb E) L (Send c f)" by (simp add: request_linked_def)
qed

text \<open>What the laws of the event loop ask for; the environment is fixed by these assumptions.\<close>

definition link_env :: "'db env \<Rightarrow> ('db \<Rightarrow> contents) \<Rightarrow> link set \<Rightarrow> bool" where
  "link_env E \<alpha> L \<longleftrightarrow> rocksdb_ok (env_rocks E) \<alpha> \<and> rocksdb_clean (env_rocks E) \<alpha> \<and> codecs_ok (env_pb E) \<and> bounded L"

lemma link_envD:
  assumes "link_env E \<alpha> L"
  shows "rocksdb_ok (env_rocks E) \<alpha>" "rocksdb_ok (env_rocks E) \<alpha> \<and> rocksdb_clean (env_rocks E) \<alpha>"
    "codecs_ok (env_pb E)" "bounded L"
  using assms by (simp_all add: link_env_def)

lemma links_PersistState:
  assumes "link_env E \<alpha> L"
  shows "preserves (links_ok pb \<alpha> L me) (Node_PersistState E)"
proof (rule preservesI)
  fix n :: "'a node"
  assume n: "links_ok pb \<alpha> L me n"
  obtain r d where run: "PersistState (env_rocks E) (current_term n) (voted_for n) (commit_index n)
      (last_applied n) (snapshot_index n) (snapshot_term n) (db n) = (r, d)" by fastforce
  with links_store [OF n PersistState_same [OF link_envD(1) [OF assms] run]]
  show "links_ok pb \<alpha> L me (snd (Node_PersistState E n))" by (simp add: Node_PersistState_def on_db_def)
qed

lemma links_PersistLog:
  assumes env: "link_env E \<alpha> L"
  shows "preserves (links_ok (env_pb E) \<alpha> L me) (Node_PersistLog E)"
proof (rule preservesI)
  fix n :: "'a node"
  assume n: "links_ok (env_pb E) \<alpha> L me n"
  obtain r d where run: "PersistLog (env_pb E) (env_rocks E) (snapshot_index n) (log n) (db n) = (r, d)"
    by fastforce
  have "log_fits n" using n link_envD(4) [OF env] by (auto simp: links_ok_def intro: log_chained_fits)
  then have "length (log n) < 2 ^ 64" by (simp add: log_fits_def)
  then have "disk_chained (env_pb E) L (\<alpha> d) (snapshot_index n) (snapshot_term n)"
    using n by (intro PersistLog_chained [OF link_envD(2,3) [OF env] run])
      (simp_all add: links_ok_def log_chained_def)
  with n have "links_ok (env_pb E) \<alpha> L me (n\<lparr>db := d\<rparr>)" by (simp add: links_defs)
  then show "links_ok (env_pb E) \<alpha> L me (snd (Node_PersistLog E n))"
    by (simp add: Node_PersistLog_def on_db_def run)
qed

lemma links_TakeSnapshot:
  assumes env: "link_env E \<alpha> L"
  shows "preserves (links_ok (env_pb E) \<alpha> L me) (TakeSnapshot E)"
proof (rule preservesI)
  fix n :: "'a node"
  assume n: "links_ok (env_pb E) \<alpha> L me n"
  then have chained: "chained L (unat (snapshot_index n)) (snapshot_term n) (log n)" and fits: "log_fits n"
    using link_envD(4) [OF env] by (auto simp: links_ok_def log_chained_def intro: log_chained_fits)
  show "links_ok (env_pb E) \<alpha> L me (snd (TakeSnapshot E n))"
  proof (cases rule: TakeSnapshot_outcome [OF link_envD(2,3) [OF env] fits])
    case (1 d)
    then show ?thesis using links_store [OF n, of d] by simp
  next
    case (2 d data k)
    let ?c = "commit_index n"
    have k: "k \<le> length (log n)" "unat (snapshot_index n) + k = unat ?c" using 2(1-3) fits
      by (auto simp: word_le_nat_alt last_nat_def)
    have suffix: "chained L (unat ?c) (TermAt n ?c) (drop k (log n))"
      using chained_take_drop(2) [OF chained k(1)] TermAt_chain [OF fits 2(2,3)] k(2) 2(1) by simp
    moreover have "unat ?c + length (drop k (log n)) = unat (snapshot_index n) + length (log n)"
      using k by simp
    ultimately show ?thesis
      using n 2(4,5) by (auto simp: 2(6) links_defs disk_chained_def)
  qed
qed

lemma links_ApplyCommitted:
  assumes env: "link_env E \<alpha> L"
  shows "preserves (links_ok (env_pb E) \<alpha> L me) (ApplyCommitted E)"
proof (rule preserves_ApplyCommitted_parts)
  show "links_ok (env_pb E) \<alpha> L me (n\<lparr>db := snd (ApplyAtomically (env_pb E) (env_rocks E) c i j (db n))\<rparr>)"
    if "links_ok (env_pb E) \<alpha> L me n" for n c i j
    by (rule links_store [OF that], rule ApplyAtomically_same [OF link_envD(1) [OF env]]) (rule prod.collapse [symmetric])
qed (auto intro: links_free links_PersistState [OF env] links_TakeSnapshot [OF env])

section \<open>Handlers\<close>

lemma links_send_entries:
  assumes env: "link_env E \<alpha> L" and n: "links_ok (env_pb E) \<alpha> L me n"
    and behind: "snapshot_index n < val_or 0 (next_index n) peer"
  shows "links_ok (env_pb E) \<alpha> L me (snd (send_entries E peer c n))"
proof -
  let ?P = "links_ok (env_pb E) \<alpha> L me" and ?i = "val_or 0 (next_index n) peer"
  let ?next = "max 1 (min ?i (LastIndex n + 1))"
  note q = quiet_links [of "env_pb E" L \<alpha> me]
  have chain: "log_chained L n" and bound: "bounded L" using n link_envD(4) [OF env] by (simp_all add: links_ok_def)
  note fits = log_chained_fits [OF chain bound]
  have "unat ?i < 2 ^ 64" using unsigned_less [of ?i] by simp
  moreover have "unat (snapshot_index n) < unat ?i" using behind by (simp add: word_less_nat_alt)
  ultimately have "unat (snapshot_index n) < 2 ^ 64 - 1" by linarith
  then have "last_nat n + 1 < 2 ^ 64" using fits(2) by (cases "log n = []") (auto simp: last_nat_def)
  then have "unat (LastIndex n + 1) = Suc (last_nat n)" using fits(1) by (subst unat_add_one) simp_all
  then have nxt: "snapshot_index n < ?next" "?next \<le> LastIndex n + 1"
    using behind by (auto simp: word_less_nat_alt word_le_nat_alt max_def min_def last_nat_def)
  show ?thesis
  proof (cases "append_batch n ?next ?next")
    case (Inl e)
    then show ?thesis using n by (simp add: send_entries_def mbind_app Let_def)
  next
    case (Inr es)
    define request where "request = \<lparr>ae_term = current_term n, ae_leader_id = u64_of_i32 (server_id n),
            ae_prev_log_index = ?next - 1, ae_prev_log_term = TermAt n (?next - 1),
            ae_entries = es, ae_leader_commit = commit_index n\<rparr>"
    have chained: "chained L (unat (?next - 1)) (TermAt n (?next - 1)) (map entry_of es)"
      by (rule append_batch_chained [OF chain bound nxt Inr])
    have sent: "linked (env_pb E) L (Send c' f)"
      if payload: "serialize (append_entries_pb (env_pb E)) request = Some payload"
        and frame: "frame_of E APPEND_ENTRIES payload f" for payload c' f
    proof -
      obtain rid sid where "rpc_in (env_pb E) f
          = Some \<lparr>msg_type = APPEND_ENTRIES, msg_request_id = rid, msg_sender_id = sid, msg_payload = payload\<rparr>"
        using frame by (rule rpc_in_frame [OF link_envD(3) [OF env]])
      moreover have "parse (append_entries_pb (env_pb E)) payload = Some request"
        using link_envD(3) [OF env] payload by (intro codec_parse) (simp_all add: codecs_ok_def)
      ultimately show ?thesis using chained by (simp add: request_linked_def request_def)
    qed
    have send: "preserves ?P (SendRpc E (Some c) APPEND_ENTRIES payload 0)"
      if "serialize (append_entries_pb (env_pb E)) request = Some payload" for payload
      by (rule preserves_SendRpc_frame) (auto intro: quietD [OF q] quiet_trace(9) [OF q] sent [OF that])
    then have "preserves ?P (case serialize (append_entries_pb (env_pb E)) request of
         None \<Rightarrow> ret ()
       | Some payload \<Rightarrow>
           mseq (mput (\<lambda>n. n\<lparr>
             rpc_inflight := (rpc_inflight n)(peer := True),
             rpc_generation := (rpc_generation n)(peer := g),
             rpc_has_entries := (rpc_has_entries n)(peer := b)\<rparr>))
           (mbind (SendRpc E (Some c) APPEND_ENTRIES payload 0) (\<lambda>request_id.
              if request_id = 0 then ResetPeerRpcState peer (Some c)
              else mseq (note_rpc peer request_id)
                (mseq (run_after kRpcTimeout (AppendTimeout peer g request_id c)) (ret ())))))" for g b
      unfolding run_after_def by (intro send pres frame [OF q] preserves_mput quietD [OF q] quiet_trace [OF q])
    from preserves_run [OF this n] show ?thesis
      by (simp add: send_entries_def mbind_app Let_def Inr request_def)
  qed
qed

lemma links_SendAppend:
  assumes env: "link_env E \<alpha> L"
  shows "preserves (links_ok (env_pb E) \<alpha> L me) (SendAppend E peer)"
proof -
  let ?P = "links_ok (env_pb E) \<alpha> L me"
  note q = quiet_links [of "env_pb E" L \<alpha> me]
  have snap: "preserves ?P (SendSnapshot E peer)"
    by (intro frame [OF q] makes_linked link_envD(3) [OF env]) simp
  have "?P (snd (mseq (mput (\<lambda>n. n\<lparr>next_index := touch 0 peer (next_index n)\<rparr>))
           (if val_or 0 (next_index n) peer \<le> snapshot_index n then SendSnapshot E peer
            else send_entries E peer c) n))" if "?P n" for n c
    using that preserves_run [OF snap] links_send_entries [OF env, where peer = peer] quietD(13) [OF q]
    by (simp add: mseq_app not_le)
  then show ?thesis
    unfolding SendAppend_def by (intro preserves_mget_at) (simp split: option.split)
qed

lemma links_StepDown:
  assumes env: "link_env E \<alpha> L" and n: "links_ok (env_pb E) \<alpha> L me n"
  shows "links_ok (env_pb E) \<alpha> L me (snd (StepDown E t n))"
proof (rule StepDown_parts [OF quiet_links])
  assume "current_term n < t"
  then have "links_ok (env_pb E) \<alpha> L me (n\<lparr>current_term := t, voted_for := - 1\<rparr>)"
    using n by (auto simp: links_defs dest!: spec)
  then show "links_ok (env_pb E) \<alpha> L me (snd (mseq (mput (\<lambda>n. n\<lparr>current_term := t, voted_for := - 1\<rparr>)) (Node_PersistState E) n))"
    using preserves_run [OF links_PersistState [OF env]] by (simp add: mseq_app)
qed (simp_all add: n links_free)

lemma links_append_entries:
  assumes env: "link_env E \<alpha> L" and n: "links_ok (env_pb E) \<alpha> L me n" and follower: "role n = Follower"
    and q: "chained L (unat (ae_prev_log_index q)) (ae_prev_log_term q) (map entry_of (ae_entries q))"
  shows "links_ok (env_pb E) \<alpha> L me (snd (append_entries E q n))"
proof (cases "prev_matches n q")
  case True
  let ?P = "links_ok (env_pb E) \<alpha> L me"
  obtain r n' where run: "append_loop (ae_entries q) (ae_prev_log_index q) n = (r, n')" by fastforce
  have "log_chained L n'" "\<exists>l. n' = n\<lparr>log := l\<rparr>"
    using append_loop_chained [OF _ link_envD(4) [OF env] True q run] n by (simp_all add: links_ok_def)
  with n follower have n': "?P n'" by (auto simp: links_defs)
  have "preserves ?P (mseq (mwhen success (mdo [
         Node_PersistLog E,
         mput (\<lambda>n. n\<lparr>commit_index := min (ae_leader_commit q) (LastIndex n)\<rparr>),
         ApplyCommitted E]))
       (ret (success, index)))" for success index
    by (intro pres preserves_mput links_PersistLog [OF env] links_ApplyCommitted [OF env] links_free)
  from preserves_run [OF this n'] show ?thesis
    using True n' by (cases r) (auto simp: append_entries_def mbind_app run)
qed (simp add: append_entries_def n)

lemma snapshot_suffix_chained:
  assumes "log_chained L n" and "bounded L" and "snapshot_suffix n = Inr l"
  shows "chained L (unat (incoming_snapshot_index n)) (incoming_snapshot_term n) l" and "length l \<le> length (log n)"
proof -
  let ?i = "incoming_snapshot_index n" and ?s = "snapshot_index n"
  note fits = log_chained_fits(1) [OF assms(1,2)]
  have "l = [] \<or> (\<exists>k. ?i < LastIndex n \<and> TermAt n ?i = incoming_snapshot_term n \<and> LogOffset n (?i + 1) = Inr k \<and> l = drop k (log n))"
    using assms(3) by (auto simp: snapshot_suffix_def rbind_Inr_iff split: if_splits)
  then have "chained L (unat ?i) (incoming_snapshot_term n) l \<and> length l \<le> length (log n)"
  proof (elim disjE exE conjE)
    fix k
    assume i: "?i < LastIndex n" "TermAt n ?i = incoming_snapshot_term n" and k: "LogOffset n (?i + 1) = Inr k"
      and l: "l = drop k (log n)"
    have i1: "unat (?i + 1) = Suc (unat ?i)" using unat_succ_less [OF i(1)] by simp
    have k': "unat ?s \<le> unat ?i" "k = unat ?i - unat ?s" "unat ?i \<le> last_nat n"
      using k i1 by (auto simp: LogOffset_iff [OF fits])
    then have "k \<le> length (log n)" "unat ?s + k = unat ?i" by (simp_all add: last_nat_def)
    moreover have "TermAt n ?i = chain_end (snapshot_term n) (take k (log n))"
      using TermAt_chain [OF fits, of ?i] k' fits by (simp add: word_le_nat_alt)
    ultimately show ?thesis
      using chained_take_drop(2) [OF assms(1) [unfolded log_chained_def], of k] i(2) by (simp add: l)
  qed simp
  then show "chained L (unat ?i) (incoming_snapshot_term n) l" "length l \<le> length (log n)" by simp_all
qed

lemma ApplySnapshot_base:
  assumes "rocksdb_ok R \<alpha>" and "codecs_ok P" and "ApplySnapshot P R sc ct vf ci la si st l d = (Inr u, d')"
    and "snapshot_keys_ok (sc_entries sc) (sc_applied_requests sc)" and "length l < 2 ^ 64"
  obtains metadata where "SerializeSnapshotMetadata P si st = Inr metadata"
    and "\<alpha> d' ''__raft/snapshot_metadata'' = Some metadata" and "log_stored P (\<alpha> d') si l"
proof -
  obtain metadata data where m: "SerializeSnapshotMetadata P si st = Inr metadata" "log_stored P (\<alpha> d') si l"
    and puts: "\<forall>k\<in>set meta_keys. \<alpha> d' k = map_of (meta_puts ct vf ci la si st metadata data) k"
    using ApplySnapshot_stored [OF assms] by metis
  have "\<alpha> d' ''__raft/snapshot_metadata'' = Some metadata"
    using bspec [OF puts, of "''__raft/snapshot_metadata''"] by (simp add: meta_keys_def meta_puts_def state_puts_def)
  with m that show thesis by blast
qed

lemma links_install_complete:
  assumes env: "link_env E \<alpha> L" and n: "links_ok (env_pb E) \<alpha> L me n" and follower: "role n = Follower"
  shows "links_ok (env_pb E) \<alpha> L me (snd (install_complete E n))"
proof -
  let ?P = "links_ok (env_pb E) \<alpha> L me"
  consider e where "ParseSnapshotState (env_pb E) (incoming_snapshot_data n) = Inl e"
    | sc e where "ParseSnapshotState (env_pb E) (incoming_snapshot_data n) = Inr sc" "snapshot_suffix n = Inl e"
    | sc l where "ParseSnapshotState (env_pb E) (incoming_snapshot_data n) = Inr sc" "snapshot_suffix n = Inr l"
    by (metis sumE)
  then show ?thesis
  proof cases
    case (3 sc l)
    let ?i = "incoming_snapshot_index n" and ?t = "incoming_snapshot_term n"
    let ?ci = "max (commit_index n) ?i"
    let ?set = "\<lambda>m. m\<lparr>snapshot_index := incoming_snapshot_index m, snapshot_term := incoming_snapshot_term m,
      snapshot_data := incoming_snapshot_data m, log := l, commit_index := ?ci,
      last_applied := incoming_snapshot_index m\<rparr>"
    obtain r d where run: "ApplySnapshot (env_pb E) (env_rocks E) sc (current_term n) (voted_for n) ?ci
        ?i ?i ?t l (db n) = (r, d)" by fastforce
    have chain: "log_chained L n" "log_fits n"
      using n link_envD(4) [OF env] by (auto simp: links_ok_def intro: log_chained_fits)
    note suffix = snapshot_suffix_chained [OF chain(1) link_envD(4) [OF env] 3(2)]
    show ?thesis
    proof (cases r)
      case (Inl e)
      then have "\<alpha> d = \<alpha> (db n)" using log_write_fails(3) [OF link_envD(2) [OF env]] run by blast
      then have "?P (n\<lparr>db := d\<rparr>)" by (intro links_store [OF n]) simp
      then show ?thesis by (simp add: install_complete_def mbind_app mseq_app on_db_def 3 run Inl Let_def)
    next
      case (Inr u)
      have "length l < 2 ^ 64" using suffix(2) chain(2) by (simp add: log_fits_def)
      then obtain metadata where meta: "SerializeSnapshotMetadata (env_pb E) ?i ?t = Inr metadata"
        "\<alpha> d ''__raft/snapshot_metadata'' = Some metadata" and stored: "log_stored (env_pb E) (\<alpha> d) ?i l"
        by (rule ApplySnapshot_base [OF link_envD(1,3) [OF env] run [unfolded Inr] ParseSnapshotState_keys [OF 3(1)]])
      then have "disk_chained (env_pb E) L (\<alpha> d) ?i ?t"
        using suffix(1) disk_base_metadata [where m = "\<alpha> d", OF link_envD(3) [OF env] meta(2,1)] by (auto simp: disk_chained_def)
      then have "?P (?set (n\<lparr>db := d\<rparr>))" using n follower suffix(1) by (simp add: links_defs)
      moreover have "preserves ?P (mdo [ApplyCommitted E])" by (intro pres links_ApplyCommitted [OF env])
      ultimately have "?P (snd (mdo [ApplyCommitted E] (?set (n\<lparr>db := d\<rparr>))))" by (rule preserves_run [rotated])
      then show ?thesis
        by (simp add: install_complete_def mbind_app mseq_app on_db_def 3 run Inr Let_def)
    qed
  qed (use n in \<open>simp_all add: install_complete_def mbind_app\<close>)
qed

lemma links_BecomeLeader:
  assumes env: "link_env E \<alpha> L" and n: "links_ok (env_pb E) \<alpha> L me n" and candidate: "role n = Candidate"
  shows "links_ok (env_pb E) \<alpha> L me (snd (BecomeLeader E n))"
proof (rule preserves_BecomeLeader [OF quiet_links])
  show "links_ok (env_pb E) \<alpha> L me (n\<lparr>role := Leader, leader := True\<rparr>)"
    using n candidate by (auto simp: links_defs)
qed (simp_all add: links_free links_SendAppend [OF env])

lemma links_elect:
  assumes "link_env E \<alpha> L" and "links_ok (env_pb E) \<alpha> L me n" and "role n = Candidate"
  shows "links_ok (env_pb E) \<alpha> L me (snd (mdo [mget (\<lambda>n. mwhen (quorum n \<le> votes_received n) (BecomeLeader E))] n))"
    (is "?P (snd (mdo [?elect] n))")
proof -
  have "?P (snd (?elect n))" using assms(2) links_BecomeLeader [OF assms] by (simp add: mwhen_def)
  then show ?thesis unfolding mdo.simps by (rule snd_mseq) (rule preserves_ret)
qed

lemma links_campaign:
  assumes env: "link_env E \<alpha> L" and n: "links_ok (env_pb E) \<alpha> L me n" and room: "current_term n \<noteq> - 1"
  shows "links_ok (env_pb E) \<alpha> L me (snd (on_election_timeout E n))"
proof -
  let ?P = "links_ok (env_pb E) \<alpha> L me"
  let ?Q = "\<lambda>m. ?P m \<and> role m = Candidate"
  let ?n = "n\<lparr>role := Candidate, leader := False, current_term := current_term n + 1,
       voted_for := u64_of_i32 (server_id n), votes_received := 1, granted_votes := {server_id n}\<rparr>"
  have q: "quiet (linked (env_pb E) L) ?Q" using quiet_links [of "env_pb E" L \<alpha> me] by (simp add: quiet_def)
  have "current_term n < current_term n + 1" using room
    by (simp add: word_less_nat_alt unat_add_one_max)
  then have start: "?Q ?n" using n by (auto simp: links_defs dest!: spec)
  have "preserves (\<lambda>m. role m = Candidate) (Node_PersistState E)"
    by (rule preserves_Node_PersistState) simp
  then have "preserves ?Q (Node_PersistState E)"
    using links_PersistState [OF env] by (simp add: preserves_def)
  then have asks: "preserves ?Q (mseq (Node_PersistState E) (mseq ResetElectionTimer (SendRequestVotes E)))" (is "preserves _ ?ask")
    by (intro pres frame [OF q] makes_linked link_envD(3) [OF env]) simp_all
  have "?P (snd (mseq ?ask (mdo [mget (\<lambda>n. mwhen (quorum n \<le> votes_received n) (BecomeLeader E))]) ?n))"
    by (rule snd_mseq_via [OF asks start]) (simp, blast intro: links_elect [OF env])
  then have "?P (snd (BecomeCandidate E n))"
    by (simp add: BecomeCandidate_def mseq_Inr [OF mput_app] mseq_assoc)
  then show ?thesis using n by (simp add: on_election_timeout_def mwhen_def)
qed

lemma links_HandleRequestVote:
  assumes env: "link_env E \<alpha> L"
  shows "preserves (links_ok (env_pb E) \<alpha> L me) (HandleRequestVote E c payload rid)"
  unfolding HandleRequestVote_def Let_def
  by (intro pres frame [OF quiet_links] makes_linked preserves_mput links_free links_PersistState
      quiet_trace [OF quiet_links] preservesI links_StepDown env link_envD(3) [OF env]) simp_all

lemma links_HandleRequestVoteResponse:
  assumes env: "link_env E \<alpha> L"
  shows "preserves (links_ok (env_pb E) \<alpha> L me) (HandleRequestVoteResponse E c payload rid)"
proof -
  let ?P = "links_ok (env_pb E) \<alpha> L me"
  have "?P (snd (mdo [
           mput (\<lambda>n. n\<lparr>granted_votes := insert responder (granted_votes n)\<rparr>),
           mput (\<lambda>n. n\<lparr>votes_received := card (granted_votes n)\<rparr>),
           mget (\<lambda>n. mwhen (quorum n \<le> votes_received n) (BecomeLeader E))] n))"
    if "?P n" and "role n = Candidate" for n responder
    unfolding mdo.simps(2) [of "mput _"] mseq_Inr [OF mput_app]
    by (rule links_elect [OF env]) (use that in \<open>simp_all add: links_free\<close>)
  then show ?thesis
    unfolding HandleRequestVoteResponse_def Let_def
    by (intro preserves_case_option preserves_ret preserves_mget_at) (simp add: links_StepDown [OF env] del: mdo.simps)
qed

text \<open>The laws of the interface hold, for requests whose entries are links.\<close>

lemma links_handlers:
  assumes env: "link_env E \<alpha> L"
  shows "node_handlers E (\<lambda>_. request_linked (env_pb E) L) (linked (env_pb E) L) (links_ok (env_pb E) \<alpha> L me)"
    (is "node_handlers E ?ok ?B ?P")
proof -
  note q = quiet_links [of "env_pb E" L \<alpha> me] and m = makes_linked [OF link_envD(3) [OF env]]
  have rq: "read_quiet E ?B ?P"
    by (simp add: read_quiet_def q links_ApplyCommitted [OF env] m links_free)
  note reads = preserves_read_index [OF rq] preserves_read_messages [OF rq links_StepDown [OF env]]
  show ?thesis
  proof
    show "preserves ?P (SendRequestVoteToPeer E peer)" for peer
      by (intro frame [OF q] m) simp
  qed (simp_all add: q m reads links_free links_SendAppend links_ApplyCommitted links_StepDown env
      links_HandleRequestVote links_HandleRequestVoteResponse links_append_entries links_install_complete request_linked_def)
qed

section \<open>A new entry\<close>

lemma linked_mono:
  assumes "L \<subseteq> L'"
  shows "linked pb L x \<Longrightarrow> linked pb L' x"
  using chained_mono [OF _ assms] by (cases x) (auto simp: request_linked_def split: option.splits)

lemma linked_trace_mono: "L \<subseteq> L' \<Longrightarrow> list_all (linked pb L) xs \<Longrightarrow> list_all (linked pb L') xs"
  using linked_mono by (fastforce simp: list_all_iff)

lemma disk_chained_mono: "L \<subseteq> L' \<Longrightarrow> disk_chained pb L m s t \<Longrightarrow> disk_chained pb L' m s t"
  using chained_mono by (metis disk_chained_def)

lemma log_chained_mono: "L \<subseteq> L' \<Longrightarrow> log_chained L n \<Longrightarrow> log_chained L' n"
  unfolding log_chained_def by (rule chained_mono)

lemmas chain_mono = linked_trace_mono disk_chained_mono log_chained_mono

lemma links_mono:
  assumes "links_ok pb \<alpha> L me n" and "L \<subseteq> L'" and "\<And>k p e. (me, k, p, e) \<in> L' \<Longrightarrow> (me, k, p, e) \<in> L"
  shows "links_ok pb \<alpha> L' me n"
proof -
  have "owns L me n \<Longrightarrow> owns L' me n" using assms(3) by (simp add: owns_def) blast
  then show ?thesis
    using assms(1) by (auto simp: links_ok_def intro: chain_mono [OF assms(2)])
qed

lemma links_submit_entry:
  assumes env: "link_env E \<alpha> L" and n: "links_ok (env_pb E) \<alpha> L me n"
    and leader: "role n = Leader" and room: "last_nat n + 66 < 2 ^ 64"
    and e: "e = \<lparr>entry_term = current_term n, entry_command = serialized\<rparr>"
    and L': "L' = insert (me, Suc (last_nat n), chain_end (snapshot_term n) (log n), e) L"
  shows "link_env E \<alpha> L'" and "links_ok (env_pb E) \<alpha> L' me (snd (submit_entry E serialized result n))"
proof -
  let ?P = "links_ok (env_pb E) \<alpha> L' me"
  let ?n = "n\<lparr>log := log n @ [e]\<rparr>"
  show env': "link_env E \<alpha> L'" using env room by (auto simp: link_env_def bounded_def L')
  have "list_all (linked (env_pb E) L') (trace n)" and "disk_chained (env_pb E) L' (\<alpha> (db n)) (snapshot_index n) (snapshot_term n)"
    and "log_chained L' n"
    using n by (auto simp: links_ok_def L' intro: chain_mono)
  moreover have "owns L' me ?n"
    using n leader by (auto simp: links_ok_def owns_def L' e last_nat_def intro: le_SucI)
  ultimately have start: "?P ?n" by (auto simp: links_ok_def log_chained_def L' last_nat_def)
  note h = links_handlers [OF env', of me]
  have "preserves ?P (mseq (Node_PersistLog E) (mget (\<lambda>n. let target = LastIndex n in mdo [
       TryAdvanceCommit E, for_peers (SendAppend E), on_wait_for_commit target result])))"
    unfolding Let_def
    by (intro pres frame [OF quiet_links] links_PersistLog [OF env'] links_SendAppend [OF env']
        node_handlers.commits [OF h] node_handlers.waits [OF h])
  from preserves_run [OF this start] show "?P (snd (submit_entry E serialized result n))"
    by (simp add: submit_entry_def mseq_Inr [OF mput_app] e del: mdo.simps)
qed

text \<open>A task of a client appends at most one entry, and only at a leader.\<close>

lemma links_submit_task:
  assumes env: "link_env E \<alpha> L" and n: "links_ok (env_pb E) \<alpha> L me n" and room: "last_nat n + 66 < 2 ^ 64"
    and run: "submit_task E serialized cid rid result n = (r, n')"
  obtains (same) "links_ok (env_pb E) \<alpha> L me n'"
    | (new) L' where "role n = Leader" and "link_env E \<alpha> L'" and "links_ok (env_pb E) \<alpha> L' me n'"
      and "L' = insert (me, Suc (last_nat n), chain_end (snapshot_term n) (log n),
        \<lparr>entry_term = current_term n, entry_command = serialized\<rparr>) L"
proof -
  let ?e = "\<lparr>entry_term = current_term n, entry_command = serialized\<rparr>"
  define L' where "L' = insert (me, Suc (last_nat n), chain_end (snapshot_term n) (log n), ?e) L"
  note new = links_submit_entry [OF env n _ room refl L'_def]
  have answer: "preserves (links_ok (env_pb E) \<alpha> M me) (set_value result b)" for M b
    unfolding set_value_def emit_def by (intro preserves_mput quiet_trace [OF quiet_links])
  define body where "body = (\<lambda>n :: 'a node. if role n \<noteq> Leader \<or> stopping n then set_value result False
       else mbind (if rid \<noteq> 0
           then lift_result (GetAppliedCommand (env_rocks E) (db n) cid rid)
           else ret None) (\<lambda>applied.
         case applied of
           Some command \<Rightarrow> set_value result (command = serialized)
         | None \<Rightarrow> submit_entry E serialized result))"
  have body: "links_ok (env_pb E) \<alpha> L me (snd (body n n)) \<or>
      role n = Leader \<and> links_ok (env_pb E) \<alpha> L' me (snd (body n n))"
    using n new(2) preserves_run [OF answer n]
    by (auto simp: body_def mbind_app split: sum.split option.split)
  have "links_ok (env_pb E) \<alpha> M me n'" if "links_ok (env_pb E) \<alpha> M me (snd (body n n))" for M
  proof -
    have "mtry (body n) (\<lambda>_. set_value result False) n = (r, n')"
      using run by (simp add: submit_task_def body_def mtry_def)
    then show ?thesis
      using that preserves_run [OF answer [of M False] that]
      by (cases "body n n"; cases "fst (body n n)") (auto simp: mtry_def split: if_splits)
  qed
  then show thesis using body same new(1) that(2) [OF _ _ _ L'_def] by blast
qed

end
