(* ===== verification/Raft_Matching.thy ===== *)
theory Raft_Matching
  imports Raft_Log
begin

text \<open>
  The Log Matching property of Raft, for the logs of this program with their snapshots: where two
  logs have an entry of the same term at an index, they agree up to that index. The lemmas show
  that a follower that works through an AppendEntries request of a leader keeps it.
\<close>

section \<open>Logs that match\<close>

text \<open>The term known at an index: of a retained entry, or of the snapshot.\<close>

definition term_at :: "'db node \<Rightarrow> nat \<Rightarrow> u64 option" where
  "term_at n i = (if i = unat (snapshot_index n) then Some (snapshot_term n)
     else map_option entry_term (log_at n i))"

definition agree_at :: "'db node \<Rightarrow> 'db node \<Rightarrow> nat \<Rightarrow> bool" where
  "agree_at a b j \<longleftrightarrow>
     (\<forall>u v. log_at a j = Some u \<longrightarrow> log_at b j = Some v \<longrightarrow> u = v) \<and>
     (\<forall>s t. term_at a j = Some s \<longrightarrow> term_at b j = Some t \<longrightarrow> s = t)"

definition log_matching :: "'db node \<Rightarrow> 'db node \<Rightarrow> bool" where
  "log_matching a b \<longleftrightarrow>
     (\<forall>i t. term_at a i = Some t \<longrightarrow> term_at b i = Some t \<longrightarrow> (\<forall>j \<le> i. agree_at a b j))"

lemma log_matchingD: "log_matching a b \<Longrightarrow> term_at a i = Some t \<Longrightarrow> term_at b i = Some t \<Longrightarrow> j \<le> i \<Longrightarrow> agree_at a b j"
  by (auto simp: log_matching_def)

lemma log_matching_refl [simp]: "log_matching a a"
  by (auto simp: log_matching_def agree_at_def)

lemma agree_at_sym: "agree_at a b j \<Longrightarrow> agree_at b a j"
  by (auto simp: agree_at_def)

lemma log_matching_sym: "log_matching a b \<Longrightarrow> log_matching b a"
  by (auto simp: log_matching_def intro: agree_at_sym)

lemma agree_at_cong:
  assumes "log_at a j = log_at a' j" and "term_at a j = term_at a' j"
  shows "agree_at a b j \<longleftrightarrow> agree_at a' b j"
  using assms by (simp add: agree_at_def)

lemma term_at_TermAt:
  assumes "log_fits n" and "snapshot_index n \<le> index" and "index \<le> LastIndex n"
  shows "term_at n (unat index) = Some (TermAt n index)"
proof (cases "index = snapshot_index n")
  case False
  then have "unat (snapshot_index n) < unat index"
    using assms(2) by (simp add: word_le_nat_alt word_unat_eq_iff)
  moreover from this obtain e where "log_at n (unat index) = Some e"
    using assms by (auto simp: log_at_def word_le_nat_alt last_nat_def)
  ultimately show ?thesis using TermAt_log [OF assms(1), of index] by (simp add: term_at_def)
qed (simp add: term_at_def TermAt_def)

lemma term_at_retained: "term_at n i = Some t \<Longrightarrow> j \<le> i \<Longrightarrow> unat (snapshot_index n) \<le> j \<Longrightarrow> \<exists>s. term_at n j = Some s"
  by (auto simp: term_at_def log_at_def split: if_splits)

lemma below_snapshot: "term_at n j = None \<Longrightarrow> term_at n i = Some t \<Longrightarrow> j \<le> i \<Longrightarrow> k \<le> j \<Longrightarrow> log_at n k = None \<and> term_at n k = None"
  using term_at_retained [of n i t j] by (auto simp: term_at_def log_at_def split: if_splits)

text \<open>Matching logs that know the same term at an index hold the same entries up to it.\<close>

lemma matching_entries:
  assumes match: "log_matching n m" and "log_fits n" and "log_fits m"
    and a: "unat (snapshot_index n) \<le> a" "unat (snapshot_index m) \<le> a" and index: "index \<le> LastIndex n" "index \<le> LastIndex m"
    and same: "TermAt m index = TermAt n index"
  shows "entries_between m a (unat index) = entries_between n a (unat index)"
proof (cases "a < unat index")
  case True
  then have "snapshot_index n \<le> index" "snapshot_index m \<le> index" using a by (simp_all add: word_le_nat_alt)
  then have point: "term_at n (unat index) = Some (TermAt n index)" "term_at m (unat index) = Some (TermAt n index)"
    using term_at_TermAt [OF assms(2) _ index(1)] term_at_TermAt [OF assms(3) _ index(2)] same by simp_all
  have "log_at m i = log_at n i" if i: "a < i" "i \<le> unat index" for i
  proof -
    obtain u v where "log_at n i = Some u" "log_at m i = Some v"
      using i a index assms(2,3) by (auto simp: log_at_def word_le_nat_alt last_nat_def)
    with log_matchingD [OF match point i(2)] show ?thesis by (auto simp: agree_at_def)
  qed
  then show ?thesis by (simp add: entries_between_def del: upt_Suc)
qed (simp add: entries_between_def)

section \<open>The log of a follower after a request\<close>

lemma merge_longer: "length es < length (merge xs es) \<Longrightarrow> merge xs es = xs"
  by (induction xs es rule: merge.induct) (auto split: if_splits)

lemma merge_nth: "i < length es \<Longrightarrow> merge xs es ! i = es ! i \<or> (i < length xs \<and> merge xs es ! i = xs ! i)"
  by (induction xs es arbitrary: i rule: merge.induct) (auto simp: nth_Cons split: nat.splits)

definition append_step :: "'db node \<Rightarrow> u64 \<Rightarrow> RaftLogEntry list \<Rightarrow> 'db node \<Rightarrow> bool" where
  "append_step n prev es m \<longleftrightarrow>
     unat (snapshot_index m) \<le> unat prev \<and> unat prev \<le> last_nat m \<and>
     (\<exists>t. term_at n (unat prev) = Some t \<and> term_at m (unat prev) = Some t) \<and>
     (\<forall>j < length es. log_at n (Suc (unat prev) + j) = Some (es ! j)) \<and>
     log_matching n m"

lemma append_keeps_prefix:
  assumes "append_step n prev es m" and "i \<le> unat prev"
  shows "log_at (after_append prev es m) i = log_at m i" and "term_at (after_append prev es m) i = term_at m i"
  using assms by (auto simp: append_step_def log_at_def term_at_def after_append_def Let_def nth_append last_nat_def)

lemma append_takes_leader:
  assumes step: "append_step n prev es m" and i: "unat prev < i" "i \<le> unat prev + length es"
  shows "log_at (after_append prev es m) i = log_at n i" and "log_at n i \<noteq> None"
proof -
  let ?s = "unat (snapshot_index m)" and ?j = "i - Suc (unat prev)"
  let ?k = "unat prev - ?s"
  have bounds: "?s \<le> unat prev" "?k \<le> length (log m)" "?j < length es"
    using step i by (auto simp: append_step_def last_nat_def)
  have sent: "log_at n i = Some (es ! ?j)" using step bounds(3) i(1) by (auto simp: append_step_def)
  then show "log_at n i \<noteq> None" by simp
  have new: "log_at (after_append prev es m) i = Some (merge (drop ?k (log m)) es ! ?j)"
    using bounds i length_merge_le(2) [of es "drop ?k (log m)"]
    by (auto simp: log_at_def after_append_def Let_def nth_append)
  from merge_nth [OF bounds(3), of "drop ?k (log m)"]
  show "log_at (after_append prev es m) i = log_at n i"
  proof
    assume kept: "?j < length (drop ?k (log m)) \<and> merge (drop ?k (log m)) es ! ?j = drop ?k (log m) ! ?j"
    then have old: "log_at m i = Some (drop ?k (log m) ! ?j)"
      using bounds i by (auto simp: log_at_def)
    have "entry_term (drop ?k (log m) ! ?j) = entry_term (es ! ?j)"
      using merge_terms [OF bounds(3), of "drop ?k (log m)"] kept by simp
    then have "term_at m i = term_at n i" "term_at n i \<noteq> None"
      using old sent bounds i by (auto simp: term_at_def log_at_def split: if_splits)
    then have "agree_at n m i" using step by (auto simp: append_step_def intro: log_matchingD)
    with old sent new kept show ?thesis by (auto simp: agree_at_def)
  qed (use new sent in simp)
qed

lemma append_keeps_tail:
  assumes "append_step n prev es m" and "unat prev + length es < i" and "log_at (after_append prev es m) i \<noteq> None"
  shows "after_append prev es m = m"
proof -
  let ?k = "unat prev - unat (snapshot_index m)"
  have "length es < length (merge (drop ?k (log m)) es)"
    using assms by (auto simp: append_step_def last_nat_def log_at_def after_append_def Let_def split: if_splits)
  from merge_longer [OF this] show ?thesis by (simp add: after_append_def)
qed

text \<open>The follower's log keeps matching every log that both the leader's and its old log match.\<close>

lemma append_keeps_matching:
  assumes step: "append_step n prev es m" and nh: "log_matching n h" and mh: "log_matching m h"
  shows "log_matching (after_append prev es m) h"
proof (unfold log_matching_def, intro allI impI)
  fix i t j
  let ?m = "after_append prev es m"
  assume t: "term_at ?m i = Some t" "term_at h i = Some t" and j: "j \<le> i"
  have snap: "unat (snapshot_index ?m) \<le> unat prev" using step by (simp add: append_step_def after_append_def Let_def)
  have old: "agree_at ?m h j" if "agree_at m h j" "j \<le> unat prev"
    using that append_keeps_prefix [OF step that(2)] by (simp add: agree_at_cong [of ?m j m])
  consider "i \<le> unat prev" | "unat prev < i" "i \<le> unat prev + length es" | "unat prev + length es < i" by linarith
  then show "agree_at ?m h j"
  proof cases
    case 1
    with t j show ?thesis
      using append_keeps_prefix(2) [OF step, of i] by (intro old log_matchingD [OF mh, of i t]) auto
  next
    case 2
    note leader = append_takes_leader [OF step]
    have terms: "term_at ?m k = term_at n k" if "unat prev < k" "k \<le> i" for k
      using leader [of k] snap that 2 by (auto simp: term_at_def log_at_def split: if_splits)
    have agree: "agree_at n h k" if "k \<le> i" for k
      using t terms [of i] 2 that by (auto intro: log_matchingD [OF nh, of i t])
    show ?thesis
    proof (cases "j \<le> unat prev")
      case True
      obtain tp where tp: "term_at n (unat prev) = Some tp" "term_at m (unat prev) = Some tp"
        using step by (auto simp: append_step_def)
      have "agree_at m h j"
      proof (cases "term_at h (unat prev)")
        case None
        with below_snapshot [OF None t(2) _ True] 2 show ?thesis by (simp add: agree_at_def)
      next
        case (Some s)
        then have "s = tp" using agree [of "unat prev"] tp 2 by (auto simp: agree_at_def)
        with Some tp True show ?thesis by (auto intro: log_matchingD [OF mh])
      qed
      with True show ?thesis by (intro old)
    next
      case False
      with agree [OF j] leader [of j] terms [of j] j 2 show ?thesis by (simp add: agree_at_cong [of ?m j n])
    qed
  next
    case 3
    moreover have "log_at ?m i \<noteq> None" using t(1) snap 3 by (auto simp: term_at_def split: if_splits)
    ultimately have "?m = m" by (rule append_keeps_tail [OF step])
    with t j show ?thesis by (auto intro: log_matchingD [OF mh, of i t])
  qed
qed

text \<open>The batch of a leader that a follower can attach is such a step.\<close>

lemma append_batch_matching:
  assumes "last_nat n + 65 < 2 ^ 64" and m: "log_fits m" and "snapshot_index n < next" and "next \<le> LastIndex n + 1"
    and batch: "append_batch n next next = Inr es"
    and prev: "prev_matches m q" "ae_prev_log_index q = next - 1" "ae_prev_log_term q = TermAt n (next - 1)"
    and run: "append_loop es (next - 1) m = (r, m')"
  shows "\<exists>es'. m' = after_append (next - 1) es' m \<and> (log_matching n m \<longrightarrow> append_step n (next - 1) es' m)"
proof -
  have n: "log_fits n" using assms(1) by (simp add: log_fits_def last_nat_def)
  have nx: "unat next = Suc (unat (next - 1))" using unat_pred [OF assms(3)] assms(3) by (simp add: word_less_nat_alt)
  have "unat (LastIndex n + 1) = Suc (last_nat n)" using assms(1) n by (subst unat_add_one) simp_all
  then have upper: "unat next \<le> Suc (last_nat n)" using assms(4) by (simp add: word_le_nat_alt)
  obtain es' where "append_batch n next next = Inr es'" "length es' = min 64 (Suc (last_nat n) - unat next)"
    "\<forall>j < length es'. le_index (es' ! j) = next + of_nat j \<and> log_at n (unat next + j) = Some (entry_of (es' ! j))"
    using append_batch_log [OF assms(1,3) upper] by blast
  with batch have len: "length es \<le> Suc (last_nat n) - unat next"
    and log: "\<And>j. j < length es \<Longrightarrow> log_at n (unat next + j) = Some (entry_of (es ! j))" by auto
  have point: "term_at n (unat (next - 1)) = Some (TermAt n (next - 1))"
    using assms(3) upper nx by (intro term_at_TermAt n) (auto simp: word_le_nat_alt word_less_nat_alt n)
  have m_point: "term_at m (unat (next - 1)) = Some (TermAt n (next - 1))"
    using prev term_at_TermAt [OF m, of "next - 1"] by (simp add: prev_matches_def)
  have range: "unat (snapshot_index m) \<le> unat (next - 1)" "unat (next - 1) \<le> last_nat m"
    using prev m by (simp_all add: prev_matches_def word_le_nat_alt)
  have "unat (next - 1) + length es < 2 ^ 64" using assms(1) upper nx len by simp
  from append_loop_merge [OF this range m] obtain j where
    "m' = after_append (next - 1) (map entry_of (take j es)) m" using run by auto
  moreover have "append_step n (next - 1) (map entry_of (take j es)) m" if "log_matching n m"
    using that range point m_point log nx by (auto simp: append_step_def)
  ultimately show ?thesis by blast
qed

end
