(* ===== verification/Raft_Cluster_Log.thy ===== *)
theory Raft_Cluster_Log
  imports Raft_Cluster Raft_Links Raft_Matching
begin

text \<open>
  The logs of a cluster. A set of links is kept beside the run, one for each entry that a leader
  created. At most one of them is for a given index and term: its creator was elected in the term,
  and a leader does not create two entries at one index. All logs, in memory, on disk and in the
  requests on their way, are chains of these links, and therefore match each other.
\<close>

section \<open>Chains of one set of links match\<close>

definition functional :: "link set \<Rightarrow> bool" where
  "functional L \<longleftrightarrow> (\<forall>c c' k p p' e e'. (c, k, p, e) \<in> L \<longrightarrow> (c', k, p', e') \<in> L \<longrightarrow>
     entry_term e = entry_term e' \<longrightarrow> p = p' \<and> e = e')"

lemma link_at:
  assumes "log_chained L n" and "log_at n (Suc j) = Some e"
  obtains c p where "(c, Suc j, p, e) \<in> L" and "term_at n j = Some p"
proof -
  let ?k = "j - unat (snapshot_index n)"
  have k: "unat (snapshot_index n) + ?k = j" "?k < length (log n)" and e: "e = log n ! ?k"
    using assms(2) by (auto simp: log_at_def split: if_splits)
  obtain c where "(c, Suc j, chain_end (snapshot_term n) (take ?k (log n)), e) \<in> L"
    using chained_nth [OF assms(1) [unfolded log_chained_def] k(2)] unfolding k(1) e by blast
  moreover have "term_at n j = Some (chain_end (snapshot_term n) (take ?k (log n)))"
    using k by (cases ?k) (auto simp: term_at_def log_at_def chain_end_take)
  ultimately show thesis by (rule that)
qed

lemma chains_agree:
  assumes f: "functional L" and a: "log_chained L a" and b: "log_chained L b"
    and same: "term_at a (Suc j) = Some t" "term_at b (Suc j) = Some t"
    and above: "unat (snapshot_index a) \<le> j" "unat (snapshot_index b) \<le> j"
  shows "log_at a (Suc j) = log_at b (Suc j)" and "term_at a j = term_at b j"
proof -
  obtain u v where uv: "log_at a (Suc j) = Some u" "log_at b (Suc j) = Some v" "entry_term u = entry_term v"
    using same above by (auto simp: term_at_def)
  obtain c p where p: "(c, Suc j, p, u) \<in> L" "term_at a j = Some p" by (rule link_at [OF a uv(1)])
  obtain c' p' where p': "(c', Suc j, p', v) \<in> L" "term_at b j = Some p'" by (rule link_at [OF b uv(2)])
  have "p = p' \<and> u = v" using f p(1) p'(1) uv(3) unfolding functional_def by blast
  then show "log_at a (Suc j) = log_at b (Suc j)" and "term_at a j = term_at b j" using uv p p' by simp_all
qed

lemma chains_match:
  assumes f: "functional L" and a: "log_chained L a" and b: "log_chained L b"
  shows "log_matching a b"
  unfolding log_matching_def
proof (intro allI impI)
  fix i t j
  assume i: "term_at a i = Some t" "term_at b i = Some t" and j: "j \<le> i"
  let ?base = "max (unat (snapshot_index a)) (unat (snapshot_index b))"
  have down: "term_at a k = term_at b k" if "?base \<le> k" and "k \<le> i" for k
    using \<open>k \<le> i\<close> \<open>?base \<le> k\<close>
  proof (induction rule: inc_induct)
    case (step m)
    obtain s where "term_at a (Suc m) = Some s"
      using term_at_retained [OF i(1), of "Suc m"] step by auto
    then show ?case using chains_agree(2) [OF f a b, of m s] step by simp
  qed (use i in simp)
  have "log_at a j = log_at b j" if above: "?base < j"
  proof -
    obtain m where m: "j = Suc m" "?base \<le> m" using above by (cases j) auto
    obtain s where "term_at a j = Some s" using term_at_retained [OF i(1) j] above by auto
    then show ?thesis using chains_agree(1) [OF f a b, of m s] down [of j] m j by simp
  qed
  moreover have "log_at a j = None \<or> log_at b j = None" if "j \<le> ?base"
    using that by (auto simp: log_at_def max_def split: if_splits)
  moreover have "term_at a j = None \<or> term_at b j = None" if "j < ?base"
    using that by (auto simp: term_at_def log_at_def max_def split: if_splits)
  ultimately show "agree_at a b j"
    using down [of j] j unfolding agree_at_def
    by (metis linorder_not_le not_less_iff_gr_or_eq option.distinct(1) option.inject order_le_less)
qed

section \<open>One step of a member\<close>

text \<open>
  What the steps of a run have beside the conditions of \<open>cluster_step\<close>: a failed write of the store
  leaves its contents alone, and a leader whose indices run out takes no more commands.
\<close>

definition log_room :: "('db \<Rightarrow> contents) \<Rightarrow> 'db env \<Rightarrow> event option \<Rightarrow> 'db node \<Rightarrow> bool" where
  "log_room \<alpha> E ev n \<longleftrightarrow> rocksdb_clean (env_rocks E) \<alpha> \<and>
     (case ev of Some (SubmitTask _ _ _ _) \<Rightarrow> last_nat n + 66 < 2 ^ 64 | _ \<Rightarrow> True)"

definition new_link :: "i32 \<Rightarrow> 'db node \<Rightarrow> string \<Rightarrow> link" where
  "new_link me n command = (me, Suc (last_nat n), chain_end (snapshot_term n) (log n),
     \<lparr>entry_term = current_term n, entry_command = command\<rparr>)"

lemma event_links:
  assumes env: "link_env E \<alpha> L" and n: "links_ok (env_pb E) \<alpha> L me n"
    and rpcs: "rpcs_ok E (\<lambda>_. request_linked (env_pb E) L) ev"
    and room: "term_room ev n" "log_room \<alpha> E (Some ev) n" and run: "handle_event E ev n = (r, n')"
  obtains (same) "links_ok (env_pb E) \<alpha> L me n'"
    | (new) command where "role n = Leader" and "links_ok (env_pb E) \<alpha> (insert (new_link me n command) L) me n'"
        and "bounded (insert (new_link me n command) L)"
proof -
  consider (election) "ev = Fire ElectionTimeout"
    | (submission) s cid rid result where "ev = SubmitTask s cid rid result"
    | (other) "ev \<noteq> Fire ElectionTimeout" "\<And>s cid rid result. ev \<noteq> SubmitTask s cid rid result" by blast
  then show thesis
  proof cases
    case election
    with run room(1) links_campaign [OF env n] show thesis
      by (intro same) (simp add: handle_event_def run_callback_def term_room_def)
  next
    case (submission s cid rid result)
    with run have task: "submit_task E s cid rid result n = (r, n')" by (simp add: handle_event_def)
    have "last_nat n + 66 < 2 ^ 64" using room(2) submission by (simp add: log_room_def)
    from env n this task show thesis
    proof (cases rule: links_submit_task)
      case (new L')
      then show thesis using that(2) [of s] by (simp add: new_link_def link_env_def)
    qed (rule that(1))
  next
    case other
    from preservesD [OF node_handlers.handled [OF links_handlers [OF env] rpcs other] run n]
    show thesis by (rule same)
  qed
qed

section \<open>Starting over a chained store\<close>

definition stored :: "codecs \<Rightarrow> ('db \<Rightarrow> contents) \<Rightarrow> link set \<Rightarrow> 'db node \<Rightarrow> bool" where
  "stored pb \<alpha> L n \<longleftrightarrow> (\<exists>s t. disk_chained pb L (\<alpha> (db n)) s t) \<and> list_all (linked pb L) (trace n)"

lemma links_stored: "links_ok pb \<alpha> L me n \<Longrightarrow> stored pb \<alpha> L n"
  by (auto simp: links_ok_def stored_def)

lemma preserves_conj: "preserves P m \<Longrightarrow> preserves P' m \<Longrightarrow> preserves (\<lambda>n. P n \<and> P' n) m"
  by (simp add: preserves_def)

lemma start_quiet_conj:
  assumes "start_quiet B S K" and "start_quiet B' S' K'"
  shows "start_quiet (\<lambda>x. B x \<and> B' x) (\<lambda>n. S n \<and> S' n) (\<lambda>n. K n \<and> K' n)"
  using assms by (simp add: start_quiet_def quiet_def)

lemma stored_quiet: "start_quiet (linked pb L) (stored pb \<alpha> L) (links_ok pb \<alpha> L me)"
  unfolding start_quiet_def
proof (intro conjI)
  show "quiet (linked pb L) (stored pb \<alpha> L)" by (simp add: quiet_def stored_def linked_other)
qed (auto simp: quiet_links links_stored links_free, auto simp: stored_def links_defs)

lemma Start_links:
  assumes env: "link_env E \<alpha> L" and disk: "disk_chained (env_pb E) L (\<alpha> d) s t"
    and own: "\<And>k p e. (me, k, p, e) \<in> L \<Longrightarrow> entry_term e \<le> fst (durable (\<alpha> d))"
    and run: "Start E (fresh_node me ep port d ps) = (r, m)"
  shows "stored (env_pb E) \<alpha> L m" and "r = Inr u \<Longrightarrow> links_ok (env_pb E) \<alpha> L me m"
proof -
  let ?v = "durable (\<alpha> d)" and ?pb = "env_pb E"
  let ?S = "\<lambda>n. stored ?pb \<alpha> L n \<and> starting ?pb \<alpha> me ps ?v n"
  let ?K = "\<lambda>n. links_ok ?pb \<alpha> L me n \<and> loaded ?pb \<alpha> me ps ?v n"
  have took: "?K (take_over state n)" if n: "?S n" and load: "Load ?pb (env_rocks E) (db n) = Inr state" for n state
  proof -
    obtain s t where d: "disk_chained ?pb L (\<alpha> (db n)) s t" using n by (auto simp: stored_def)
    have vote: "(ps_current_term state, ps_voted_for state) = ?v"
      using Load_vote [OF link_envD(1) [OF env] load] n by (simp add: starting_def)
    then have "ps_current_term state = fst ?v" by (metis fst_conv)
    then have "links_ok ?pb \<alpha> L me (take_over state n)"
      using n own d Load_chained [OF link_envD(1) [OF env] load d]
      by (auto simp: links_ok_def take_over_def log_chained_def owns_def stored_def starting_def)
    moreover have "loaded ?pb \<alpha> me ps ?v (take_over state n)"
      using vote n by (auto simp: loaded_def starting_def vote_of_def take_over_def)
    ultimately show ?thesis by simp
  qed
  have applies: "preserves ?K (ApplyCommitted E)"
    by (intro preserves_conj links_ApplyCommitted env writes_ApplyCommitted [OF link_envD(1) [OF env] write_ok_loaded])
  have "?S (fresh_node me ep port d ps)" "\<not> raft_thread (fresh_node me ep port d ps)"
    using disk by (auto simp: stored_def starting_def fresh_node_def)
  from Start_establishes [OF start_quiet_conj [OF stored_quiet starting_quiet] applies took this run]
  show "stored ?pb \<alpha> L m" and "r = Inr u \<Longrightarrow> links_ok ?pb \<alpha> L me m" by blast+
qed

section \<open>The invariant of the cluster\<close>

definition cluster_links :: "codecs \<Rightarrow> ('db \<Rightarrow> contents) \<Rightarrow> RaftPeer list \<Rightarrow> 'db cluster \<Rightarrow> link set \<Rightarrow> bool" where
  "cluster_links pb \<alpha> ps C L \<longleftrightarrow> bounded L \<and> functional L \<and>
     (\<forall>c k p e. (c, k, p, e) \<in> L \<longrightarrow> elected ps C c (entry_term e)) \<and>
     (\<forall>i. list_all (linked pb L) (sent C i)) \<and>
     (\<forall>i. \<exists>s t. disk_chained pb L (\<alpha> (db (member C i))) s t) \<and>
     (\<forall>i. up C i \<longrightarrow> links_ok pb \<alpha> L i (member C i))"

lemma delivered_linked:
  assumes "cluster_links (env_pb E) \<alpha> ps C L" and del: "delivered other C i ev"
  shows "rpcs_ok E (\<lambda>_. request_linked (env_pb E) L) ev"
proof (cases ev)
  case (Bytes c buffer)
  have "request_linked (env_pb E) L rpc"
    if p: "payload \<in> set (fst (deframe buffer))" "parse (rpc_pb (env_pb E)) payload = Some rpc" for payload rpc
  proof -
    obtain f where f: "Send (snd (other (i, c))) f \<in> set (sent C (fst (other (i, c))))" "rpc_in (env_pb E) f = Some rpc"
      by (rule delivered_sent [OF del [unfolded Bytes] p])
    then have "linked (env_pb E) L (Send (snd (other (i, c))) f)"
      using assms(1) unfolding cluster_links_def list_all_iff by blast
    with f(2) show ?thesis by simp
  qed
  then show ?thesis by (simp add: Bytes split: option.split)
qed simp_all

text \<open>A step of one member keeps the invariant, for the links it leaves and for an old set that it extends.\<close>

lemma advance_links:
  assumes C: "cluster_links pb \<alpha> ps C L" and grows: "L \<subseteq> L'" and L': "bounded L'" "functional L'"
    and by_i: "\<And>c k p e. (c, k, p, e) \<in> L' \<Longrightarrow> (c, k, p, e) \<in> L \<or> c = i \<and> elected ps C i (entry_term e)"
    and n': "stored pb \<alpha> L' n'" and alive: "alive \<Longrightarrow> links_ok pb \<alpha> L' i n'"
  shows "cluster_links pb \<alpha> ps (advance pb \<alpha> other i n n' alive C) L'"
proof -
  let ?C = "advance pb \<alpha> other i n n' alive C" and ?new = "drop (length (trace n)) (trace n')"
  have parts: "member ?C = (member C)(i := n')" "up ?C = (up C)(i := alive)" "sent ?C = (sent C)(i := sent C i @ ?new)"
    and votes: "set (votes C r) \<subseteq> set (votes ?C r)" for r
    by (auto simp: advance_def Let_def)
  have old: "list_all (linked pb L') (sent C j)" "\<exists>s t. disk_chained pb L' (\<alpha> (db (member C j))) s t" for j
    using C linked_trace_mono [OF grows] disk_chained_mono [OF grows] unfolding cluster_links_def by metis+
  have "links_ok pb \<alpha> L' j (member C j)" if "j \<noteq> i" and "up C j" for j
    using C that by_i by (intro links_mono [OF _ grows, of pb \<alpha> j]) (auto simp: cluster_links_def)
  moreover have "list_all (linked pb L') (sent C i @ ?new)"
    using old(1) [of i] n' set_drop_subset [of "length (trace n)" "trace n'"] by (auto simp: stored_def list_all_iff)
  moreover have "elected ps ?C c (entry_term e)" if "(c, k, p, e) \<in> L'" for c k p e
    using by_i [OF that] C elected_mono [OF _ votes] by (auto simp: cluster_links_def)
  ultimately show ?thesis
    using L' old n' alive unfolding cluster_links_def parts by (auto simp: stored_def)
qed

lemma same_links:
  assumes "cluster_links pb \<alpha> ps C L" and "stored pb \<alpha> L n'" and "alive \<Longrightarrow> links_ok pb \<alpha> L i n'"
  shows "cluster_links pb \<alpha> ps (advance pb \<alpha> other i n n' alive C) L"
  using assms by (intro advance_links) (auto simp: cluster_links_def)

text \<open>The entry of a leader is the first of its term at its index.\<close>

lemma new_link_functional:
  assumes C: "cluster_links pb \<alpha> ps C L" and ok: "\<And>j. member_ok pb \<alpha> ps other C j" and conf: "configuration_ok ps other"
    and i: "up C i" "role (member C i) = Leader"
  shows "functional (insert (new_link i (member C i) command) L)" and "elected ps C i (current_term (member C i))"
proof -
  let ?n = "member C i"
  show el: "elected ps C i (current_term ?n)"
    using i by (intro leader_elected [OF ok _ conf]) (simp add: leads_def)
  have "owns L i ?n" using C i(1) by (simp add: cluster_links_def links_ok_def)
  then have "k \<le> last_nat ?n" if "(i, k, p, e) \<in> L" and "entry_term e = current_term ?n" for k p e
    using that i(2) by (auto simp: owns_def)
  moreover have "c = i" if "(c, k, p, e) \<in> L" and "entry_term e = current_term ?n" for c k p e
    using C that el elected_unique [OF ok conf] unfolding cluster_links_def by metis
  ultimately have "entry_term e \<noteq> current_term ?n" if "(c, Suc (last_nat ?n), p, e) \<in> L" for c p e
    using that not_less_eq_eq by blast
  then show "functional (insert (new_link i ?n command) L)"
    using C unfolding functional_def cluster_links_def new_link_def by (auto dest: sym)
qed

lemma step_links:
  assumes step: "cluster_move pb \<alpha> ps other (log_room \<alpha>) C C'" and codecs: "codecs_ok pb"
    and conf: "configuration_ok ps other" and ok: "\<And>j. member_ok pb \<alpha> ps other C j"
    and C: "cluster_links pb \<alpha> ps C L"
  shows "\<exists>L'. cluster_links pb \<alpha> ps C' L'"
proof -
  have env: "link_env E \<alpha> L" if "environment pb \<alpha> E" and "log_room \<alpha> E ev n" for E ev n
    using that codecs C by (simp add: link_env_def environment_def log_room_def cluster_links_def)
  have event: "\<exists>L'. cluster_links pb \<alpha> ps (advance pb \<alpha> other i (member C i) n' alive C) L'"
    if i: "up C i" and E: "environment pb \<alpha> E" and del: "delivered other C i ev"
      and room: "term_room ev (member C i)" "log_room \<alpha> E (Some ev) (member C i)"
      and run: "handle_event E ev (member C i) = (r, n')" for i E ev r n' alive
  proof -
    have pb: "env_pb E = pb" using E by (simp add: environment_def)
    have n: "links_ok pb \<alpha> L i (member C i)" using C i by (simp add: cluster_links_def)
    note rpcs = delivered_linked [of E, unfolded pb, OF C del]
    consider (same) "links_ok pb \<alpha> L i n'"
      | (new) command where "role (member C i) = Leader"
          "links_ok pb \<alpha> (insert (new_link i (member C i) command) L) i n'"
          "bounded (insert (new_link i (member C i) command) L)"
      by (rule event_links [OF env [OF E room(2)], unfolded pb, OF n rpcs room run])
    then show ?thesis
    proof cases
      case same
      then show ?thesis using same_links [OF C links_stored [of pb \<alpha> L i]] by blast
    next
      case (new command)
      note f = new_link_functional [OF C ok conf i new(1)]
      have "cluster_links pb \<alpha> ps (advance pb \<alpha> other i (member C i) n' alive C) (insert (new_link i (member C i) command) L)"
        using f by (intro advance_links [OF C] new links_stored [OF new(2)]) (auto simp: new_link_def)
      then show ?thesis by blast
    qed
  qed
  show ?thesis using step
  proof cases
    case (restarts i E n ep port r n')
    have pb: "env_pb E = pb" using restarts(4) by (simp add: environment_def)
    obtain s t where disk: "disk_chained pb L (\<alpha> (db (member C i))) s t" using C unfolding cluster_links_def by blast
    have own: "entry_term e \<le> fst (durable (\<alpha> (db (member C i))))" if "(i, k, p, e) \<in> L" for k p e
    proof -
      have "elected ps C i (entry_term e)" using C that unfolding cluster_links_def by blast
      then have "vote_le (entry_term e, u64_of_i32 i) (durable (\<alpha> (db (member C i))))"
        using ok [of i] by (simp add: elected_def member_ok_def)
      then show ?thesis by (auto simp: vote_le_def)
    qed
    note started = Start_links [OF env [OF restarts(4,6)], unfolded pb, OF disk _ restarts(7) [unfolded restarts(5)]]
    have s: "stored pb \<alpha> L n'" "r = Inr u \<Longrightarrow> links_ok pb \<alpha> L i n'" for u
      using started own by blast+
    have "links_ok pb \<alpha> L i n'" if "returned r" using that s(2) by (auto simp: returned_def split: sum.splits)
    then show ?thesis using same_links [OF C s(1)] restarts(1) by blast
  next
    case (halts i)
    then show ?thesis using C by (intro exI [of _ L]) (simp add: cluster_links_def elected_def)
  qed (use event in blast)+
qed

text \<open>The disks of a cluster that starts for the first time hold no snapshot and no log.\<close>

definition no_logs :: "('db \<Rightarrow> contents) \<Rightarrow> 'db cluster \<Rightarrow> bool" where
  "no_logs \<alpha> C \<longleftrightarrow> (\<forall>i. \<alpha> (db (member C i)) ''__raft/snapshot_metadata'' = None \<and>
     \<alpha> (db (member C i)) (LogKey 1) = None)"

lemma start_links: "cluster_start C \<Longrightarrow> no_logs \<alpha> C \<Longrightarrow> cluster_links pb \<alpha> ps C {}"
  by (auto simp: cluster_start_def no_logs_def cluster_links_def bounded_def functional_def disk_chained_def
      disk_base_def intro!: exI [of _ 0] exI [of _ "[]"])

lemma run_links:
  assumes "(cluster_move pb \<alpha> ps other (log_room \<alpha>))\<^sup>*\<^sup>* C C'" and "codecs_ok pb" and "configuration_ok ps other"
    and "\<And>j. member_ok pb \<alpha> ps other C j" and "cluster_links pb \<alpha> ps C L"
  shows "\<exists>L'. cluster_links pb \<alpha> ps C' L'"
  using assms(1)
proof (induction rule: rtranclp_induct)
  case (step C1 C2)
  then show ?case
    using step_links [OF step(2) assms(2,3) run_ok(1) [OF step(1) assms(2-4)]] by blast
qed (use assms(5) in blast)

lemma run_matches:
  assumes "codecs_ok pb" and "configuration_ok ps other" and "cluster_start C0" and "no_logs \<alpha> C0"
    and "(cluster_move pb \<alpha> ps other (log_room \<alpha>))\<^sup>*\<^sup>* C0 C" and "up C i" and "up C j"
  shows "log_matching (member C i) (member C j)"
proof -
  obtain L where "cluster_links pb \<alpha> ps C L"
    using run_links [OF assms(5,1,2) start_ok [OF assms(3)] start_links [OF assms(3,4)]] by blast
  then show ?thesis
    using assms(6,7) by (intro chains_match [of L]) (auto simp: cluster_links_def links_ok_def)
qed

end
