(* ===== verification/Cluster_Properties.thy ===== *)
theory Cluster_Properties
  imports Election_Properties Raft_Cluster_Log
begin

text \<open>
  The property of the logs of a whole cluster, with an instance of two members over the in-memory
  store.
\<close>

section \<open>Two members\<close>

definition duo :: "RaftPeer list" where
  "duo = [\<lparr>peer_id = 1, peer_endpoint = ''127.0.0.1:9000''\<rparr>, \<lparr>peer_id = 2, peer_endpoint = ''127.0.0.1:9000''\<rparr>]"

definition duo_step :: "mem cluster \<Rightarrow> mem cluster \<Rightarrow> bool" where
  "duo_step = cluster_move mem_pb map_of duo demo_wiring (log_room map_of)"

lemma duo_configuration: "configuration_ok duo demo_wiring"
  using demo_configuration by (simp add: configuration_ok_def duo_def)

lemma mem_clean: "rocksdb_clean (env_rocks mem_env) map_of"
  using faultless_clean mem_rocks_faultless by simp

text \<open>A member that is down starts over an empty store.\<close>

lemma duo_start:
  assumes i: "i \<in> {1, 2}" and down: "\<not> up C i" and empty: "db (member C i) = []"
  obtains C' where "duo_step C C'" and "up C' i" and "\<And>j. j \<noteq> i \<Longrightarrow> up C' j = up C j \<and> member C' j = member C j"
proof -
  let ?n = "fresh_node i ''127.0.0.1:9000'' 9000 (db (member C i)) duo"
  have "endpoints_ok i ''127.0.0.1:9000'' duo"
    using demo_endpoints by (auto simp: endpoints_ok_def duo_def demo_peer_def)
  then obtain n where start: "Start mem_env ?n = (Inr (), n)"
    using Start_recovers [of mem_env map_of "[]" blank_state i "''127.0.0.1:9000''" duo 9000]
      mem_rocks_ok mem_rocks_faultless blank_represents blank_settled by (auto simp: empty)
  show thesis
  proof (rule that)
    show "duo_step C (advance mem_pb map_of demo_wiring i ?n n True C)"
      using cluster_move.restarts [OF _ down mem_environment(1) refl _ start, where other = demo_wiring and Q = "log_room map_of"] i mem_clean
      by (auto simp: duo_step_def duo_def log_room_def returned_def)
  qed (simp_all add: advance_def Let_def)
qed

lemma duo_run:
  obtains C where "duo_step\<^sup>*\<^sup>* demo_cluster C" and "up C 1" and "up C 2"
proof -
  have start: "\<not> up demo_cluster i" "db (member demo_cluster i) = []" for i
    by (simp_all add: demo_cluster_def demo_node_def fresh_node_def)
  obtain C where C: "duo_step demo_cluster C" "up C 1"
    and rest: "\<And>j. j \<noteq> 1 \<Longrightarrow> up C j = up demo_cluster j \<and> member C j = member demo_cluster j"
    by (rule duo_start [OF _ start(1), of 1]) (simp_all add: start)
  obtain C' where C': "duo_step C C'" "up C' 2" and rest': "\<And>j. j \<noteq> 2 \<Longrightarrow> up C' j = up C j \<and> member C' j = member C j"
    by (rule duo_start [of 2 C]) (simp_all add: rest start)
  show thesis
    using C C' rest' [of 1] by (intro that [of C']) (auto intro: converse_rtranclp_into_rtranclp)
qed

section \<open>Log Matching\<close>

text \<open>C2: Log Matching. In every run of a cluster, with crashes inside callbacks, restarts from what is
  on disk and a network that loses, delays, duplicates and reorders frames, the logs of any two members
  that are up match: where both know the same term at an index, they agree on every entry and term that
  both know up to that index, across snapshots. The run starts over disks without a log, a failed write
  leaves the store as it was, and leaders take no commands once their 64-bit indices run out.\<close>

theorem cluster_log_matching:
  assumes "codecs_ok pb" and "configuration_ok ps other" and "cluster_start C0" and "no_logs \<alpha> C0"
    and "(cluster_move pb \<alpha> ps other (log_room \<alpha>))\<^sup>*\<^sup>* C0 C" and "up C i" and "up C j"
  shows "log_matching (member C i) (member C j)"
  by (rule run_matches [OF assms])

theorem cluster_log_matching_witness:
  "\<exists>C. (cluster_move mem_pb map_of duo demo_wiring (log_room map_of))\<^sup>*\<^sup>* demo_cluster C \<and> up C 1 \<and> up C 2 \<and>
     log_matching (member C 1) (member C 2)"
proof -
  obtain C where C: "(cluster_move mem_pb map_of duo demo_wiring (log_room map_of))\<^sup>*\<^sup>* demo_cluster C" "up C 1" "up C 2"
    using duo_run unfolding duo_step_def by blast
  have "no_logs map_of demo_cluster"
    by (simp add: no_logs_def demo_cluster_def demo_node_def fresh_node_def)
  from cluster_log_matching [OF mem_pb_ok duo_configuration demo_cluster_start this C] C
  show ?thesis by blast
qed

end
