(* ===== verification/Raft_Snapshot.thy ===== *)
theory Raft_Snapshot
  imports Raft_Invariant
begin

text \<open>
  The transfer of a snapshot in chunks (\<open>src/raft_node.cpp\<close>): what \<open>SendSnapshot\<close> puts into the
  chunks and what the handler of InstallSnapshot makes of them.
\<close>

text \<open>
  The exchange: the leader sends the chunk at an offset and, as long as the follower takes it and
  asks for more, the chunk at the offset the follower names.
\<close>

primrec transfer :: "'db env \<Rightarrow> 'db node \<Rightarrow> nat \<Rightarrow> u64 \<Rightarrow> ('db, bool \<times> u64) N" where
  "transfer E n 0 offset = ret (False, offset)"
| "transfer E n (Suc k) offset =
     mbind (accept_chunk E (chunk_request n offset)) (\<lambda>(success, next_offset).
       if success \<and> next_offset < of_nat (length (snapshot_data n))
       then transfer E n k next_offset else ret (success, next_offset))"

text \<open>The node that has received the snapshot up to some point.\<close>

definition receiving :: "'db node \<Rightarrow> nat \<Rightarrow> 'db node \<Rightarrow> 'db node" where
  "receiving n len m = m\<lparr>
     incoming_snapshot_index := snapshot_index n, incoming_snapshot_term := snapshot_term n,
     incoming_snapshot_data := take len (snapshot_data n), incoming_snapshot_active := True\<rparr>"

lemma receiving_receiving [simp]: "receiving n b (receiving n a m) = receiving n b m"
  by (simp add: receiving_def)

lemma accept_chunk_receiving:
  assumes "len \<le> length (snapshot_data n)" and "length (snapshot_data n) < 2 ^ 64"
    and m: "len = 0 \<or> m = receiving n len m"
  shows "accept_chunk E (chunk_request n (of_nat len)) m =
    (if length (snapshot_data n) \<le> len + kSnapshotChunkSize
     then finish_install E (receiving n (length (snapshot_data n)) m)
     else (Inr (True, of_nat (len + kSnapshotChunkSize)), receiving n (len + kSnapshotChunkSize) m))"
proof -
  let ?D = "snapshot_data n" and ?q = "chunk_request n (of_nat len)"
  let ?size = "min (length ?D - len) kSnapshotChunkSize"
  have len: "unat (of_nat len :: u64) = len" using assms(1,2) by (simp add: unat_of_nat)
  have zero: "of_nat len = (0 :: u64) \<longleftrightarrow> len = 0" using len by (metis unat_eq_zero)
  have q: "is_offset ?q = of_nat len" "is_data ?q = take ?size (drop len ?D)"
    "is_done ?q \<longleftrightarrow> length ?D \<le> len + kSnapshotChunkSize"
    "is_last_included_index ?q = snapshot_index n" "is_last_included_term ?q = snapshot_term n"
    by (auto simp: chunk_request_def Let_def len)
  have upto: "take len ?D @ take ?size (drop len ?D) = take (len + ?size) ?D" by (simp add: take_add)
  have received: "(receiving n len m)\<lparr>incoming_snapshot_data := take len ?D @ take ?size (drop len ?D)\<rparr>
      = receiving n (len + ?size) m" unfolding upto by (simp add: receiving_def)
  have size: "incoming_size (receiving n k m) = of_nat k" if "k \<le> length ?D" for k
    using that by (simp add: incoming_size_def receiving_def)
  have start: "begin_chunk ?q m = (Inr True, receiving n len m)"
  proof (cases "len = 0")
    case True
    then have "receiving n len m = m\<lparr>incoming_snapshot_index := snapshot_index n,
        incoming_snapshot_term := snapshot_term n, incoming_snapshot_data := [], incoming_snapshot_active := True\<rparr>"
      by (simp add: receiving_def)
    with True zero show ?thesis unfolding begin_chunk_def q by (simp add: mseq_app)
  next
    case False
    with m have eq: "receiving n len m = m" by metis
    have "incoming_snapshot_active (receiving n len m)"
      "incoming_snapshot_index (receiving n len m) = snapshot_index n"
      "incoming_snapshot_term (receiving n len m) = snapshot_term n" by (simp_all add: receiving_def)
    with False zero show ?thesis unfolding eq begin_chunk_def q by simp
  qed
  have data: "incoming_snapshot_data (receiving n len m) @ is_data ?q = take len ?D @ take ?size (drop len ?D)"
    by (simp add: receiving_def q(2))
  have taken: "accept_chunk E ?q m = (if is_done ?q then finish_install E else ret (True, of_nat (len + ?size)))
      (receiving n (len + ?size) m)"
    using size [of len] size [of "len + ?size"] assms(1) received data q(1)
    by (simp add: accept_chunk_def mbind_app start mseq_app del: of_nat_add)
  show ?thesis
  proof (cases "is_done ?q")
    case True
    then have "len + ?size = length ?D" using q(3) assms(1) by simp
    with True q(3) taken show ?thesis by simp
  next
    case False
    then have "?size = kSnapshotChunkSize" using q(3) by simp
    with False q(3) taken show ?thesis by simp
  qed
qed

lemma finish_install_offset:
  assumes "finish_install E m = (Inr (True, next_offset), m')"
  shows "next_offset = incoming_size m"
proof -
  let ?P = "\<lambda>n. incoming_snapshot_data n = incoming_snapshot_data m"
  have s: "store_quiet ?P" by (simp add: store_quiet_def)
  obtain r m1 where run: "install_complete E m = (r, m1)" by fastforce
  have "preserves ?P (install_complete E)" by (rule preserves_install_complete [OF s]) simp
  from preservesD [OF this run] have "incoming_size m1 = incoming_size m" by (simp add: incoming_size_def)
  with assms run show ?thesis
    by (auto simp: finish_install_def mtry_def mseq_app clear_incoming_def Let_def split: sum.splits if_splits)
qed

lemma transfer_receiving:
  assumes "length (snapshot_data n) < 2 ^ 64" and "len \<le> length (snapshot_data n)"
    and "len = 0 \<or> m = receiving n len m" and "length (snapshot_data n) < len + k * kSnapshotChunkSize"
  shows "transfer E n k (of_nat len) m = finish_install E (receiving n (length (snapshot_data n)) m)"
  using assms(2-4)
proof (induction k arbitrary: len m)
  case (Suc k)
  let ?size = "length (snapshot_data n)"
  note step = accept_chunk_receiving [OF Suc.prems(1) assms(1) Suc.prems(2), of E]
  show ?case
  proof (cases "?size \<le> len + kSnapshotChunkSize")
    case True
    obtain r m' where run: "finish_install E (receiving n ?size m) = (r, m')" by fastforce
    have "next_offset = of_nat ?size" if "r = Inr (True, next_offset)" for next_offset
      using finish_install_offset [OF run [unfolded that]] by (simp add: incoming_size_def receiving_def)
    with True step run show ?thesis by (auto simp: mbind_app split: sum.splits prod.splits)
  next
    case False
    let ?next = "len + kSnapshotChunkSize"
    have less: "of_nat ?next < (of_nat ?size :: u64)"
      using False assms(1) by (simp add: word_less_nat_alt unat_of_nat del: of_nat_add)
    have "transfer E n k (of_nat ?next) (receiving n ?next m) = finish_install E (receiving n ?size (receiving n ?next m))"
      using False Suc.prems(3) by (intro Suc.IH) auto
    with False step less show ?thesis by (simp add: mbind_app del: of_nat_add)
  qed
qed simp

end
