(* ===== verification/Raft_Durable.thy ===== *)
theory Raft_Durable
  imports Raft_Links
begin

text \<open>
  What a follower acknowledges is on its disk: after an accepted AppendEntries request the store
  holds exactly the log in memory, and that log has the entries of the request, whatever the
  application of committed entries and a snapshot did to the log in the same handler.
\<close>

section \<open>Log and disk in step\<close>

text \<open>\<open>n\<close> has its log on disk, and of the log of \<open>m\<close> all but what a snapshot replaced.\<close>

definition synced :: "codecs \<Rightarrow> ('db \<Rightarrow> contents) \<Rightarrow> 'db node \<Rightarrow> 'db node \<Rightarrow> bool" where
  "synced pb \<alpha> m n \<longleftrightarrow> log_fits n \<and> disk_base pb (\<alpha> (db n)) (snapshot_index n) (snapshot_term n) \<and>
     log_stored pb (\<alpha> (db n)) (snapshot_index n) (log n) \<and>
     last_nat n = last_nat m \<and> snapshot_index m \<le> snapshot_index n \<and>
     (\<forall>i. unat (snapshot_index n) < i \<longrightarrow> log_at n i = log_at m i)"

lemma synced_cong:
  assumes "snapshot_index n' = snapshot_index n" and "snapshot_term n' = snapshot_term n" and "log n' = log n"
    and "same_log (\<alpha> (db n)) (\<alpha> (db n'))" and "synced pb \<alpha> m n"
  shows "synced pb \<alpha> m n'"
proof -
  have "log_at n' i = log_at n i" for i using assms(1,3) by (simp add: log_at_def)
  moreover have "log_fits n' = log_fits n" "last_nat n' = last_nat n" using assms(1,3) by (simp_all add: log_fits_def last_nat_def)
  ultimately show ?thesis
    using assms log_stored_cong [of "\<alpha> (db n')" "\<alpha> (db n)"] by (simp add: synced_def same_log_def disk_base_def)
qed

lemma synced_free:
  assumes "synced pb \<alpha> m n"
  shows "synced pb \<alpha> m (n\<lparr>last_applied := k\<rparr>)" "synced pb \<alpha> m (n\<lparr>commit_index := k\<rparr>)"
    "synced pb \<alpha> m (n\<lparr>snapshot_in_progress := b\<rparr>)"
  by (rule synced_cong [OF _ _ _ _ assms]; simp)+

lemma synced_store: "synced pb \<alpha> m n \<Longrightarrow> same_log (\<alpha> (db n)) (\<alpha> d) \<Longrightarrow> synced pb \<alpha> m (n\<lparr>db := d\<rparr>)"
  by (rule synced_cong [of _ n]) simp_all

lemma synced_PersistState:
  assumes "rocksdb_ok (env_rocks E) \<alpha>"
  shows "preserves (synced pb \<alpha> m) (Node_PersistState E)"
proof (rule preservesI)
  fix n :: "'a node"
  assume n: "synced pb \<alpha> m n"
  obtain r d where run: "PersistState (env_rocks E) (current_term n) (voted_for n) (commit_index n)
      (last_applied n) (snapshot_index n) (snapshot_term n) (db n) = (r, d)" by fastforce
  from synced_store [OF n PersistState_same [OF assms run]]
  show "synced pb \<alpha> m (snd (Node_PersistState E n))"
    by (simp add: Node_PersistState_def on_db_def run)
qed

lemma synced_TakeSnapshot:
  assumes "rocksdb_ok (env_rocks E) \<alpha> \<and> rocksdb_clean (env_rocks E) \<alpha>" and "codecs_ok (env_pb E)"
  shows "preserves (synced (env_pb E) \<alpha> m) (TakeSnapshot E)"
proof (rule preservesI)
  fix n :: "'a node"
  assume n: "synced (env_pb E) \<alpha> m n"
  then have fits: "log_fits n" by (simp add: synced_def)
  show "synced (env_pb E) \<alpha> m (snd (TakeSnapshot E n))"
  proof (cases rule: TakeSnapshot_outcome [OF assms fits])
    case (1 d)
    then show ?thesis using synced_store [OF n, of d] by simp
  next
    case (2 d data k)
    let ?n = "n\<lparr>db := d, snapshot_index := commit_index n,
        snapshot_term := TermAt n (commit_index n), snapshot_data := data, log := drop k (log n)\<rparr>"
    have k: "unat (snapshot_index n) + k = unat (commit_index n)" "k \<le> length (log n)"
      using 2(1-3) fits by (auto simp: word_le_nat_alt last_nat_def)
    have "log_at ?n i = log_at n i" if "unat (commit_index n) < i" for i
      using that k(2) by (auto simp: log_at_def k(1) [symmetric])
    moreover have "last_nat ?n = last_nat n" using k by (simp add: last_nat_def)
    moreover have "snapshot_index m \<le> commit_index n" using n 2(2) by (auto simp: synced_def)
    ultimately show ?thesis
      using n 2(2,4,5) fits by (auto simp: 2(6) synced_def log_fits_def word_le_nat_alt last_nat_def)
  qed
qed

lemma synced_ApplyCommitted:
  assumes "rocksdb_ok (env_rocks E) \<alpha> \<and> rocksdb_clean (env_rocks E) \<alpha>" and "codecs_ok (env_pb E)"
  shows "preserves (synced (env_pb E) \<alpha> m) (ApplyCommitted E)"
proof (rule preserves_ApplyCommitted_parts)
  show "synced (env_pb E) \<alpha> m (n\<lparr>db := snd (ApplyAtomically (env_pb E) (env_rocks E) c i j (db n))\<rparr>)"
    if "synced (env_pb E) \<alpha> m n" for n c i j
    by (rule synced_store [OF that], rule ApplyAtomically_same [OF conjunct1 [OF assms(1)]]) (rule prod.collapse [symmetric])
qed (auto intro: synced_free synced_PersistState [OF conjunct1 [OF assms(1)]] synced_TakeSnapshot [OF assms])

section \<open>An accepted request\<close>

lemma PersistLog_synced:
  assumes ok: "rocksdb_ok (env_rocks E) \<alpha>" and pb: "codecs_ok (env_pb E)" and fits: "log_fits n"
    and base: "disk_base (env_pb E) (\<alpha> (db n)) (snapshot_index n) (snapshot_term n)"
    and run: "Node_PersistLog E n = (Inr u, n')"
  shows "synced (env_pb E) \<alpha> n n'"
proof -
  obtain d where d: "PersistLog (env_pb E) (env_rocks E) (snapshot_index n) (log n) (db n) = (Inr u, d)"
    and n': "n' = n\<lparr>db := d\<rparr>"
    using run by (auto simp: Node_PersistLog_def on_db_def split: prod.splits)
  have "codec_ok (log_entry_pb (env_pb E))" "length (log n) < 2 ^ 64"
    using pb fits by (simp_all add: codecs_ok_def log_fits_def)
  note stored = PersistLog_stored [OF ok this(1) d this(2)]
  have "\<alpha> d ''__raft/snapshot_metadata'' = \<alpha> (db n) ''__raft/snapshot_metadata''"
    by (rule stored(2)) (auto simp: LogKey_def)
  then show ?thesis using stored(1) base fits by (simp add: n' synced_def disk_base_def log_at_def log_fits_def last_nat_def)
qed

lemma append_entries_synced:
  assumes clean: "rocksdb_ok (env_rocks E) \<alpha> \<and> rocksdb_clean (env_rocks E) \<alpha>" and pb: "codecs_ok (env_pb E)"
    and fits: "log_fits n" and base: "disk_base (env_pb E) (\<alpha> (db n)) (snapshot_index n) (snapshot_term n)"
    and room: "unat (ae_prev_log_index q) + length (ae_entries q) < 2 ^ 64"
    and run: "append_entries E q n = (Inr (True, index), n')"
  shows "index = ae_prev_log_index q + of_nat (length (ae_entries q))"
    and "synced (env_pb E) \<alpha> (after_append (ae_prev_log_index q) (map entry_of (ae_entries q)) n) n'"
proof -
  let ?m = "after_append (ae_prev_log_index q) (map entry_of (ae_entries q)) n"
  have prev: "prev_matches n q" using run by (auto simp: append_entries_def split: if_splits)
  then have i: "unat (snapshot_index n) \<le> unat (ae_prev_log_index q)" "unat (ae_prev_log_index q) \<le> last_nat n"
    using fits by (auto simp: prev_matches_def word_le_nat_alt)
  obtain ok idx j where loop: "append_loop (ae_entries q) (ae_prev_log_index q) n =
      (Inr (ok, idx), after_append (ae_prev_log_index q) (map entry_of (take j (ae_entries q))) n)"
    "if ok then j = length (ae_entries q) \<and> idx = ae_prev_log_index q + of_nat j
     else j < length (ae_entries q) \<and> refused (ae_prev_log_index q + of_nat j) (ae_entries q ! j) n"
    using append_loop_merge [OF room i fits] by blast
  have run': "mseq (mwhen ok (mdo [Node_PersistLog E,
         mput (\<lambda>n. n\<lparr>commit_index := min (ae_leader_commit q) (LastIndex n)\<rparr>), ApplyCommitted E]))
       (ret (ok, idx)) (after_append (ae_prev_log_index q) (map entry_of (take j (ae_entries q))) n) = (Inr (True, index), n')"
    using run prev by (simp add: append_entries_def mbind_app loop(1))
  then have ok: "ok" and idx: "idx = index" by (auto simp: mseq_returns simp del: mdo.simps)
  with loop(2) show "index = ae_prev_log_index q + of_nat (length (ae_entries q))" by simp
  obtain n1 where n1: "Node_PersistLog E ?m = (Inr (), n1)"
    and rest: "mdo [mput (\<lambda>n. n\<lparr>commit_index := min (ae_leader_commit q) (LastIndex n)\<rparr>), ApplyCommitted E] n1 = (Inr (), n')"
    using run' ok loop(2)
    by (auto simp: mseq_returns mwhen_def mdo.simps(2) [of "Node_PersistLog E"] simp del: mdo.simps)
  have "log_fits ?m" using room fits i length_merge_le(1) [of "drop (unat (ae_prev_log_index q) - unat (snapshot_index n)) (log n)" "map entry_of (ae_entries q)"]
    by (auto simp: after_append_def log_fits_def last_nat_def Let_def)
  moreover have "disk_base (env_pb E) (\<alpha> (db ?m)) (snapshot_index ?m) (snapshot_term ?m)"
    using base by (simp add: after_append_def Let_def)
  ultimately have start: "synced (env_pb E) \<alpha> ?m n1"
    by (rule PersistLog_synced [OF conjunct1 [OF clean] pb _ _ n1])
  have "preserves (synced (env_pb E) \<alpha> ?m)
      (mdo [mput (\<lambda>n. n\<lparr>commit_index := min (ae_leader_commit q) (LastIndex n)\<rparr>), ApplyCommitted E])"
    by (intro pres preserves_mput synced_free synced_ApplyCommitted clean pb)
  from preservesD [OF this rest start] show "synced (env_pb E) \<alpha> ?m n'" .
qed

text \<open>What the next start of the node reads back.\<close>

lemma synced_Load:
  assumes "rocksdb_ok R \<alpha>" and "synced pb \<alpha> m n" and "Load pb R (db n) = Inr state"
  shows "ps_snapshot_index state = snapshot_index n" and "ps_snapshot_term state = snapshot_term n"
    and "ps_log state = log n"
  using Load_unique [OF assms(1,3)] assms(2) unfolding synced_def by blast+

lemma after_append_terms:
  assumes "unat (snapshot_index n) \<le> unat prev" and "unat prev \<le> last_nat n"
  shows "k < length es \<Longrightarrow> map_option entry_term (log_at (after_append prev es n) (Suc (unat prev + k))) = Some (entry_term (es ! k))"
    and "unat prev + length es \<le> last_nat (after_append prev es n)"
proof -
  let ?k = "unat prev - unat (snapshot_index n)"
  have k: "?k \<le> length (log n)" "unat prev = unat (snapshot_index n) + ?k" using assms by (auto simp: last_nat_def)
  have len: "length es \<le> length (merge (drop ?k (log n)) es)" by (rule length_merge_le)
  then show "unat prev + length es \<le> last_nat (after_append prev es n)"
    using k by (simp add: after_append_def last_nat_def Let_def)
  show "map_option entry_term (log_at (after_append prev es n) (Suc (unat prev + k))) = Some (entry_term (es ! k))"
    if "k < length es"
    using that len k merge_terms [of k es "drop ?k (log n)"] by (simp add: after_append_def log_at_def Let_def nth_append) linarith
qed

end
