(* ===== verification/Replication_Properties.thy ===== *)
theory Replication_Properties
  imports Raft_Matching Raft_Snapshot Raft_Durable Mem_Instance
begin

text \<open>
  The properties of the replicated log, of commitment, of the application of entries and of the
  transfer of snapshots, each followed by an instance.
\<close>

section \<open>Instances\<close>

definition put_x :: Command where
  "put_x = \<lparr>cmd_type = COMMAND_TYPE_PUT, cmd_client_id = 1, cmd_request_id = 1, cmd_key = ''x'', cmd_value = ''1''\<rparr>"

definition put_x_bytes :: string where
  "put_x_bytes = the (serialize (command_pb mem_pb) put_x)"

lemma put_x_parses: "parse (command_pb mem_pb) put_x_bytes = Some put_x"
  using mem_pb_ok mem_pb_total
  by (auto simp: put_x_bytes_def codecs_ok_def codecs_total_def codec_ok_def codec_total_def)

lemma put_x_serialized: "serialize (command_pb mem_pb) put_x = Some put_x_bytes"
  using mem_pb_total by (auto simp: put_x_bytes_def codecs_total_def codec_total_def)

lemma put_x_fields [simp]: "cmd_type put_x = COMMAND_TYPE_PUT" "cmd_client_id put_x = 1" "cmd_request_id put_x = 1"
  "cmd_key put_x = ''x''" "cmd_value put_x = ''1''"
  by (simp_all add: put_x_def)

definition three_peers :: "RaftPeer list" where
  "three_peers = [\<lparr>peer_id = 1, peer_endpoint = ''a:1''\<rparr>, \<lparr>peer_id = 2, peer_endpoint = ''b:2''\<rparr>,
     \<lparr>peer_id = 3, peer_endpoint = ''c:3''\<rparr>]"

text \<open>A leader of term 2 with two entries, the second of its own term, and a follower that holds a
  diverging entry at index 2.\<close>

definition demo_leader :: "mem node" where
  "demo_leader = (fresh_node 1 ''a:1'' 1 [] three_peers)\<lparr>role := Leader, leader := True, current_term := 2,
     log := [\<lparr>entry_term = 1, entry_command = put_x_bytes\<rparr>, \<lparr>entry_term = 2, entry_command = put_x_bytes\<rparr>],
     match_index := [(2, 2), (3, 0)], next_index := [(2, 3), (3, 2)]\<rparr>"

definition demo_follower :: "mem node" where
  "demo_follower = (fresh_node 3 ''c:3'' 3 [] three_peers)\<lparr>current_term := 2, commit_index := 1, last_applied := 1,
     log := [\<lparr>entry_term = 1, entry_command = put_x_bytes\<rparr>, \<lparr>entry_term = 1, entry_command = ''stale''\<rparr>]\<rparr>"

definition demo_entry :: proto_RaftLogEntry where
  "demo_entry = \<lparr>le_index = 2, le_term = 2, le_command = put_x_bytes\<rparr>"

lemma demo_logs [simp]:
  "log_fits demo_leader" "log_fits demo_follower" "last_nat demo_leader = 2" "last_nat demo_follower = 2"
  "snapshot_index demo_leader = 0" "snapshot_index demo_follower = 0" "commit_index demo_follower = 1"
  by (simp_all add: log_fits_def last_nat_def demo_leader_def demo_follower_def fresh_node_def)

lemma demo_fields [simp]:
  "role demo_leader = Leader" "current_term demo_leader = 2" "commit_index demo_leader = 0"
  "match_index demo_leader = [(2, 2), (3, 0)]" "peers demo_leader = three_peers"
  "snapshot_term demo_leader = 0" "snapshot_term demo_follower = 0" "last_applied demo_leader = 0" "db demo_leader = []"
  by (simp_all add: demo_leader_def demo_follower_def fresh_node_def)

lemma demo_log_at:
  "log_at demo_leader i = (if i = 1 then Some \<lparr>entry_term = 1, entry_command = put_x_bytes\<rparr>
    else if i = 2 then Some \<lparr>entry_term = 2, entry_command = put_x_bytes\<rparr> else None)"
  "log_at demo_follower i = (if i = 1 then Some \<lparr>entry_term = 1, entry_command = put_x_bytes\<rparr>
    else if i = 2 then Some \<lparr>entry_term = 1, entry_command = ''stale''\<rparr> else None)"
  by (auto simp: log_at_def demo_leader_def demo_follower_def fresh_node_def nth_Cons split: nat.splits)

lemma demo_terms: "TermAt demo_leader 1 = 1" "TermAt demo_leader 2 = 2" "TermAt demo_follower 1 = 1"
  using TermAt_log [of demo_leader 1] TermAt_log [of demo_leader 2] TermAt_log [of demo_follower 1]
  by (simp_all add: demo_log_at)

lemma demo_matching: "log_matching demo_leader demo_follower"
  by (auto simp: log_matching_def agree_at_def term_at_def demo_log_at split: if_splits)

lemma demo_LastIndex [simp]: "LastIndex demo_leader = 2" "LastIndex demo_follower = 2"
  by (simp_all add: LastIndex_def demo_leader_def demo_follower_def fresh_node_def)

section \<open>The log of a follower\<close>

text \<open>C6: The loop over the entries of an AppendEntries request is the reference definition
  \<open>merge\<close>: it never throws, it leaves the log of the reference definition for the entries it went
  through, and it stops early exactly at an entry that has the wrong index or contradicts an entry
  the node knows to be committed.\<close>

theorem append_loop_is_merge:
  assumes "unat prev + length es < 2 ^ 64" and "snapshot_index n \<le> prev" and "prev \<le> LastIndex n"
    and "log_fits n" and "append_loop es prev n = (r, n')"
  shows "\<exists>ok index j. r = Inr (ok, index) \<and> n' = after_append prev (map entry_of (take j es)) n \<and>
    (if ok then j = length es \<and> index = prev + of_nat j
     else j < length es \<and> refused (prev + of_nat j) (es ! j) n)"
  using append_loop_merge [OF assms(1) assms(2,3) [unfolded word_le_nat_alt unat_LastIndex [OF assms(4)]] assms(4)]
  unfolding assms(5) prod.inject by blast

theorem append_loop_is_merge_witness:
  "\<exists>ok index j. fst (append_loop [demo_entry] 1 demo_follower) = Inr (ok, index) \<and>
    snd (append_loop [demo_entry] 1 demo_follower) = after_append 1 (map entry_of (take j [demo_entry])) demo_follower \<and>
    (if ok then j = length [demo_entry] \<and> index = 1 + of_nat j
     else j < length [demo_entry] \<and> refused (1 + of_nat j) ([demo_entry] ! j) demo_follower)"
  by (rule append_loop_is_merge [OF _ _ _ _ prod.collapse [symmetric]]) (simp_all add: word_le_nat_alt)

text \<open>C10: No request, well-formed or not, removes or replaces an entry of a follower up to its
  commit index.\<close>

theorem committed_entries_stay:
  assumes "unat prev + length es < 2 ^ 64" and "snapshot_index n \<le> prev" and "prev \<le> LastIndex n"
    and "log_fits n" and "append_loop es prev n = (r, n')"
    and "i \<le> unat (commit_index n)" and "i \<le> unat (LastIndex n)"
  shows "log_at n' i = log_at n i"
  using append_loop_merge [OF assms(1) assms(2,3) [unfolded word_le_nat_alt unat_LastIndex [OF assms(4)]] assms(4)] assms(6,7)
  unfolding assms(5) prod.inject unat_LastIndex [OF assms(4)] by auto

theorem committed_entries_stay_witness:
  "log_at (snd (append_loop [demo_entry] 1 demo_follower)) 1 = log_at demo_follower 1"
  by (rule committed_entries_stay [OF _ _ _ _ prod.collapse [symmetric], where es = "[demo_entry]" and prev = 1])
     (simp_all add: word_le_nat_alt)

text \<open>C5: Log Matching is kept by replication. When a leader's batch of entries arrives at a
  follower whose log has the preceding entry, then after the loop, whether it went through all of
  them or not, the follower's log matches every log that both logs matched before: where they have
  an entry of the same term at some index, they agree up to that index.\<close>

theorem replication_keeps_log_matching:
  assumes "last_nat n + 65 < 2 ^ 64" and "log_fits m" and "snapshot_index n < next" and "next \<le> LastIndex n + 1"
    and "append_batch n next next = Inr es"
    and "prev_matches m q" and "ae_prev_log_index q = next - 1" and "ae_prev_log_term q = TermAt n (next - 1)"
    and "append_loop es (next - 1) m = (r, m')"
    and "log_matching n m" and "log_matching n h" and "log_matching m h"
  shows "log_matching m' h"
  using append_batch_matching [OF assms(1-9)] append_keeps_matching [OF _ assms(11,12)] assms(10) by blast

theorem replication_keeps_log_matching_witness:
  "log_matching (snd (append_loop [demo_entry] 1 demo_follower)) demo_leader"
proof -
  let ?q = "\<lparr>ae_term = 2, ae_leader_id = 1, ae_prev_log_index = 1, ae_prev_log_term = 1, ae_entries = [demo_entry],
    ae_leader_commit = 0\<rparr>"
  have "append_batch demo_leader 2 2 = Inr [demo_entry]"
    using append_batch_entries [of demo_leader 2 2]
    by (simp add: proto_at_def demo_log_at demo_entry_def upt_conv_Cons)
  from replication_keeps_log_matching [OF _ _ _ _ this, of demo_follower ?q, OF _ _ _ _ _ _ _ prod.collapse [symmetric] demo_matching _ log_matching_sym [OF demo_matching]]
  show ?thesis by (simp add: prev_matches_def demo_terms word_le_nat_alt word_less_nat_alt)
qed

section \<open>Commitment\<close>



text \<open>C34: A follower takes over the commit index of the request, bounded by its log, also when that
  is lower than the commit index it had: the commit index of a follower can go backwards.\<close>

theorem commit_index_can_regress:
  assumes "append_entries E q n = (Inr (True, index), n')" and "ae_leader_commit q < commit_index n"
  shows "commit_index n' < commit_index n"
proof -
  have keep: "preserves (\<lambda>m. commit_index m = v) (ApplyCommitted E)" for v
    by (rule preserves_ApplyCommitted) (simp add: store_quiet_def)
  show ?thesis
    using assms preservesD [OF keep]
    by (auto simp: append_entries_def mbind_app mseq_app mwhen_def min_less_iff_disj
        split: if_splits prod.splits sum.splits)
qed

definition demo_heartbeat :: AppendEntriesRequest where
  "demo_heartbeat = \<lparr>ae_term = 2, ae_leader_id = 1, ae_prev_log_index = 1, ae_prev_log_term = 1, ae_entries = [],
     ae_leader_commit = 0\<rparr>"

definition demo_ahead :: "mem node" where
  "demo_ahead = (fresh_node 3 ''c:3'' 3 [] three_peers)\<lparr>current_term := 2, commit_index := 1, last_applied := 1,
     log := [\<lparr>entry_term = 1, entry_command = []\<rparr>]\<rparr>"

theorem commit_index_can_regress_witness:
  "commit_index (snd (append_entries mem_env demo_heartbeat demo_ahead)) < commit_index demo_ahead"
proof -
  have "fst (append_entries mem_env demo_heartbeat demo_ahead) = Inr (True, 1)" by code_simp
  then show ?thesis
    using commit_index_can_regress [where E = mem_env and q = demo_heartbeat and n = demo_ahead and index = 1]
    by (cases "append_entries mem_env demo_heartbeat demo_ahead")
       (simp add: demo_heartbeat_def demo_ahead_def fresh_node_def)
qed

text \<open>C7: A follower acknowledges only what is on its disk. When the handler of an AppendEntries request
  succeeds, the index it reports is that of the last entry of the request; the log reaches at least as
  far, has the terms of the request at its indices, as far as no snapshot has replaced them, and is
  exactly the log that \<open>Load\<close> reads back from the store after a crash at that moment.\<close>

theorem acknowledged_entries_durable:
  assumes store: "rocksdb_ok (env_rocks E) \<alpha>" "rocksdb_clean (env_rocks E) \<alpha>" and pb: "codecs_ok (env_pb E)"
    and n: "log_fits n" "disk_base (env_pb E) (\<alpha> (db n)) (snapshot_index n) (snapshot_term n)"
    and room: "unat (ae_prev_log_index q) + length (ae_entries q) < 2 ^ 64"
    and run: "append_entries E q n = (Inr (True, index), n')"
  shows "index = ae_prev_log_index q + of_nat (length (ae_entries q)) \<and> unat index \<le> last_nat n' \<and>
    (\<forall>k < length (ae_entries q). unat (snapshot_index n') \<le> unat (ae_prev_log_index q) + k \<longrightarrow>
       map_option entry_term (log_at n' (Suc (unat (ae_prev_log_index q) + k))) = Some (le_term (ae_entries q ! k))) \<and>
    (\<forall>state. Load (env_pb E) (env_rocks E) (db n') = Inr state \<longrightarrow>
       ps_snapshot_index state = snapshot_index n' \<and> ps_snapshot_term state = snapshot_term n' \<and> ps_log state = log n')"
proof -
  note synced = append_entries_synced [OF conjI [OF store] pb n room run]
  have prev: "unat (snapshot_index n) \<le> unat (ae_prev_log_index q)" "unat (ae_prev_log_index q) \<le> last_nat n"
    using run n(1) by (auto simp: append_entries_def prev_matches_def word_le_nat_alt split: if_splits)
  have "unat index = unat (ae_prev_log_index q) + length (ae_entries q)"
    unfolding synced(1) using room by (rule unat_add_of_nat)
  then show ?thesis
    using synced after_append_terms [OF prev, where es = "map entry_of (ae_entries q)"] synced_Load [OF store(1) synced(2)]
    by (auto simp: synced_def)
qed

definition demo_append :: AppendEntriesRequest where
  "demo_append = demo_heartbeat\<lparr>ae_entries := [\<lparr>le_index = 2, le_term = 2, le_command = []\<rparr>], ae_leader_commit := 1\<rparr>"

theorem acknowledged_entries_durable_witness:
  "2 \<le> last_nat (snd (append_entries mem_env demo_append demo_ahead))"
proof -
  let ?n = "snd (append_entries mem_env demo_append demo_ahead)"
  have "fst (append_entries mem_env demo_append demo_ahead) = Inr (True, 2)" by code_simp
  then have run: "append_entries mem_env demo_append demo_ahead = (Inr (True, 2), ?n)"
    by (simp add: prod_eq_iff)
  have "unat (2 :: u64) \<le> last_nat ?n"
    using acknowledged_entries_durable [OF _ _ _ _ _ _ run, of map_of]
      mem_rocks_ok faultless_clean [OF mem_rocks_faultless] mem_pb_ok
    by (simp add: demo_append_def demo_heartbeat_def demo_ahead_def fresh_node_def log_fits_def disk_base_def last_nat_def)
  then show ?thesis by simp
qed

section \<open>Application\<close>

text \<open>C4: The loop that applies committed entries refines the abstract key-value machine: when it
  returns, the machine has made one transition per entry between \<open>last_applied\<close> and
  \<open>commit_index\<close>, in the order of the log, and nothing else. Over a store that does not fail it
  returns whenever the machine accepts the entries.\<close>

theorem applied_entries_refine_machine:
  assumes "rocksdb_ok (env_rocks E) \<alpha>" and "log_fits n" and "commit_index n \<le> LastIndex n"
    and "snapshot_index n \<le> last_applied n" and "last_applied n \<le> commit_index n"
  shows "(\<forall>u n'. apply_loop E n = (Inr u, n') \<longrightarrow> last_applied n' = commit_index n \<and>
      spec_run (env_pb E) (entries_between n (unat (last_applied n)) (unat (commit_index n)))
        (abs_machine (\<alpha> (db n))) = Some (abs_machine (\<alpha> (db n')))) \<and>
    (rocksdb_faultless (env_rocks E) \<longrightarrow>
      spec_run (env_pb E) (entries_between n (unat (last_applied n)) (unat (commit_index n)))
        (abs_machine (\<alpha> (db n))) \<noteq> None \<longrightarrow> (\<exists>n'. apply_loop E n = (Inr (), n')))"
  using applied_entries_between [OF assms] apply_loop_returns [OF assms(1) _ assms(2) _ assms(4)] assms(2,3)
  by (simp add: word_le_nat_alt)

lemma demo_committed:
  "log_fits (demo_leader\<lparr>commit_index := 1\<rparr>)" "LastIndex (demo_leader\<lparr>commit_index := 1\<rparr>) = 2"
  "log_at (demo_leader\<lparr>commit_index := 1\<rparr>) i = log_at demo_leader i" "last_nat (demo_leader\<lparr>commit_index := 1\<rparr>) = 2"
  by (simp_all add: log_fits_def LastIndex_def log_at_def last_nat_def demo_leader_def fresh_node_def)

lemma demo_apply_loop: "\<exists>n'. apply_loop mem_env (demo_leader\<lparr>commit_index := 1\<rparr>) = (Inr (), n')"
  by (rule apply_loop_returns [where \<alpha> = map_of])
     (simp_all add: mem_rocks_ok mem_rocks_faultless demo_committed entries_between_def demo_log_at put_x_parses
        spec_apply_def put_x_serialized effect_on_def abs_machine_def applied_part_def)

theorem applied_entries_refine_machine_witness:
  "\<exists>n'. apply_loop mem_env (demo_leader\<lparr>commit_index := 1\<rparr>) = (Inr (), n') \<and> last_applied n' = 1 \<and>
    spec_run mem_pb [\<lparr>entry_term = 1, entry_command = put_x_bytes\<rparr>] (abs_machine (map_of [])) =
      Some (abs_machine (map_of (db n')))"
proof -
  obtain n' where run: "apply_loop mem_env (demo_leader\<lparr>commit_index := 1\<rparr>) = (Inr (), n')" using demo_apply_loop by blast
  from applied_entries_refine_machine [of mem_env map_of "demo_leader\<lparr>commit_index := 1\<rparr>"] run
  show ?thesis by (simp add: mem_rocks_ok demo_committed entries_between_def demo_log_at)
qed

text \<open>C12: Replicas agree. Two nodes whose logs match and that know the same term at the commit
  index, both applying from the same index and from the same data up to that commit index, hold the
  same data afterwards.\<close>

theorem replicas_agree:
  assumes "rocksdb_ok (env_rocks E) \<alpha>" and "rocksdb_ok (env_rocks E') \<beta>" and "env_pb E' = env_pb E"
    and "log_fits n" and "log_fits m" and "commit_index n \<le> LastIndex n" and "commit_index m \<le> LastIndex m"
    and "snapshot_index n \<le> last_applied n" and "snapshot_index m \<le> last_applied m"
    and "last_applied n \<le> commit_index n" and "commit_index m = commit_index n" and "last_applied m = last_applied n"
    and "abs_machine (\<beta> (db m)) = abs_machine (\<alpha> (db n))"
    and "log_matching n m" and "TermAt m (commit_index m) = TermAt n (commit_index n)"
    and "apply_loop E n = (Inr u, n')" and "apply_loop E' m = (Inr v, m')"
  shows "abs_machine (\<beta> (db m')) = abs_machine (\<alpha> (db n'))"
proof -
  have "entries_between m (unat (last_applied m)) (unat (commit_index m)) =
      entries_between n (unat (last_applied n)) (unat (commit_index n))"
    using matching_entries [OF assms(14) assms(4,5) _ _ assms(6)] assms(7-12,15) by (simp add: word_le_nat_alt)
  then show ?thesis
    using applied_entries_between [OF assms(1,4,6,8) _ assms(16)] applied_entries_between [OF assms(2,5,7,9) _ assms(17)]
      assms(3,10-13) by simp
qed

lemma demo_behind:
  "log_fits (demo_follower\<lparr>last_applied := 0\<rparr>)" "LastIndex (demo_follower\<lparr>last_applied := 0\<rparr>) = 2"
  "log_at (demo_follower\<lparr>last_applied := 0\<rparr>) i = log_at demo_follower i"
  "last_nat (demo_follower\<lparr>last_applied := 0\<rparr>) = 2" "db demo_follower = []"
  by (simp_all add: log_fits_def LastIndex_def log_at_def last_nat_def demo_follower_def fresh_node_def)

lemma demo_apply_behind: "\<exists>n'. apply_loop mem_env (demo_follower\<lparr>last_applied := 0\<rparr>) = (Inr (), n')"
  by (rule apply_loop_returns [where \<alpha> = map_of])
     (simp_all add: mem_rocks_ok mem_rocks_faultless demo_behind entries_between_def demo_log_at put_x_parses
        spec_apply_def put_x_serialized effect_on_def abs_machine_def applied_part_def)

theorem replicas_agree_witness:
  "\<exists>n' m'. apply_loop mem_env (demo_leader\<lparr>commit_index := 1\<rparr>) = (Inr (), n') \<and>
     apply_loop mem_env (demo_follower\<lparr>last_applied := 0\<rparr>) = (Inr (), m') \<and>
     abs_machine (map_of (db m')) = abs_machine (map_of (db n'))"
proof -
  let ?n = "demo_leader\<lparr>commit_index := 1\<rparr>" and ?m = "demo_follower\<lparr>last_applied := 0\<rparr>"
  obtain n' m' where run: "apply_loop mem_env ?n = (Inr (), n')" "apply_loop mem_env ?m = (Inr (), m')"
    using demo_apply_loop demo_apply_behind by blast
  have "term_at ?n i = term_at demo_leader i" "term_at ?m i = term_at demo_follower i" for i
    by (simp_all add: term_at_def demo_committed demo_behind)
  with demo_matching have match: "log_matching ?n ?m"
    by (simp only: log_matching_def agree_at_def demo_committed(3) demo_behind(3))
  have terms: "TermAt ?m 1 = TermAt ?n 1"
    using TermAt_log [of ?n 1] TermAt_log [of ?m 1] by (simp add: demo_committed demo_behind demo_log_at)
  have "abs_machine (map_of (db m')) = abs_machine (map_of (db n'))"
    by (rule replicas_agree [OF _ _ _ _ _ _ _ _ _ _ _ _ _ match _ run, where \<alpha> = map_of and \<beta> = map_of])
       (simp_all add: mem_rocks_ok demo_committed demo_behind terms word_le_nat_alt)
  with run show ?thesis by blast
qed

section \<open>What a leader sends\<close>

text \<open>C30: A batch holds the leader's entries from the next index on, consecutively, at most 64 of
  them and none beyond the end of the log.\<close>

theorem batch_bounds:
  assumes "last_nat n + 65 < 2 ^ 64" and "snapshot_index n < next" and "unat next \<le> Suc (unat (LastIndex n))"
  shows "\<exists>es. append_batch n next next = Inr es \<and> length es = min 64 (Suc (last_nat n) - unat next) \<and>
    (\<forall>j < length es. le_index (es ! j) = next + of_nat j \<and> log_at n (unat next + j) = Some (entry_of (es ! j)))"
proof -
  have "log_fits n" using assms(1) by (simp add: log_fits_def last_nat_def)
  with append_batch_log [OF assms(1,2)] assms(3) show ?thesis by simp
qed

theorem batch_bounds_witness:
  "\<exists>es. append_batch demo_leader 2 2 = Inr es \<and> length es = min 64 (Suc (last_nat demo_leader) - unat (2 :: u64)) \<and>
    (\<forall>j < length es. le_index (es ! j) = 2 + of_nat j \<and> log_at demo_leader (unat (2 :: u64) + j) = Some (entry_of (es ! j)))"
  by (rule batch_bounds) simp_all






section \<open>Tasks and messages\<close>

text \<open>C29: A request that was applied is not appended again: a leader answers its repetition from
  the stored record, with true exactly when the command is the same, and changes nothing else.\<close>

theorem resubmission_not_appended:
  assumes "rocksdb_ok (env_rocks E) \<alpha>" and "rocksdb_faultless (env_rocks E)"
    and "role n = Leader" and "\<not> stopping n" and "request_id \<noteq> 0"
    and "applied (abs_machine (\<alpha> (db n))) (client_id, request_id) = Some command"
  shows "submit_task E serialized client_id request_id result n =
    (Inr (), n\<lparr>trace := trace n @ [SetValue result (command = serialized)]\<rparr>)"
proof -
  have "GetAppliedCommand (env_rocks E) (db n) client_id request_id = Inr (Some command)"
    using rocks_total.get_eq [OF conjI [OF assms(1,2)]] assms(6)
    by (simp add: GetAppliedCommand_def AppliedRequestKey_def abs_machine_def applied_part_def client_key_def)
  with assms(3-5) show ?thesis
    by (simp add: submit_task_def mtry_def mbind_app set_value_def emit_def)
qed

theorem resubmission_not_appended_witness:
  "submit_task mem_env ''other'' 1 1 0 (demo_leader\<lparr>db := [(client_key (1, 1), put_x_bytes)]\<rparr>) =
    (Inr (), demo_leader\<lparr>db := [(client_key (1, 1), put_x_bytes)],
       trace := trace demo_leader @ [SetValue 0 (put_x_bytes = ''other'')]\<rparr>)"
  using resubmission_not_appended [of mem_env map_of "demo_leader\<lparr>db := [(client_key (1, 1), put_x_bytes)]\<rparr>"
      1 1 put_x_bytes "''other''" 0]
  by (simp add: mem_rocks_ok mem_rocks_faultless abs_machine_def applied_part_def) (simp add: demo_leader_def fresh_node_def)

text \<open>C26: The byte stream of a connection is handled message by message: however the network cuts
  the framed messages into deliveries, the node handles exactly the messages, in order, and nothing
  is left over.\<close>

theorem rpc_stream_handled:
  assumes "list_all2 (\<lambda>payload frame. Frame payload = Inr frame) payloads frames" and "concat chunks = concat frames"
  shows "deliveries (HandleMessage E c) chunks [] = mseq (mfor payloads (HandleRpc E c)) (ret [])"
  using assms unfolding Frame_def by (rule rpc_stream.deliveries_frames)

theorem rpc_stream_handled_witness:
  "deliveries (HandleMessage mem_env 5) [take 1 (htonl_bytes 2 @ ''hi''), drop 1 (htonl_bytes 2 @ ''hi'')] [] =
    mseq (mfor [''hi''] (HandleRpc mem_env 5)) (ret [])"
proof (rule rpc_stream_handled)
  show "list_all2 (\<lambda>payload frame. Frame payload = Inr frame) [''hi''] [htonl_bytes 2 @ ''hi'']"
    by (simp add: Frame_def frame_or_def kMaxFrameSize_def numeral_2_eq_2)
qed (simp only: concat.simps append_Nil2 append_take_drop_id)

end
