(* ===== verification/Client_Server.thy ===== *)
theory Client_Server
  imports Raft_Loop
begin

text \<open>
  The client interface, \<open>src/client_server.cpp\<close>: the receive loop that validates requests and
  queues them, the worker loop that takes them off the queue, and the translation of a request
  into calls of the node.

  A worker thread and the loop thread of the node run concurrently. A \<open>schedule\<close> says what the
  loop of the node runs at each point where the worker looks at the node: between \<open>IsReady\<close> and
  \<open>IsLeader\<close>, before and after the queued task of \<open>Submit\<close> or \<open>ReadIndex\<close>, and before
  \<open>GetLocal\<close>.
\<close>

section \<open>Definitions\<close>

record client_server =
  work_queue :: "(conn \<times> ClientRequest) list"
  server_stopping :: bool
  client_io :: "io list"

definition MakeError :: "u64 \<Rightarrow> ResponseStatus \<Rightarrow> string \<Rightarrow> ClientResponse" where
  "MakeError request_id status message =
     \<lparr>cs_request_id = request_id, cs_status = status, cs_value = [], cs_message = message\<rparr>"

definition client_Frame :: "string \<Rightarrow> error + string" where
  "client_Frame payload = frame_or ''client response is too large'' payload"

definition client_emit :: "io \<Rightarrow> (client_server, unit) M" where
  "client_emit x = mput (\<lambda>s. s\<lparr>client_io := client_io s @ [x]\<rparr>)"

definition SendResponse :: "codecs \<Rightarrow> conn \<Rightarrow> ClientResponse \<Rightarrow> (client_server, unit) M" where
  "SendResponse P c response = (case serialize (client_response_pb P) response of
       None \<Rightarrow> raise (Runtime_error ''failed to serialize client response'')
     | Some payload \<Rightarrow>
         mbind (lift_result (client_Frame payload)) (\<lambda>frame. client_emit (Send c frame)))"

definition Enqueue :: "conn \<times> ClientRequest \<Rightarrow> (client_server, unit) M" where
  "Enqueue task = mget (\<lambda>s.
     if server_stopping s then ret ()
     else mput (\<lambda>s. s\<lparr>work_queue := work_queue s @ [task]\<rparr>))"

text \<open>One payload of the receive loop.\<close>

definition on_payload :: "codecs \<Rightarrow> conn \<Rightarrow> string \<Rightarrow> (client_server, unit) M" where
  "on_payload P c payload = (case parse (client_request_pb P) payload of
       None \<Rightarrow> SendResponse P c (MakeError 0 STATUS_INVALID_REQUEST ''invalid protobuf request'')
     | Some request \<Rightarrow>
         if cq_key request = [] \<or> has_prefix ''__raft/'' (cq_key request)
         then SendResponse P c (MakeError (cq_request_id request) STATUS_INVALID_REQUEST
                (if cq_key request = [] then ''key must not be empty'' else ''reserved key''))
         else Enqueue (c, request))"

text \<open>The result is what stays in the buffer.\<close>

function OnMessage :: "codecs \<Rightarrow> conn \<Rightarrow> string \<Rightarrow> (client_server, string) M" where
  "OnMessage P c buffer s = (case next_frame buffer of
       Need_more \<Rightarrow> (Inr buffer, s)
     | Too_large \<Rightarrow>
         mseq (SendResponse P c (MakeError 0 STATUS_INVALID_REQUEST ''request frame is too large''))
           (mseq (client_emit (Shutdown c)) (ret buffer)) s
     | Frame_ready payload rest \<Rightarrow>
         mseq (on_payload P c payload) (\<lambda>t. OnMessage P c rest t) s)"
  by pat_completeness auto
termination
  by (relation "measure (\<lambda>(P, c, buffer, s). length buffer)") (auto dest: next_frame_shrinks)

declare OnMessage.simps [simp del]

record schedule =
  sch_promise :: promise
  sch_ready :: "event list"
  sch_before :: "event list"
  sch_after :: "event list"
  sch_read :: "event list"

definition client_command :: "CommandType \<Rightarrow> ClientRequest \<Rightarrow> Command" where
  "client_command type request =
     \<lparr>cmd_type = type, cmd_client_id = cq_client_id request,
      cmd_request_id = cq_request_id request, cmd_key = cq_key request, cmd_value = cq_value request\<rparr>"

definition submit_request ::
    "'db env \<Rightarrow> schedule \<Rightarrow> CommandType \<Rightarrow> string \<Rightarrow> ClientRequest \<Rightarrow> 'db node \<Rightarrow> ClientResponse \<times> 'db node" where
  "submit_request E sch type failure request n =
     (let (ok, n) = Submit E (client_command type request) (sch_promise sch) (sch_before sch) (sch_after sch) n
      in (if ok
          then \<lparr>cs_request_id = cq_request_id request, cs_status = STATUS_OK, cs_value = [], cs_message = []\<rparr>
          else MakeError (cq_request_id request) STATUS_ERROR failure, n))"

definition read_request ::
    "'db env \<Rightarrow> schedule \<Rightarrow> ClientRequest \<Rightarrow> 'db node \<Rightarrow> ClientResponse \<times> 'db node" where
  "read_request E sch request n =
     (let (ok, n) = ReadIndex E (sch_promise sch) (sch_before sch) (sch_after sch) n in
      if \<not> ok
      then (MakeError (cq_request_id request) STATUS_ERROR ''linearizable read failed'', n)
      else let n = snd (run_loop E (sch_read sch) n) in
        (case GetLocal E (cq_key request) n of
           Inl error \<Rightarrow> MakeError (cq_request_id request) STATUS_ERROR (what error)
         | Inr (Some value) \<Rightarrow>
             \<lparr>cs_request_id = cq_request_id request, cs_status = STATUS_OK, cs_value = value, cs_message = []\<rparr>
         | Inr None \<Rightarrow>
             \<lparr>cs_request_id = cq_request_id request, cs_status = STATUS_NOT_FOUND, cs_value = [],
              cs_message = []\<rparr>, n))"

text \<open>The response that \<open>HandleRequest\<close> sends, and the node afterwards.\<close>

definition HandleRequest ::
    "'db env \<Rightarrow> schedule \<Rightarrow> ClientRequest \<Rightarrow> 'db node \<Rightarrow> ClientResponse \<times> 'db node" where
  "HandleRequest E sch request n =
     (if \<not> ready n
      then (MakeError (cq_request_id request) STATUS_NOT_READY ''Raft node is still starting'', n)
      else let n = snd (run_loop E (sch_ready sch) n) in
        if \<not> leader n
        then (MakeError (cq_request_id request) STATUS_NOT_LEADER ''request must be sent to the leader'', n)
        else (case cq_operation request of
            OPERATION_PUT \<Rightarrow> submit_request E sch COMMAND_TYPE_PUT ''put failed'' request n
          | OPERATION_GET \<Rightarrow> read_request E sch request n
          | OPERATION_DELETE \<Rightarrow> submit_request E sch COMMAND_TYPE_DELETE ''delete failed'' request n
          | _ \<Rightarrow> (MakeError (cq_request_id request) STATUS_INVALID_REQUEST ''unsupported operation'', n)))"

text \<open>
  A worker, for as many tasks as there are schedules. It waits when the queue is empty, ends
  when the server stops with an empty queue, and an exception of \<open>SendResponse\<close> leaves the thread.
\<close>

datatype worker_state = Waiting | Running | Finished | Terminated error

fun WorkerLoop ::
    "'db env \<Rightarrow> schedule list \<Rightarrow> client_server \<times> 'db node \<Rightarrow> worker_state \<times> client_server \<times> 'db node" where
  "WorkerLoop E schs (s, n) = (case work_queue s of
       [] \<Rightarrow> (if server_stopping s then Finished else Waiting, s, n)
     | (c, request) # rest \<Rightarrow>
         (case schs of
            [] \<Rightarrow> (Running, s, n)
          | sch # schs' \<Rightarrow>
              let (response, n') = HandleRequest E sch request n in
              (case SendResponse (env_pb E) c response (s\<lparr>work_queue := rest\<rparr>) of
                 (Inl e, s') \<Rightarrow> (Terminated e, s', n')
               | (Inr _, s') \<Rightarrow> WorkerLoop E schs' (s', n'))))"

declare WorkerLoop.simps [simp del]

definition ClientServer_new :: client_server where
  "ClientServer_new = \<lparr>work_queue = [], server_stopping = False, client_io = []\<rparr>"

text \<open>The destructor: the flag is set and the workers, which are joined, run until they end.\<close>

definition ClientServer_destroy ::
    "'db env \<Rightarrow> schedule list \<Rightarrow> client_server \<times> 'db node \<Rightarrow> worker_state \<times> client_server \<times> 'db node" where
  "ClientServer_destroy E schs = (\<lambda>(s, n). WorkerLoop E schs (s\<lparr>server_stopping := True\<rparr>, n))"

section \<open>The receive loop\<close>

interpretation client_stream: receive_loop "OnMessage P c" "on_payload P c"
  "mseq (SendResponse P c (MakeError 0 STATUS_INVALID_REQUEST ''request frame is too large''))
     (client_emit (Shutdown c))" for P c
  by unfold_locales (subst OnMessage.simps, simp only: mseq_assoc)

section \<open>The work queue\<close>

definition request_ok :: "ClientRequest \<Rightarrow> bool" where
  "request_ok request \<longleftrightarrow> cq_key request \<noteq> [] \<and> \<not> has_prefix ''__raft/'' (cq_key request)"

definition queue_ok :: "client_server \<Rightarrow> bool" where
  "queue_ok s \<longleftrightarrow> (\<forall>(c, request) \<in> set (work_queue s). request_ok request)"

lemma SendResponse_keeps: "keeps (\<lambda>s. (work_queue s, server_stopping s)) (SendResponse P c response)"
  by (auto simp: keeps_def SendResponse_def client_emit_def mbind_app split: option.splits sum.splits)

lemma preserves_SendResponse [pres]: "preserves queue_ok (SendResponse P c response)"
  using keepsD [OF SendResponse_keeps]
  by (intro preservesI) (metis queue_ok_def prod.collapse prod.inject)

lemma preserves_on_payload [pres]: "preserves queue_ok (on_payload P c payload)"
  unfolding on_payload_def Enqueue_def
  by (intro pres preserves_mput) (auto simp: queue_ok_def request_ok_def)

lemma preserves_OnMessage [pres]: "preserves queue_ok (OnMessage P c buffer)"
  unfolding client_emit_def
  by (rule client_stream.preserves_loop)
     (intro pres preserves_mput, auto simp: client_emit_def queue_ok_def intro!: pres preserves_mput)

lemma WorkerLoop_queue:
  "queue_ok s \<Longrightarrow> WorkerLoop E schs (s, n) = (w, s', n') \<Longrightarrow> queue_ok s'"
proof (induction schs arbitrary: s n)
  case Nil
  then show ?case by (auto simp: WorkerLoop.simps split: list.splits)
next
  case (Cons sch schs)
  show ?case
  proof (cases "work_queue s")
    case Nil
    with Cons.prems show ?thesis by (auto simp: WorkerLoop.simps)
  next
    case queue: (Cons task rest)
    obtain c request where task: "task = (c, request)" by (cases task)
    obtain response m where handled: "HandleRequest E sch request n = (response, m)" by fastforce
    obtain r t where sent: "SendResponse (env_pb E) c response (s\<lparr>work_queue := rest\<rparr>) = (r, t)" by fastforce
    have "queue_ok (s\<lparr>work_queue := rest\<rparr>)" using Cons.prems(1) queue by (simp add: queue_ok_def)
    from preservesD [OF preserves_SendResponse sent this] have t: "queue_ok t" .
    with Cons.prems(2) queue task handled sent show ?thesis
      by (cases r) (auto simp: WorkerLoop.simps [of E "sch # schs"] intro: Cons.IH)
  qed
qed

text \<open>What happens to the server and the node: messages of clients, work, the loop of the node, the stop.\<close>

inductive client_step :: "'db env \<Rightarrow> client_server \<times> 'db node \<Rightarrow> client_server \<times> 'db node \<Rightarrow> bool" for E where
  message: "client_step E (s, n) (snd (OnMessage (env_pb E) c buffer s), n)"
| work: "WorkerLoop E schs (s, n) = (w, s', n') \<Longrightarrow> client_step E (s, n) (s', n')"
| loop: "client_step E (s, n) (s, snd (run_loop E evs n))"
| stop: "client_step E (s, n) (s\<lparr>server_stopping := True\<rparr>, n)"

lemma queue_ok_step: "client_step E x y \<Longrightarrow> queue_ok (fst x) \<Longrightarrow> queue_ok (fst y)"
  by (induction rule: client_step.induct)
     (auto intro: WorkerLoop_queue preserves_run [OF preserves_OnMessage] simp: queue_ok_def [of "server_stopping_update _ _"]
        simp flip: queue_ok_def)

lemma queue_ok_reachable: "(client_step E)\<^sup>*\<^sup>* x y \<Longrightarrow> queue_ok (fst x) \<Longrightarrow> queue_ok (fst y)"
  by (induction rule: rtranclp_induct) (auto intro: queue_ok_step)

section \<open>Responses\<close>

lemma HandleRequest_id: "cs_request_id (fst (HandleRequest E sch request n)) = cq_request_id request"
  by (simp add: HandleRequest_def submit_request_def read_request_def MakeError_def Let_def
      split: Operation.split prod.split sum.split option.split)

text \<open>A read answers from the store as it is when the handler ends.\<close>

lemma HandleRequest_read:
  assumes "rocksdb_ok (env_rocks E) \<alpha>" and "cq_operation request = OPERATION_GET"
    and "HandleRequest E sch request n = (response, n')"
  shows "cs_status response = STATUS_OK \<Longrightarrow> \<alpha> (db n') (cq_key request) = Some (cs_value response)"
    and "cs_status response = STATUS_NOT_FOUND \<Longrightarrow> \<alpha> (db n') (cq_key request) = None"
  using assms
  by (auto simp: HandleRequest_def read_request_def MakeError_def GetLocal_def Let_def
      dest: Get_lookup split: if_splits sum.splits option.splits prod.splits)

text \<open>A write is acknowledged only when the promise of its task was set to true.\<close>

lemma HandleRequest_write:
  assumes "cq_operation request \<in> {OPERATION_PUT, OPERATION_DELETE}"
    and "HandleRequest E sch request n = (response, n')" and "cs_status response = STATUS_OK"
  shows "promise_value (sch_promise sch) (trace n') = Some True"
  using assms
  by (auto simp: HandleRequest_def submit_request_def Submit_def MakeError_def Let_def
      split: if_splits option.splits)

section \<open>Draining the queue\<close>

text \<open>The answer that the worker owes to one queued request.\<close>

definition answers :: "codecs \<Rightarrow> conn \<times> ClientRequest \<Rightarrow> io \<Rightarrow> bool" where
  "answers P task x \<longleftrightarrow> (\<exists>response payload frame. x = Send (fst task) frame \<and>
     cs_request_id response = cq_request_id (snd task) \<and>
     serialize (client_response_pb P) response = Some payload \<and> client_Frame payload = Inr frame)"

lemma SendResponse_Inr:
  assumes "SendResponse P c response s = (Inr x, s')"
  obtains payload frame where "serialize (client_response_pb P) response = Some payload"
    and "client_Frame payload = Inr frame" and "s' = s\<lparr>client_io := client_io s @ [Send c frame]\<rparr>"
  using assms
  by (auto simp: SendResponse_def client_emit_def mbind_app split: option.splits sum.splits)

lemma WorkerLoop_drains:
  assumes "length (work_queue s) \<le> length schs" and "server_stopping s"
  shows "case WorkerLoop E schs (s, n) of
      (Finished, s', n') \<Rightarrow> work_queue s' = [] \<and>
        (\<exists>new. client_io s' = client_io s @ new \<and> list_all2 (answers (env_pb E)) (work_queue s) new)
    | (Terminated e, s', n') \<Rightarrow> True
    | _ \<Rightarrow> False"
  using assms
proof (induction schs arbitrary: s n)
  case Nil
  then show ?case by (simp add: WorkerLoop.simps)
next
  case (Cons sch schs)
  show ?case
  proof (cases "work_queue s")
    case Nil
    with Cons.prems show ?thesis by (simp add: WorkerLoop.simps)
  next
    case queue: (Cons task rest)
    obtain c request where task: "task = (c, request)" by (cases task)
    obtain response n' where handled: "HandleRequest E sch request n = (response, n')" by (cases "HandleRequest E sch request n")
    obtain r s' where sent: "SendResponse (env_pb E) c response (s\<lparr>work_queue := rest\<rparr>) = (r, s')"
      by (cases "SendResponse (env_pb E) c response (s\<lparr>work_queue := rest\<rparr>)")
    show ?thesis
    proof (cases r)
      case (Inl e)
      with queue task handled sent show ?thesis by (simp add: WorkerLoop.simps)
    next
      case (Inr u)
      then obtain payload frame where reply: "serialize (client_response_pb (env_pb E)) response = Some payload"
        "client_Frame payload = Inr frame" and s': "s' = s\<lparr>work_queue := rest, client_io := client_io s @ [Send c frame]\<rparr>"
        using sent by (auto elim: SendResponse_Inr)
      have one: "answers (env_pb E) task (Send c frame)"
        using reply HandleRequest_id [of E sch request n] handled by (auto simp: answers_def task)
      have step: "WorkerLoop E (sch # schs) (s, n) = WorkerLoop E schs (s', n')"
        using queue task handled sent Inr by (subst WorkerLoop.simps) simp
      show ?thesis
        using Cons.IH [of s' n'] Cons.prems queue one unfolding step
        by (auto simp: s' split: prod.splits worker_state.splits)
    qed
  qed
qed

end
