(* ===== verification/Server_Main.thy ===== *)
theory Server_Main
  imports Client_Server
begin

text \<open>
  The server program, \<open>src/main.cpp\<close>: the options from the configuration file and the command
  line, and the command loop on the terminal. The file system is a function from paths to
  contents. A schedule per line says what the loop of the node runs meanwhile, as for the client
  server.
\<close>

section \<open>Options\<close>

record ServerOptions =
  node_id :: i32
  client_port :: i32
  data_directory :: string
  option_peers :: "RaftPeer list"

definition kDefaultPeers :: "RaftPeer list" where
  "kDefaultPeers =
     [\<lparr>peer_id = 1, peer_endpoint = ''127.0.0.1:19001''\<rparr>,
      \<lparr>peer_id = 2, peer_endpoint = ''127.0.0.1:19002''\<rparr>,
      \<lparr>peer_id = 3, peer_endpoint = ''127.0.0.1:19003''\<rparr>]"

definition find_first_not_of :: "string \<Rightarrow> string \<Rightarrow> nat option" where
  "find_first_not_of cs s =
     (let i = length (takeWhile (\<lambda>c. c \<in> set cs) s) in if i = length s then None else Some i)"

definition find_last_not_of :: "string \<Rightarrow> string \<Rightarrow> nat option" where
  "find_last_not_of cs s = map_option (\<lambda>i. length s - 1 - i) (find_first_not_of cs (rev s))"

definition blanks :: string where
  "blanks = [CHR '' '', CHR 0x09, CHR 0x0D, CHR 0x0A]"

definition Trim :: "string \<Rightarrow> string" where
  "Trim value = (case (find_first_not_of blanks value, find_last_not_of blanks value) of
       (Some i, Some j) \<Rightarrow> take (j - i + 1) (drop i value)
     | _ \<Rightarrow> [])"

definition ParseInteger :: "string \<Rightarrow> string \<Rightarrow> error + i32" where
  "ParseInteger value name = rbind (stoi value) (\<lambda>(parsed, parsed_length).
     if parsed_length \<noteq> length value then Inl (Invalid_argument (name @ '' must be an integer''))
     else Inr parsed)"

definition ParsePort :: "string \<Rightarrow> string \<Rightarrow> error + i32" where
  "ParsePort value name = rbind (ParseInteger value name) (\<lambda>port.
     if sint port < 1 \<or> 65535 < sint port
     then Inl (Invalid_argument (name @ '' must be between 1 and 65535''))
     else Inr port)"

text \<open>One item of the list of peers.\<close>

definition parse_peer :: "i32 set \<Rightarrow> string \<Rightarrow> error + RaftPeer" where
  "parse_peer ids item = (case find_char CHR ''='' item of
       None \<Rightarrow> Inl (Invalid_argument ''peers must use id=host:port format'')
     | Some separator \<Rightarrow>
         if separator = 0 \<or> length item \<le> separator + 1
         then Inl (Invalid_argument ''peers must use id=host:port format'')
         else rbind (ParseInteger (take separator item) ''peer id'') (\<lambda>id.
           let ep = drop (separator + 1) item in
           if sint id < 1 \<or> id \<in> ids
           then Inl (Invalid_argument ''peer ids must be unique positive integers'')
           else case rfind_char CHR '':'' ep of
               None \<Rightarrow> Inl (Invalid_argument ''peer endpoint must use host:port format'')
             | Some colon \<Rightarrow>
                 if colon = 0 \<or> length ep \<le> colon + 1
                 then Inl (Invalid_argument ''peer endpoint must use host:port format'')
                 else rbind (ParsePort (drop (colon + 1) ep) ''peer port'') (\<lambda>_.
                   Inr \<lparr>peer_id = id, peer_endpoint = ep\<rparr>)))"

lemma drop_past_shorter: "x \<in> set v \<Longrightarrow> length (drop 1 (dropWhile (\<lambda>c. c \<noteq> x) v)) < length v"
  by (induction v) auto

text \<open>The loop over the items; the string is what is left from \<open>begin\<close> on.\<close>

function peers_loop :: "i32 set \<Rightarrow> string \<Rightarrow> error + RaftPeer list" where
  "peers_loop ids value =
     (if value = [] then Inr []
      else rbind (parse_peer ids (takeWhile (\<lambda>c. c \<noteq> CHR '','') value)) (\<lambda>peer.
        if CHR '','' \<notin> set value then Inr [peer]
        else rbind (peers_loop (insert (peer_id peer) ids)
               (drop 1 (dropWhile (\<lambda>c. c \<noteq> CHR '','') value)))
          (\<lambda>rest. Inr (peer # rest))))"
  by pat_completeness auto
termination
  by (relation "measure (\<lambda>(ids, value). length value)")
     (simp_all add: drop_past_shorter del: length_drop One_nat_def)

declare peers_loop.simps [simp del]

definition ParsePeers :: "string \<Rightarrow> error + RaftPeer list" where
  "ParsePeers value = rbind (peers_loop {} value) (\<lambda>peers.
     if peers = [] then Inl (Invalid_argument ''at least one peer is required'') else Inr peers)"

text \<open>The options together with the flags that say which of them were given.\<close>

record parsed_options =
  options :: ServerOptions
  node_id_set :: bool
  peers_set :: bool
  client_port_set :: bool
  data_directory_set :: bool

lemma drop_line_shorter: "s \<noteq> [] \<Longrightarrow> length (drop 1 (dropWhile P s)) < length s"
  using length_dropWhile_le [of P s] by (cases s) auto

text \<open>The lines that \<open>std::getline\<close> reads.\<close>

function getlines :: "string \<Rightarrow> string list" where
  "getlines s =
     (if s = [] then []
      else takeWhile (\<lambda>c. c \<noteq> CHR 0x0A) s # getlines (drop 1 (dropWhile (\<lambda>c. c \<noteq> CHR 0x0A) s)))"
  by pat_completeness auto
termination
  by (relation "measure length") (simp_all add: drop_line_shorter del: length_drop One_nat_def)

declare getlines.simps [simp del]

definition config_line :: "nat \<Rightarrow> string \<Rightarrow> parsed_options \<Rightarrow> error + parsed_options" where
  "config_line line_number raw p =
     (let line = Trim (takeWhile (\<lambda>c. c \<noteq> CHR ''#'') raw) in
      if line = [] then Inr p
      else case find_char CHR ''='' line of
          None \<Rightarrow> Inl (Invalid_argument (''config line '' @ dec line_number @ '' must use key=value format''))
        | Some separator \<Rightarrow>
            let key = Trim (take separator line); value = Trim (drop (separator + 1) line) in
            if key = [] \<or> value = []
            then Inl (Invalid_argument (''config line '' @ dec line_number @ '' has an empty key or value''))
            else if key = ''node_id''
            then rbind (ParseInteger value ''node_id'') (\<lambda>id.
              Inr (p\<lparr>options := (options p)\<lparr>node_id := id\<rparr>, node_id_set := True\<rparr>))
            else if key = ''peers''
            then rbind (ParsePeers value) (\<lambda>ps.
              Inr (p\<lparr>options := (options p)\<lparr>option_peers := ps\<rparr>, peers_set := True\<rparr>))
            else if key = ''client_port''
            then rbind (ParsePort value ''client_port'') (\<lambda>port.
              Inr (p\<lparr>options := (options p)\<lparr>client_port := port\<rparr>, client_port_set := True\<rparr>))
            else if key = ''data_dir''
            then Inr (p\<lparr>options := (options p)\<lparr>data_directory := value\<rparr>, data_directory_set := True\<rparr>)
            else Inl (Invalid_argument (''unknown config key at line '' @ dec line_number @ '': '' @ key)))"

fun config_lines :: "nat \<Rightarrow> string list \<Rightarrow> parsed_options \<Rightarrow> error + parsed_options" where
  "config_lines line_number [] p = Inr p"
| "config_lines line_number (line # lines) p =
     rbind (config_line (Suc line_number) line p) (config_lines (Suc line_number) lines)"

definition LoadConfig :: "(string \<Rightarrow> string option) \<Rightarrow> string \<Rightarrow> parsed_options \<Rightarrow> error + parsed_options" where
  "LoadConfig files path p = (case files path of
       None \<Rightarrow> Inl (Invalid_argument (''failed to open config file: '' @ path))
     | Some contents \<Rightarrow> config_lines 0 (getlines contents) p)"

text \<open>The arguments that follow an option; the result is its value and what follows that.\<close>

definition RequireValue :: "string list \<Rightarrow> string \<Rightarrow> error + string \<times> string list" where
  "RequireValue args option = (case args of
       [] \<Rightarrow> Inl (Invalid_argument (option @ '' requires a value''))
     | v # rest \<Rightarrow> Inr (v, rest))"

text \<open>The first pass: the path of the configuration file.\<close>

fun config_path :: "string list \<Rightarrow> string \<Rightarrow> error + string" where
  "config_path [] path = Inr path"
| "config_path (a # args) path =
     (if a = ''--config''
      then case args of
          [] \<Rightarrow> Inl (Invalid_argument ''--config requires a value'')
        | v # rest \<Rightarrow> config_path rest v
      else config_path args path)"

definition positional :: "string \<Rightarrow> bool" where
  "positional arg \<longleftrightarrow> (case arg of [] \<Rightarrow> True | c # _ \<Rightarrow> c \<noteq> CHR ''-'')"

definition positional_options :: "string list \<Rightarrow> parsed_options \<Rightarrow> error + parsed_options \<times> string list" where
  "positional_options args p = (case args of
       [] \<Rightarrow> Inr (p, [])
     | a # rest \<Rightarrow>
         if \<not> positional a then Inr (p, args)
         else rbind (ParseInteger a ''node_id'') (\<lambda>id.
           let p = p\<lparr>options := (options p)\<lparr>node_id := id\<rparr>, node_id_set := True\<rparr> in
           case rest of
             [] \<Rightarrow> Inr (p, [])
           | b # rest' \<Rightarrow>
               if \<not> positional b then Inr (p, rest)
               else rbind (ParsePort b ''client_port'') (\<lambda>port.
                 Inr (p\<lparr>options := (options p)\<lparr>client_port := port\<rparr>, client_port_set := True\<rparr>, rest'))))"

text \<open>One named option. \<open>None\<close> is \<open>--help\<close>, which prints the usage and ends the program.\<close>

definition named_option ::
    "string \<Rightarrow> string list \<Rightarrow> parsed_options \<Rightarrow> error + (parsed_options \<times> string list) option" where
  "named_option option rest p =
     (if option = ''--help'' then Inr None
      else if option = ''--config''
      then rbind (RequireValue rest option) (\<lambda>(_, rest). Inr (Some (p, rest)))
      else if option = ''--node-id''
      then rbind (RequireValue rest option) (\<lambda>(v, rest). rbind (ParseInteger v ''node_id'') (\<lambda>id.
        Inr (Some (p\<lparr>options := (options p)\<lparr>node_id := id\<rparr>, node_id_set := True\<rparr>, rest))))
      else if option = ''--peers''
      then rbind (RequireValue rest option) (\<lambda>(v, rest). rbind (ParsePeers v) (\<lambda>ps.
        Inr (Some (p\<lparr>options := (options p)\<lparr>option_peers := ps\<rparr>, peers_set := True\<rparr>, rest))))
      else if option = ''--client-port''
      then rbind (RequireValue rest option) (\<lambda>(v, rest). rbind (ParsePort v ''client_port'') (\<lambda>port.
        Inr (Some (p\<lparr>options := (options p)\<lparr>client_port := port\<rparr>, client_port_set := True\<rparr>, rest))))
      else if option = ''--data-dir''
      then rbind (RequireValue rest option) (\<lambda>(v, rest).
        if v = [] then Inl (Invalid_argument ''data directory must not be empty'')
        else Inr (Some (p\<lparr>options := (options p)\<lparr>data_directory := v\<rparr>, data_directory_set := True\<rparr>, rest)))
      else Inl (Invalid_argument (''unknown option: '' @ option)))"

lemma named_option_takes:
  "named_option option rest p = Inr (Some (q, rest')) \<Longrightarrow> \<exists>v. rest = v # rest'"
  by (auto simp: named_option_def RequireValue_def rbind_Inr_iff split: if_splits list.splits)

function named_options :: "string list \<Rightarrow> parsed_options \<Rightarrow> error + parsed_options option" where
  "named_options args p = (case args of
       [] \<Rightarrow> Inr (Some p)
     | option # rest \<Rightarrow>
         (case named_option option rest p of
            Inl e \<Rightarrow> Inl e
          | Inr None \<Rightarrow> Inr None
          | Inr (Some (q, rest')) \<Rightarrow> named_options rest' q))"
  by pat_completeness auto
termination
  by (relation "measure (\<lambda>(args, p). length args)") (auto dest: named_option_takes)

declare named_options.simps [simp del]

text \<open>The checks and defaults after the command line.\<close>

definition finish_options :: "parsed_options \<Rightarrow> error + ServerOptions" where
  "finish_options p =
     (let opts = options p; id = sint (node_id opts) in
      if \<not> node_id_set p \<or> id < 1
      then Inl (Invalid_argument ''node_id must be a positive integer'')
      else if \<not> client_port_set p \<and> (2147483647 - 18000 < id \<or> 65535 < 18000 + id)
      then Inl (Invalid_argument ''--client-port is required for this node_id'')
      else
      let opts = (if client_port_set p then opts else opts\<lparr>client_port := 18000 + node_id opts\<rparr>) in
      if peers_set p \<and> \<not> data_directory_set p
      then Inl (Invalid_argument
        ''--data-dir is required with --peers to avoid reusing persisted cluster configuration'')
      else
      let opts = (if data_directory_set p then opts
                  else opts\<lparr>data_directory := ''./data/node'' @ to_string_int id\<rparr>) in
      Inr (if peers_set p then opts else opts\<lparr>option_peers := kDefaultPeers\<rparr>))"

definition default_options :: parsed_options where
  "default_options = \<lparr>options = \<lparr>node_id = 0, client_port = 0, data_directory = [], option_peers = kDefaultPeers\<rparr>,
     node_id_set = False, peers_set = False, client_port_set = False, data_directory_set = False\<rparr>"

text \<open>\<open>args\<close> are the arguments behind the program name; \<open>None\<close> is the end through \<open>--help\<close>.\<close>

definition ParseOptions :: "(string \<Rightarrow> string option) \<Rightarrow> string list \<Rightarrow> error + ServerOptions option" where
  "ParseOptions files args =
     rbind (config_path args []) (\<lambda>path.
     rbind (if path \<noteq> [] then LoadConfig files path default_options else Inr default_options) (\<lambda>p.
     rbind (positional_options args p) (\<lambda>(p, rest).
     rbind (named_options rest p) (\<lambda>q. case q of
       None \<Rightarrow> Inr None
     | Some p \<Rightarrow> rbind (finish_options p) (\<lambda>opts. Inr (Some opts))))))"

definition FindLocalPeer :: "RaftPeer list \<Rightarrow> i32 \<Rightarrow> error + RaftPeer" where
  "FindLocalPeer ps own = (case find (\<lambda>peer. peer_id peer = own) ps of
       Some peer \<Rightarrow> Inr peer
     | None \<Rightarrow> Inl (Invalid_argument ''peers do not contain the selected node_id''))"

section \<open>The command loop\<close>

text \<open>\<open>input >> s\<close>: the next word and what follows it; no word when only blanks are left.\<close>

definition next_word :: "string \<Rightarrow> string \<times> string" where
  "next_word s = (let r = dropWhile is_space s in
     (takeWhile (\<lambda>c. \<not> is_space c) r, dropWhile (\<lambda>c. \<not> is_space c) r))"

definition cli_command :: "CommandType \<Rightarrow> string \<Rightarrow> string \<Rightarrow> Command" where
  "cli_command type key value =
     \<lparr>cmd_type = type, cmd_client_id = 0, cmd_request_id = 0, cmd_key = key, cmd_value = value\<rparr>"

definition cli_submit :: "'db env \<Rightarrow> schedule \<Rightarrow> Command \<Rightarrow> 'db node \<Rightarrow> bool \<times> 'db node" where
  "cli_submit E sch command n = Submit E command (sch_promise sch) (sch_before sch) (sch_after sch) n"

definition reserved_message :: string where
  "reserved_message = ''Keys beginning with __raft/ are reserved''"

text \<open>The three commands that reach the node: what is printed, or the exception.\<close>

definition cli_put :: "'db env \<Rightarrow> schedule \<Rightarrow> string \<Rightarrow> 'db node \<Rightarrow> (error + string) \<times> 'db node" where
  "cli_put E sch input n =
     (let (key, input) = next_word input; (value, _) = next_word input in
      if key = [] \<or> value = [] then (Inr ''Usage: put <key> <value>'', n)
      else if has_prefix ''__raft/'' key then (Inr reserved_message, n)
      else let (ok, n) = cli_submit E sch (cli_command COMMAND_TYPE_PUT key value) n in
        (Inr (if ok then ''OK'' else ''PUT failed''), n))"

definition cli_get :: "'db env \<Rightarrow> schedule \<Rightarrow> string \<Rightarrow> 'db node \<Rightarrow> (error + string) \<times> 'db node" where
  "cli_get E sch input n =
     (let (key, _) = next_word input in
      if key = [] then (Inr ''Usage: get <key>'', n)
      else if has_prefix ''__raft/'' key then (Inr reserved_message, n)
      else let (ok, n) = cli_submit E sch (cli_command COMMAND_TYPE_GET key []) n in
        if \<not> ok then (Inr ''GET failed'', n)
        else let n = snd (run_loop E (sch_read sch) n) in
          (case GetLocal E key n of
             Inl e \<Rightarrow> Inl e
           | Inr (Some value) \<Rightarrow> Inr value
           | Inr None \<Rightarrow> Inr ''NOT_FOUND'', n))"

definition cli_del :: "'db env \<Rightarrow> schedule \<Rightarrow> string \<Rightarrow> 'db node \<Rightarrow> (error + string) \<times> 'db node" where
  "cli_del E sch input n =
     (let (key, _) = next_word input in
      if key = [] then (Inr ''Usage: del <key>'', n)
      else if has_prefix ''__raft/'' key then (Inr reserved_message, n)
      else let (ok, n) = cli_submit E sch (cli_command COMMAND_TYPE_DELETE key []) n in
        (Inr (if ok then ''OK'' else ''DELETE failed''), n))"

text \<open>One line: \<open>None\<close> ends the loop, \<open>Some out\<close> are the lines printed.\<close>

definition cli_line ::
    "'db env \<Rightarrow> schedule \<Rightarrow> string \<Rightarrow> 'db node \<Rightarrow> (error + string list option) \<times> 'db node" where
  "cli_line E sch line n =
     (let (operation, input) = next_word line in
      if operation = [] then (Inr (Some []), n)
      else if operation = ''exit'' then (Inr None, n)
      else if operation = ''status''
      then if \<not> ready n then (Inr (Some [''STARTING'']), n)
           else let n = snd (run_loop E (sch_ready sch) n) in
             (Inr (Some [if leader n then ''LEADER'' else ''FOLLOWER'']), n)
      else if \<not> ready n then (Inr (Some [''NOT_READY'']), n)
      else let n = snd (run_loop E (sch_ready sch) n) in
        if \<not> leader n then (Inr (Some [''NOT_LEADER'']), n)
        else
        let (out, n) =
          (if operation = ''put'' then cli_put E sch input n
           else if operation = ''get'' then cli_get E sch input n
           else if operation = ''del'' then cli_del E sch input n
           else (Inr ''Unknown command'', n))
        in (case out of Inl e \<Rightarrow> Inl e | Inr text \<Rightarrow> Inr (Some [text]), n))"

fun cli_loop ::
    "'db env \<Rightarrow> string \<Rightarrow> (string \<times> schedule) list \<Rightarrow> 'db node \<Rightarrow> (error option \<times> string list) \<times> 'db node" where
  "cli_loop E prompt [] n = ((None, [prompt]), n)"
| "cli_loop E prompt ((line, sch) # lines) n =
     (case cli_line E sch line n of
        (Inl e, n) \<Rightarrow> ((Some e, [prompt]), n)
      | (Inr None, n) \<Rightarrow> ((None, [prompt]), n)
      | (Inr (Some out), n) \<Rightarrow>
          (case cli_loop E prompt lines n of ((r, rest), n) \<Rightarrow> ((r, prompt # out @ rest), n)))"

section \<open>The program\<close>

text \<open>
  What the program needs of the system besides the store: the files, whether the directory can be
  created, and whether the client server's loop starts. An exception after the network thread is
  running meets a joinable thread on its way out, which ends the process (\<open>Abort\<close>). A call of
  the node that never ends leaves the program running (\<open>Hang\<close>).
\<close>

record system =
  sys_files :: "string \<Rightarrow> string option"
  sys_directory :: "string \<Rightarrow> error option"
  sys_network :: "int \<Rightarrow> error option"

datatype exit = Exit int | Abort | Hang

definition usage :: string where
  "usage =
     ''Usage:'' @ [CHR 0x0A] @
     ''  nukv_server <node_id> [client_port]'' @ [CHR 0x0A] @
     ''  nukv_server --node-id <id> [options]'' @ [CHR 0x0A, CHR 0x0A] @
     ''Options:'' @ [CHR 0x0A] @
     ''  --config <path>'' @ [CHR 0x0A] @
     ''  --node-id <id>'' @ [CHR 0x0A] @
     ''  --peers <id=host:port,...>'' @ [CHR 0x0A] @
     ''  --client-port <port>'' @ [CHR 0x0A] @
     ''  --data-dir <path>'' @ [CHR 0x0A] @
     ''  --help'' @ [CHR 0x0A, CHR 0x0A] @
     ''Without --peers, the default local cluster is used:'' @ [CHR 0x0A] @
     ''  1=127.0.0.1:19001,2=127.0.0.1:19002,3=127.0.0.1:19003'' @ [CHR 0x0A]"

text \<open>The node that the options describe, before it is started.\<close>

definition server_node :: "'db env \<Rightarrow> system \<Rightarrow> ServerOptions \<Rightarrow> error + 'db node" where
  "server_node E sys opts =
     rbind (FindLocalPeer (option_peers opts) (node_id opts)) (\<lambda>local_peer.
     let ep = peer_endpoint local_peer;
         port_text = (case rfind_char CHR '':'' ep of None \<Rightarrow> ep | Some i \<Rightarrow> drop (i + 1) ep) in
     rbind (ParsePort port_text ''local Raft port'') (\<lambda>raft_port.
     case sys_directory sys (data_directory opts) of
       Some e \<Rightarrow> Inl e
     | None \<Rightarrow> RaftNode_new E (node_id opts) ep raft_port (data_directory opts @ ''/state_db'') (option_peers opts)))"

definition banner :: "ServerOptions \<Rightarrow> 'db node \<Rightarrow> string list" where
  "banner opts n =
     [''NuKV node'' @ to_string_int (sint (node_id opts)) @ '' started at '' @ endpoint n,
      ''Client API listening at 0.0.0.0:'' @ to_string_int (sint (client_port opts)),
      ''Commands: status, put <key> <value>, get <key>, del <key>, exit'']"

text \<open>
  The body of \<open>main\<close> once the options are known: how it ends, what it printed and the node it
  leaves. \<open>before\<close> is what the loop of the node still runs before it stops.
\<close>

definition serve ::
    "'db env \<Rightarrow> system \<Rightarrow> ServerOptions \<Rightarrow> (string \<times> schedule) list \<Rightarrow> event list \<Rightarrow>
     (error + exit) \<times> string list \<times> 'db node option" where
  "serve E sys opts lines before = (case server_node E sys opts of
       Inl e \<Rightarrow> (Inl e, [], None)
     | Inr n \<Rightarrow>
         (case Start E n of
            (Inl e, n) \<Rightarrow> (Inl e, [], Some n)
          | (Inr _, n) \<Rightarrow>
              (case sys_network sys (sint (client_port opts)) of
                 Some e \<Rightarrow> (Inl e, [], Some n)
               | None \<Rightarrow>
                   (case cli_loop E (''nukv-node'' @ to_string_int (sint (node_id opts)) @ ''> '') lines n of
                      ((Some e, out), n) \<Rightarrow> (Inr Abort, banner opts n @ out, Some n)
                    | ((None, out), n) \<Rightarrow>
                        (case Stop E before n of
                           (Inl e, n) \<Rightarrow> (Inl e, banner opts n @ out, Some n)
                         | (Inr _, n) \<Rightarrow>
                             (Inr (Exit 0), banner opts n @ out @
                                [''NuKV node'' @ to_string_int (sint (node_id opts)) @ '' stopped.''], Some n))))))"

definition main ::
    "'db env \<Rightarrow> system \<Rightarrow> string list \<Rightarrow> (string \<times> schedule) list \<Rightarrow> event list \<Rightarrow>
     exit \<times> string list \<times> string \<times> 'db node option" where
  "main E sys args lines before = (case ParseOptions (sys_files sys) args of
       Inl e \<Rightarrow> (Exit 1, [], ''Failed to run NuKV node: '' @ what e, None)
     | Inr None \<Rightarrow> (Exit 0, [], usage, None)
     | Inr (Some opts) \<Rightarrow>
         (case serve E sys opts lines before of
            (Inl Divergence, out, n) \<Rightarrow> (Hang, out, [], n)
          | (Inl e, out, n) \<Rightarrow> (Exit 1, out, ''Failed to run NuKV node: '' @ what e, n)
          | (Inr x, out, n) \<Rightarrow> (x, out, [], n)))"

section \<open>Accepted options\<close>

text \<open>What a list of peers, and a set of options, must satisfy for the node to be started with it.\<close>

definition endpoint_ok :: "string \<Rightarrow> bool" where
  "endpoint_ok ep \<longleftrightarrow> (\<exists>colon port. rfind_char CHR '':'' ep = Some colon \<and> colon \<noteq> 0 \<and> colon + 1 < length ep \<and>
     ParsePort (drop (colon + 1) ep) ''peer port'' = Inr port)"

definition peers_ok :: "RaftPeer list \<Rightarrow> bool" where
  "peers_ok ps \<longleftrightarrow> distinct (map peer_id ps) \<and>
     (\<forall>p \<in> set ps. 1 \<le> sint (peer_id p) \<and> endpoint_ok (peer_endpoint p))"

definition port_ok :: "i32 \<Rightarrow> bool" where
  "port_ok port \<longleftrightarrow> 1 \<le> sint port \<and> sint port \<le> 65535"

definition options_ok :: "ServerOptions \<Rightarrow> bool" where
  "options_ok opts \<longleftrightarrow> 1 \<le> sint (node_id opts) \<and> port_ok (client_port opts) \<and>
     data_directory opts \<noteq> [] \<and> option_peers opts \<noteq> [] \<and> peers_ok (option_peers opts)"

text \<open>The invariant of the two passes: what was given is valid, the peers always are.\<close>

definition partial_ok :: "parsed_options \<Rightarrow> bool" where
  "partial_ok p \<longleftrightarrow> option_peers (options p) \<noteq> [] \<and> peers_ok (option_peers (options p)) \<and>
     (client_port_set p \<longrightarrow> port_ok (client_port (options p))) \<and>
     (data_directory_set p \<longrightarrow> data_directory (options p) \<noteq> [])"

lemma ParsePort_range: "ParsePort value name = Inr port \<Longrightarrow> port_ok port"
  by (auto simp: ParsePort_def port_ok_def rbind_Inr_iff split: if_splits)

lemma ParsePort_stoi: "ParsePort value name = Inr port \<Longrightarrow> stoi value = Inr (port, length value)"
  by (auto simp: ParsePort_def ParseInteger_def rbind_Inr_iff split: if_splits)

lemma ParsePort_name: "ParsePort v name = Inr port \<Longrightarrow> ParsePort v name' = Inr port"
  by (auto simp: ParsePort_def ParseInteger_def rbind_Inr_iff split: if_splits)

text \<open>An endpoint that the options accept is one that the node accepts.\<close>

lemma endpoint_ok_parses:
  assumes "endpoint_ok ep"
  obtains h where "ParseEndpoint ep = Inr h"
proof -
  obtain colon port where "rfind_char CHR '':'' ep = Some colon" "colon \<noteq> 0" "colon + 1 < length ep"
    and port: "ParsePort (drop (colon + 1) ep) ''peer port'' = Inr port"
    using assms by (auto simp: endpoint_ok_def)
  with ParsePort_stoi [OF port] ParsePort_range [OF port] that show thesis
    by (simp add: ParseEndpoint_def port_ok_def)
qed

lemma parse_peer_ok:
  assumes "parse_peer ids item = Inr p"
  shows "1 \<le> sint (peer_id p)" and "peer_id p \<notin> ids" and "endpoint_ok (peer_endpoint p)"
  using assms
  by (auto simp: parse_peer_def endpoint_ok_def rbind_Inr_iff Let_def not_less split: option.splits if_splits)

lemma peers_loop_ok:
  "peers_loop ids v = Inr ps \<Longrightarrow> peers_ok ps \<and> peer_id ` set ps \<inter> ids = {}"
proof (induction ids v arbitrary: ps rule: peers_loop.induct)
  case (1 ids v)
  show ?case
  proof (cases "v = []")
    case True
    with "1.prems" show ?thesis by (simp add: peers_loop.simps peers_ok_def)
  next
    case False
    with "1.prems" obtain p where p: "parse_peer ids (takeWhile (\<lambda>c. c \<noteq> CHR '','') v) = Inr p"
      and rest: "if CHR '','' \<notin> set v then ps = [p]
        else \<exists>qs. peers_loop (insert (peer_id p) ids) (drop 1 (dropWhile (\<lambda>c. c \<noteq> CHR '','') v)) = Inr qs \<and> ps = p # qs"
      by (subst (asm) peers_loop.simps) (auto simp: rbind_Inr_iff split: if_splits)
    note p_ok = parse_peer_ok [OF p]
    show ?thesis
    proof (cases "CHR '','' \<in> set v")
      case True
      with rest obtain qs where qs: "peers_loop (insert (peer_id p) ids)
          (drop 1 (dropWhile (\<lambda>c. c \<noteq> CHR '','') v)) = Inr qs" and "ps = p # qs" by auto
      with "1.IH" [OF False _ qs] True p_ok show ?thesis by (auto simp: peers_ok_def)
    qed (use rest p_ok in \<open>auto simp: peers_ok_def\<close>)
  qed
qed

lemma ParsePeers_ok: "ParsePeers value = Inr ps \<Longrightarrow> ps \<noteq> [] \<and> peers_ok ps"
  using peers_loop_ok by (auto simp: ParsePeers_def rbind_Inr_iff split: if_splits)

lemma ParseInteger_dec: "n < 2 ^ 31 \<Longrightarrow> ParseInteger (dec n) name = Inr (of_nat n)"
  by (simp add: ParseInteger_def stoi_dec)

lemma ParsePort_dec: "1 \<le> n \<Longrightarrow> n \<le> 65535 \<Longrightarrow> ParsePort (dec n) name = Inr (of_nat n)"
  by (simp add: ParsePort_def ParseInteger_dec signed_of_nat signed_take_bit_int_eq_self)

lemma endpoint_ok_format:
  assumes "host \<noteq> []" and "1 \<le> port" and "port \<le> 65535"
  shows "endpoint_ok (host @ CHR '':'' # dec port)"
proof -
  have "rfind_char CHR '':'' (host @ CHR '':'' # dec port) = Some (length host)"
    by (intro rfind_char_last dec_no_char) (simp add: is_digit_def)
  with assms ParsePort_dec [OF assms(2,3)] show ?thesis by (simp add: endpoint_ok_def)
qed

lemma kDefaultPeers_ok: "kDefaultPeers \<noteq> []" "peers_ok kDefaultPeers"
proof -
  have "''127.0.0.1:19001'' = ''127.0.0.1'' @ CHR '':'' # dec 19001"
    "''127.0.0.1:19002'' = ''127.0.0.1'' @ CHR '':'' # dec 19002"
    "''127.0.0.1:19003'' = ''127.0.0.1'' @ CHR '':'' # dec 19003"
    by (simp_all add: dec.simps digit_char_def char_of_def bit_0)
  then have "endpoint_ok ''127.0.0.1:19001''" "endpoint_ok ''127.0.0.1:19002''" "endpoint_ok ''127.0.0.1:19003''"
    using endpoint_ok_format [of "''127.0.0.1''" 19001] endpoint_ok_format [of "''127.0.0.1''" 19002]
      endpoint_ok_format [of "''127.0.0.1''" 19003] by simp_all
  then show "peers_ok kDefaultPeers"
    by (simp add: peers_ok_def kDefaultPeers_def)
qed (simp add: kDefaultPeers_def)

lemma default_options_ok: "partial_ok default_options"
  using kDefaultPeers_ok by (simp add: partial_ok_def default_options_def)

lemma config_line_ok: "config_line k raw p = Inr q \<Longrightarrow> partial_ok p \<Longrightarrow> partial_ok q"
  by (auto simp: config_line_def Let_def rbind_Inr_iff partial_ok_def
      dest: ParsePort_range ParsePeers_ok split: if_splits option.splits)

lemma config_lines_ok: "config_lines k lines p = Inr q \<Longrightarrow> partial_ok p \<Longrightarrow> partial_ok q"
  by (induction lines arbitrary: k p) (auto simp: rbind_Inr_iff dest: config_line_ok)

lemma LoadConfig_ok: "LoadConfig files path p = Inr q \<Longrightarrow> partial_ok p \<Longrightarrow> partial_ok q"
  by (auto simp: LoadConfig_def dest: config_lines_ok split: option.splits)

lemma positional_options_ok:
  assumes "positional_options args p = Inr (q, rest)" and "partial_ok p"
  shows "partial_ok q"
proof (cases args)
  case Nil
  with assms show ?thesis by (simp add: positional_options_def)
next
  case (Cons a more)
  with assms show ?thesis
    by (cases more) (auto simp: positional_options_def Let_def rbind_Inr_iff partial_ok_def
        dest: ParsePort_range split: if_splits)
qed

lemma named_option_ok: "named_option option rest p = Inr (Some (q, rest')) \<Longrightarrow> partial_ok p \<Longrightarrow> partial_ok q"
  by (auto simp: named_option_def RequireValue_def rbind_Inr_iff partial_ok_def
      dest: ParsePort_range ParsePeers_ok split: if_splits list.splits)

lemma named_options_ok: "named_options args p = Inr (Some q) \<Longrightarrow> partial_ok p \<Longrightarrow> partial_ok q"
proof (induction args p rule: named_options.induct)
  case (1 args p)
  show ?case
  proof (cases args)
    case Nil
    with "1.prems" show ?thesis by (simp add: named_options.simps)
  next
    case (Cons option rest)
    with "1.prems"(1) obtain p' rest' where step: "named_option option rest p = Inr (Some (p', rest'))"
      and more: "named_options rest' p' = Inr (Some q)"
      by (subst (asm) named_options.simps) (auto split: sum.splits option.splits)
    from "1.IH" [OF Cons step refl refl more named_option_ok [OF step "1.prems"(2)]] show ?thesis .
  qed
qed

lemma default_client_port:
  "1 \<le> sint x \<Longrightarrow> 18000 + sint x \<le> 65535 \<Longrightarrow> sint (18000 + x :: i32) = 18000 + sint x"
  by (simp add: sint_word_ariths signed_take_bit_int_eq_self)

lemma finish_options_ok: "finish_options p = Inr opts \<Longrightarrow> partial_ok p \<Longrightarrow> options_ok opts"
  using kDefaultPeers_ok default_client_port [of "node_id (options p)"]
  by (auto simp: finish_options_def Let_def partial_ok_def options_ok_def port_ok_def split: if_splits)

text \<open>The stages of an accepted command line.\<close>

lemma ParseOptions_stages:
  assumes "ParseOptions files args = Inr (Some opts)"
  obtains path p p' rest q where "config_path args [] = Inr path"
    and "(if path \<noteq> [] then LoadConfig files path default_options else Inr default_options) = Inr p"
    and "positional_options args p = Inr (p', rest)" and "named_options rest p' = Inr (Some q)"
    and "finish_options q = Inr opts"
  using assms by (auto simp: ParseOptions_def rbind_Inr_iff split: option.splits)

lemma ParseOptions_ok:
  assumes "ParseOptions files args = Inr (Some opts)"
  shows "options_ok opts"
proof (rule ParseOptions_stages [OF assms])
  fix path p p' rest q
  assume "(if path \<noteq> [] then LoadConfig files path default_options else Inr default_options) = Inr p"
  then have "partial_ok p" using default_options_ok by (auto dest: LoadConfig_ok split: if_splits)
  moreover assume pos: "positional_options args p = Inr (p', rest)"
    and named: "named_options rest p' = Inr (Some q)" and finish: "finish_options q = Inr opts"
  ultimately show ?thesis
    by (intro finish_options_ok [OF finish] named_options_ok [OF named] positional_options_ok [OF pos])
qed

section \<open>Printing and parsing the peers\<close>

definition print_peer :: "RaftPeer \<Rightarrow> string" where
  "print_peer p = to_string_int (sint (peer_id p)) @ CHR ''='' # peer_endpoint p"

fun print_peers :: "RaftPeer list \<Rightarrow> string" where
  "print_peers [] = []"
| "print_peers [p] = print_peer p"
| "print_peers (p # ps) = print_peer p @ CHR '','' # print_peers ps"

definition peer_format :: "RaftPeer \<Rightarrow> bool" where
  "peer_format p \<longleftrightarrow> 1 \<le> sint (peer_id p) \<and> CHR '','' \<notin> set (peer_endpoint p) \<and>
     (\<exists>host port. peer_endpoint p = host @ CHR '':'' # dec port \<and> host \<noteq> [] \<and> 1 \<le> port \<and> port \<le> 65535)"

lemma parse_peer_print:
  assumes "peer_format p" and "peer_id p \<notin> ids"
  shows "parse_peer ids (print_peer p) = Inr p"
proof -
  obtain host port where ep: "peer_endpoint p = host @ CHR '':'' # dec port" and "host \<noteq> []"
    and port: "1 \<le> port" "port \<le> 65535" and pos: "1 \<le> sint (peer_id p)"
    using assms(1) by (auto simp: peer_format_def)
  define n where "n = nat (sint (peer_id p))"
  have n: "n < 2 ^ 31" "word_of_nat n = peer_id p"
    using sint_less [of "peer_id p"] pos by (simp_all add: n_def nat_less_iff)
  have item: "print_peer p = dec n @ CHR ''='' # peer_endpoint p"
    using pos by (simp add: print_peer_def to_string_int_def n_def)
  have eq: "find_char CHR ''='' (print_peer p) = Some (length (dec n))"
    unfolding item by (intro find_char_first dec_no_char) (simp add: is_digit_def)
  have colon: "rfind_char CHR '':'' (peer_endpoint p) = Some (length host)"
    unfolding ep by (intro rfind_char_last dec_no_char) (simp add: is_digit_def)
  show ?thesis
    unfolding parse_peer_def eq using assms(2) pos n \<open>host \<noteq> []\<close> colon ParsePort_dec [OF port]
    by (simp add: item ParseInteger_dec Let_def) (simp add: ep)
qed

lemma comma_free: "peer_format p \<Longrightarrow> CHR '','' \<notin> set (print_peer p)"
  using dec_no_char [of "CHR '',''"] by (auto simp: peer_format_def print_peer_def to_string_int_def is_digit_def)

lemma print_peer_not_Nil [simp]: "print_peer p \<noteq> []"
  by (simp add: print_peer_def)

lemma peers_loop_print:
  assumes "list_all peer_format ps" and "distinct (map peer_id ps)" and "peer_id ` set ps \<inter> ids = {}"
  shows "peers_loop ids (print_peers ps) = Inr ps"
  using assms
proof (induction ps arbitrary: ids rule: print_peers.induct)
  case 1
  show ?case by (simp add: peers_loop.simps)
next
  case (2 p)
  then have item: "takeWhile (\<lambda>c. c \<noteq> CHR '','') (print_peer p) = print_peer p"
    using comma_free [of p] by (auto simp: takeWhile_eq_all_conv)
  show ?case
    using 2 comma_free [of p] by (simp add: peers_loop.simps parse_peer_print item del: takeWhile_eq_all_conv)
next
  case (3 p q ps)
  have first: "takeWhile (\<lambda>c. c \<noteq> CHR '','') (print_peer p @ CHR '','' # rest) = print_peer p"
    "dropWhile (\<lambda>c. c \<noteq> CHR '','') (print_peer p @ CHR '','' # rest) = CHR '','' # rest" for rest
    using comma_free [of p] "3.prems"(1) by (auto simp: takeWhile_append dropWhile_append)
  have "peers_loop (insert (peer_id p) ids) (print_peers (q # ps)) = Inr (q # ps)"
    using "3.prems" by (intro "3.IH") auto
  then show ?case
    using "3.prems" by (subst peers_loop.simps) (simp add: first parse_peer_print)
qed

section \<open>The last option wins\<close>

lemma named_option_alone: "named_option option [] p \<noteq> Inr (Some x)"
  by (auto simp: named_option_def RequireValue_def)

lemma named_options_last:
  assumes "named_options (args @ [option, v]) p = Inr (Some q)"
  shows "\<exists>p'. named_option option [v] p' = Inr (Some (q, []))"
  using assms
proof (induction "args @ [option, v]" p arbitrary: args rule: named_options.induct)
  case (1 p)
  obtain opt rest where args: "args @ [option, v] = opt # rest" by (cases args) auto
  with "1.prems" obtain p' rest' where step: "named_option opt rest p = Inr (Some (p', rest'))"
    and more: "named_options rest' p' = Inr (Some q)"
    by (subst (asm) named_options.simps) (auto split: sum.splits option.splits)
  obtain w where rest: "rest = w # rest'" using named_option_takes [OF step] by blast
  consider "args = []" | "args = [opt]" | args' where "args = opt # w # args'" "rest' = args' @ [option, v]"
    using args rest by (cases args; cases "tl args") auto
  then show ?case
  proof cases
    case 1
    with args rest step more show ?thesis by (auto simp: named_options.simps)
  next
    case 2
    with args rest more have "named_options [v] p' = Inr (Some q)" by simp
    then show ?thesis
      by (subst (asm) named_options.simps) (simp add: named_option_alone split: sum.splits option.splits)
  next
    case 3
    from "1.hyps" [OF args step refl] more 3(2) show ?thesis by simp
  qed
qed

lemma positional_options_tail:
  assumes "positional_options (args @ [option, v]) p = Inr (q, rest)" and "\<not> positional option"
  obtains args' where "rest = args' @ [option, v]"
  using assms
  by (cases args; cases "tl args")
     (auto simp: positional_options_def Let_def rbind_Inr_iff split: if_splits)

section \<open>The local peer\<close>

lemma server_node_fresh:
  assumes ok: "options_ok opts" and local: "node_id opts \<in> peer_id ` set (option_peers opts)"
    and "sys_directory sys (data_directory opts) = None"
    and "DB_Open (env_rocks E) (data_directory opts @ ''/state_db'') = (Status_OK, d)"
  obtains ep port where "server_node E sys opts = Inr (fresh_node (node_id opts) ep port d (option_peers opts))"
    and "endpoint_ok ep"
proof -
  obtain p where p: "find (\<lambda>peer. peer_id peer = node_id opts) (option_peers opts) = Some p"
    using local by (cases "find (\<lambda>peer. peer_id peer = node_id opts) (option_peers opts)") (auto simp: find_None_iff)
  then have "p \<in> set (option_peers opts)" by (auto simp: find_Some_iff)
  then have ep: "endpoint_ok (peer_endpoint p)" using ok by (auto simp: options_ok_def peers_ok_def)
  then obtain colon port where "rfind_char CHR '':'' (peer_endpoint p) = Some colon"
    and "ParsePort (drop (colon + 1) (peer_endpoint p)) ''peer port'' = Inr port"
    by (auto simp: endpoint_ok_def)
  moreover from this(2) have "ParsePort (drop (colon + 1) (peer_endpoint p)) ''local Raft port'' = Inr port"
    by (rule ParsePort_name)
  ultimately have "server_node E sys opts =
      Inr (fresh_node (node_id opts) (peer_endpoint p) port d (option_peers opts))"
    using p assms(3,4) by (simp add: server_node_def FindLocalPeer_def RaftNode_new_def RocksKVStore_open_def)
  then show thesis using ep by (rule that)
qed

end
