(* ===== verification/Server_Properties.thy ===== *)
theory Server_Properties
  imports Server_Main Raft_Restart Raft_Cluster Raft_Log Mem_Instance
begin

text \<open>
  The properties of the client interface and of the server program, each followed by an instance.
\<close>

section \<open>Stopping\<close>



section \<open>The client interface\<close>

text \<open>C27: The requests of a client are handled one by one: however the network cuts the framed
  requests into deliveries, exactly the requests are handled, in order, and nothing is left over.\<close>

theorem client_stream_handled:
  assumes "list_all2 (\<lambda>payload frame. client_Frame payload = Inr frame) payloads frames"
    and "concat chunks = concat frames"
  shows "deliveries (OnMessage P c) chunks [] = mseq (mfor payloads (on_payload P c)) (ret [])"
  using assms unfolding client_Frame_def by (rule client_stream.deliveries_frames)

theorem client_stream_handled_witness:
  "deliveries (OnMessage mem_pb 5) [take 1 (htonl_bytes 2 @ ''hi''), drop 1 (htonl_bytes 2 @ ''hi'')] [] =
    mseq (mfor [''hi''] (on_payload mem_pb 5)) (ret [])"
proof (rule client_stream_handled)
  show "list_all2 (\<lambda>payload frame. client_Frame payload = Inr frame) [''hi''] [htonl_bytes 2 @ ''hi'']"
    by (simp add: client_Frame_def frame_or_def kMaxFrameSize_def numeral_2_eq_2)
qed (simp only: concat.simps append_Nil2 append_take_drop_id)

text \<open>C20: Whatever clients send and however the workers and the loop of the node interleave, every
  queued request has a key that is neither empty nor reserved, and the command made of it is one
  that the key-value machine accepts, unless its request id was used for another command.\<close>

theorem queued_requests_applicable:
  assumes "(client_step E)\<^sup>*\<^sup>* (ClientServer_new, n0) (s, n)" and "(c, request) \<in> set (work_queue s)"
    and "type \<in> {COMMAND_TYPE_PUT, COMMAND_TYPE_DELETE}" and "codecs_total (env_pb E)"
    and "applied k (cq_client_id request, cq_request_id request) \<in>
      {None, serialize (command_pb (env_pb E)) (client_command type request)}"
  shows "request_ok request \<and> spec_apply (env_pb E) (client_command type request) k \<noteq> None"
proof -
  have "queue_ok s" using queue_ok_reachable [OF assms(1)] by (simp add: ClientServer_new_def queue_ok_def)
  then have "request_ok request" using assms(2) by (auto simp: queue_ok_def)
  moreover obtain b where "serialize (command_pb (env_pb E)) (client_command type request) = Some b"
    using assms(4) unfolding codecs_total_def codec_total_def by blast
  ultimately show ?thesis
    using assms(3,5)
    by (auto simp: spec_apply_def effect_on_def Let_def request_ok_def client_command_def split: option.splits)
qed

definition demo_write :: ClientRequest where
  "demo_write = \<lparr>cq_request_id = 1, cq_operation = OPERATION_PUT, cq_key = ''k'', cq_value = ''v'', cq_client_id = 1\<rparr>"

definition demo_payload :: string where
  "demo_payload = the (serialize (client_request_pb mem_pb) demo_write)"

definition demo_server :: client_server where
  "demo_server = \<lparr>work_queue = [(5, demo_write)], server_stopping = False, client_io = []\<rparr>"

lemma demo_queued:
  "(client_step mem_env)\<^sup>*\<^sup>* (ClientServer_new, n) (demo_server, n)"
proof -
  have parses: "parse (client_request_pb mem_pb) demo_payload = Some demo_write"
    using mem_pb_ok mem_pb_total
    by (auto simp: demo_payload_def codecs_ok_def codecs_total_def codec_ok_def codec_total_def)
  have "length demo_payload \<le> 100" by code_simp
  then have "deframe (htonl_bytes (length demo_payload) @ demo_payload) = ([demo_payload], [], False)"
    by (intro deframe_Frame [where e = "[]"]) (simp add: frame_or_def kMaxFrameSize_def)
  then have "snd (OnMessage mem_pb 5 (htonl_bytes (length demo_payload) @ demo_payload) ClientServer_new) = demo_server"
    using parses
    by (simp add: client_stream.loop_frames mseq_app on_payload_def Enqueue_def ClientServer_new_def demo_server_def)
       (simp add: demo_write_def)
  then show ?thesis using client_step.message [of mem_env ClientServer_new n 5] by (metis mem_env_simps(1) r_into_rtranclp)
qed

theorem queued_requests_applicable_witness:
  "request_ok demo_write \<and>
   spec_apply mem_pb (client_command COMMAND_TYPE_PUT demo_write) \<lparr>user_keys = (\<lambda>_. None), applied = (\<lambda>_. None)\<rparr> \<noteq> None"
  using queued_requests_applicable [OF demo_queued, of 5 demo_write COMMAND_TYPE_PUT
      "\<lparr>user_keys = (\<lambda>_. None), applied = (\<lambda>_. None)\<rparr>"]
  by (simp add: demo_server_def mem_pb_total)


definition quiet_schedule :: schedule where
  "quiet_schedule = \<lparr>sch_promise = 0, sch_ready = [], sch_before = [], sch_after = [], sch_read = []\<rparr>"

definition starting_node :: "mem node" where
  "starting_node = fresh_node 1 ''127.0.0.1:9000'' 9000 [] []"




section \<open>The options\<close>

text \<open>C36: A list of peers that is accepted is not empty, its ids are positive and pairwise different,
  and the node accepts every endpoint in it.\<close>

theorem parsed_peers_valid:
  assumes "ParsePeers v = Inr ps"
  shows "ps \<noteq> [] \<and> distinct (map peer_id ps) \<and>
    (\<forall>p \<in> set ps. 1 \<le> sint (peer_id p) \<and> (\<exists>host port. ParseEndpoint (peer_endpoint p) = Inr (host, port)))"
  using ParsePeers_ok [OF assms] by (auto simp: peers_ok_def elim!: endpoint_ok_parses)

text \<open>C37: Printing and parsing the peers: a list of peers with positive, pairwise different ids and
  endpoints \<open>host:port\<close> without a comma is what \<open>ParsePeers\<close> makes of its printed form
  \<open>id=host:port,...\<close>.\<close>

theorem peers_print_parse:
  assumes "ps \<noteq> []" and "list_all peer_format ps" and "distinct (map peer_id ps)"
  shows "ParsePeers (print_peers ps) = Inr ps"
  using peers_loop_print [OF assms(2,3), of "{}"] assms(1) by (simp add: ParsePeers_def)

definition two_peers :: "RaftPeer list" where
  "two_peers = [\<lparr>peer_id = 1, peer_endpoint = ''a:'' @ dec 9001\<rparr>, \<lparr>peer_id = 2, peer_endpoint = ''b:'' @ dec 9002\<rparr>]"

lemma two_peers_format: "two_peers \<noteq> []" "list_all peer_format two_peers" "distinct (map peer_id two_peers)"
proof -
  have "peer_format \<lparr>peer_id = i, peer_endpoint = [c, CHR '':''] @ dec k\<rparr>"
    if "1 \<le> sint i" "c \<noteq> CHR '',''" "1 \<le> k" "k \<le> 65535" for i :: i32 and c k
    using that dec_no_char [of "CHR '',''" k]
    by (auto simp: peer_format_def is_digit_def intro!: exI [of _ "[c]"] exI [of _ k])
  from this [of 1 "CHR ''a''" 9001] this [of 2 "CHR ''b''" 9002]
  show "list_all peer_format two_peers" by (simp add: two_peers_def)
qed (simp_all add: two_peers_def)

theorem peers_print_parse_witness: "ParsePeers (print_peers two_peers) = Inr two_peers"
  by (rule peers_print_parse [OF two_peers_format])

theorem parsed_peers_valid_witness:
  "distinct (map peer_id two_peers) \<and> hd two_peers \<in> set two_peers \<and> 1 \<le> sint (peer_id (hd two_peers)) \<and>
    (\<exists>host port. ParseEndpoint (peer_endpoint (hd two_peers)) = Inr (host, port))"
proof -
  have "ParsePeers (print_peers two_peers) = Inr two_peers"
    using peers_loop_print [OF two_peers_format(2,3), of "{}"] two_peers_format(1) by (simp add: ParsePeers_def)
  from parsed_peers_valid [OF this] show ?thesis by auto
qed

text \<open>C38: Options that are accepted are within bounds, wherever they came from: a positive node id,
  a client port between 1 and 65535 (the default \<open>18000 + node_id\<close> does not overflow), a data
  directory, and peers that form a configuration of a cluster, over any wiring.\<close>

theorem accepted_options_bounds:
  assumes "ParseOptions files args = Inr (Some opts)" and "\<And>e. other (other e) = e"
  shows "1 \<le> sint (node_id opts) \<and> 1 \<le> sint (client_port opts) \<and> sint (client_port opts) \<le> 65535 \<and>
    data_directory opts \<noteq> [] \<and> option_peers opts \<noteq> [] \<and> configuration_ok (option_peers opts) other"
proof -
  have "- 1 \<notin> peer_id ` set ps" if "peers_ok ps" for ps
  proof
    assume "- 1 \<in> peer_id ` set ps"
    then obtain p where "p \<in> set ps" "peer_id p = - 1" by (metis imageE)
    with that show False by (auto simp: peers_ok_def dest!: bspec)
  qed
  with ParseOptions_ok [OF assms(1)] assms(2) show ?thesis
    by (auto simp: options_ok_def port_ok_def configuration_ok_def peers_ok_def)
qed

lemma node_two: "ParseInteger ''2'' name = Inr 2"
proof -
  have "''2'' = dec 2" by (simp add: dec.simps digit_char_def char_of_def bit_0)
  then show ?thesis using ParseInteger_dec [of 2 name] by simp
qed

definition node_two_options :: ServerOptions where
  "node_two_options = \<lparr>node_id = 2, client_port = 18002, data_directory = ''./data/node'' @ dec 2,
     option_peers = kDefaultPeers\<rparr>"

lemma node_two_parses: "ParseOptions (\<lambda>_. None) [''--node-id'', ''2''] = Inr (Some node_two_options)"
  by (simp add: ParseOptions_def positional_options_def positional_def named_options.simps named_option_def
      RequireValue_def node_two finish_options_def default_options_def node_two_options_def to_string_int_def Let_def)

theorem accepted_options_bounds_witness:
  "1 \<le> sint (node_id node_two_options) \<and> 1 \<le> sint (client_port node_two_options) \<and>
    sint (client_port node_two_options) \<le> 65535 \<and>
    data_directory node_two_options \<noteq> [] \<and> option_peers node_two_options \<noteq> [] \<and>
    configuration_ok (option_peers node_two_options) (\<lambda>e. e)"
  by (rule accepted_options_bounds [OF node_two_parses]) simp

text \<open>C39: The command line wins over the configuration file, and the last option over the earlier
  ones: the value of an option at the end of the command line is the one the server runs with.\<close>

theorem last_option_wins:
  assumes "ParseOptions files (args @ [option, v]) = Inr (Some opts)"
  shows "(option = ''--node-id'' \<longrightarrow> ParseInteger v ''node_id'' = Inr (node_id opts)) \<and>
    (option = ''--client-port'' \<longrightarrow> ParsePort v ''client_port'' = Inr (client_port opts)) \<and>
    (option = ''--peers'' \<longrightarrow> ParsePeers v = Inr (option_peers opts)) \<and>
    (option = ''--data-dir'' \<longrightarrow> data_directory opts = v)"
proof (cases "positional option")
  case False
  from assms show ?thesis
  proof (rule ParseOptions_stages)
    fix p p' rest q
    assume pos: "positional_options (args @ [option, v]) p = Inr (p', rest)"
      and named: "named_options rest p' = Inr (Some q)" and finish: "finish_options q = Inr opts"
    from pos False obtain args' where "rest = args' @ [option, v]" by (rule positional_options_tail)
    with named obtain p'' where "named_option option [v] p'' = Inr (Some (q, []))"
      using named_options_last by blast
    with finish show ?thesis
      by (auto simp: named_option_def RequireValue_def rbind_Inr_iff finish_options_def Let_def split: if_splits)
  qed
qed (auto simp: positional_def)

theorem last_option_wins_witness: "ParseInteger ''2'' ''node_id'' = Inr (node_id node_two_options)"
  using last_option_wins [of "\<lambda>_. None" "[]" "''--node-id''" "''2''" node_two_options] node_two_parses by simp

section \<open>The program\<close>




section \<open>Reading from the console\<close>

text \<open>C33: The command \<open>get\<close> of the console submits an entry that the state machine refuses. On the only
  member of a cluster, with everything applied and a store that does not fail, it answers
  \<open>GET failed\<close> with the entry committed, and from then on every application of committed
  entries throws and applies nothing.\<close>

theorem console_get_wedges:
  assumes ok: "rocksdb_ok (env_rocks E) \<alpha>" "rocksdb_faultless (env_rocks E)" "codecs_ok (env_pb E)" "codecs_total (env_pb E)"
    and n: "role n = Leader" "\<not> stopping n" "ready n" "raft_loop n" "length (peers n) \<le> 1"
    and upto: "last_applied n = LastIndex n" "commit_index n = LastIndex n" "unat (snapshot_index n) + length (log n) + 1 < 2 ^ 64"
    and free: "\<alpha> (db n) (LogKey j) = None"
    and input: "next_word input = (key, rest)" "key \<noteq> []" "\<not> has_prefix ''__raft/'' key"
    and sch: "sch_before sch = []" "sch_after sch = []" "promise_value (sch_promise sch) (trace n) = None"
  shows "\<exists>m. cli_get E sch input n = (Inr ''GET failed'', m) \<and> last_applied n < commit_index m \<and>
    (\<forall>k. (\<exists>e. fst (ApplyCommitted E (((\<lambda>m. snd (ApplyCommitted E m)) ^^ k) m)) = Inl e) \<and>
      last_applied (((\<lambda>m. snd (ApplyCommitted E m)) ^^ k) m) = last_applied n)"
proof -
  let ?c = "cli_command COMMAND_TYPE_GET key []"
  obtain s where s: "serialize (command_pb (env_pb E)) ?c = Some s"
    using ok(4) unfolding codecs_total_def codec_total_def by blast
  then have c: "parse (command_pb (env_pb E)) s = Some ?c"
    using ok(3) by (simp add: codecs_ok_def codec_ok_def)
  have "spec_apply (env_pb E) ?c k = None" for k
    by (simp add: spec_apply_def effect_on_def cli_command_def Let_def split: option.split)
  from submit_refused [OF ok(1,2,4) n(1,2,5) upto free c this] obtain m where
    task: "submit_task E s 0 0 (sch_promise sch) n = (Inr (), m\<lparr>trace := trace n @ [SetValue (sch_promise sch) False]\<rparr>)"
    and m: "wedged E \<alpha> m" "last_applied m = last_applied n" by blast
  let ?m = "m\<lparr>trace := trace n @ [SetValue (sch_promise sch) False]\<rparr>"
  have "run_loop E [SubmitTask s 0 0 (sch_promise sch)] n = (Inr (), ?m)"
    by (simp add: run_loop_def mtry_def handle_event_def mseq_app task)
  moreover have "promise_value (sch_promise sch) (trace ?m) = Some False"
    using sch(3) by (simp add: promise_value_def map_add_def)
  ultimately have "Submit E ?c (sch_promise sch) [] [] n = (False, ?m)"
    using s n(3,4) by (simp add: Submit_def) (simp add: cli_command_def)
  then have "cli_get E sch input n = (Inr ''GET failed'', ?m)"
    using input sch(1,2) by (simp add: cli_get_def cli_submit_def)
  moreover have "wedged E \<alpha> ?m" "last_applied ?m = last_applied n" using m by simp_all
  ultimately show ?thesis
    using wedged_forever [OF ok(1), of ?m] m by (intro exI [of _ ?m]) (auto simp: wedged_def)
qed

definition lone_leader :: "mem node" where
  "lone_leader = starting_node\<lparr>role := Leader, leader := True, ready := True, raft_loop := True, current_term := 1\<rparr>"

lemma lone_leader_simps [simp]:
  "role lone_leader = Leader" "\<not> stopping lone_leader" "ready lone_leader" "raft_loop lone_leader" "peers lone_leader = []"
  "last_applied lone_leader = 0" "commit_index lone_leader = 0" "snapshot_index lone_leader = 0" "log lone_leader = []"
  "db lone_leader = []" "trace lone_leader = []" "LastIndex lone_leader = 0"
  by (simp_all add: lone_leader_def starting_node_def fresh_node_def LastIndex_def)

theorem console_get_wedges_witness:
  "\<exists>m. cli_get mem_env quiet_schedule ''x'' lone_leader = (Inr ''GET failed'', m) \<and> 0 < commit_index m \<and>
    (\<forall>k. (\<exists>e. fst (ApplyCommitted mem_env (((\<lambda>m. snd (ApplyCommitted mem_env m)) ^^ k) m)) = Inl e) \<and>
      last_applied (((\<lambda>m. snd (ApplyCommitted mem_env m)) ^^ k) m) = 0)"
proof -
  have "next_word ''x'' = (''x'', [])" by (simp add: next_word_def is_space_def)
  moreover have "\<not> has_prefix ''__raft/'' ''x''" by simp
  moreover have "sch_before quiet_schedule = []" "sch_after quiet_schedule = []" by (simp_all add: quiet_schedule_def)
  ultimately show ?thesis
    using console_get_wedges [of mem_env map_of lone_leader 0 "''x''" "''x''" "[]" quiet_schedule]
    by (simp add: mem_rocks_ok mem_rocks_faultless mem_pb_ok mem_pb_total promise_value_def)
qed

end
