(* ===== verification/Spec2Isabelle.thy ===== *)
theory Spec2Isabelle
  imports Store_Properties Cluster_Properties Replication_Properties Server_Properties
begin

text \<open>
  NuKV: a verification development of a key-value store replicated with Raft.

  \<^bold>\<open>The program\<close> (file names are relative to \<open>src/\<close>). A server process (\<open>src/main.cpp\<close>) reads its
  options and runs three parts: a \<open>RaftNode\<close> (\<open>src/raft_node.cpp\<close>), whose state belongs to one loop
  thread that exchanges framed protobuf messages with the other members of the cluster; a
  \<open>ClientServer\<close> (\<open>src/client_server.cpp\<close>), whose worker threads answer client requests by handing
  tasks to that loop and waiting for a promise; and a command loop on standard input. The node
  keeps log, term, vote and snapshot through \<open>RaftStorage\<close> (\<open>src/raft_storage.cpp\<close>) and applies
  committed entries through \<open>CommandApplier\<close> (\<open>src/command_applier.cpp\<close>); both write to one RocksDB
  instance behind \<open>RocksKVStore\<close> (\<open>src/rocks_kv_store.cpp\<close>).

  \<^bold>\<open>How code becomes definitions.\<close> A member function is a computation of \<open>Prelude\<close>: it takes the
  state of its object and returns an exception or a result with the new state. Effects up to a
  throw stay, as in C++; \<open>mtry\<close> is a catch block. A definition carries the name of the function it
  translates; parts of a long function have names of their own and the map of the manifest gives
  their lines. Integers are words of their C++ width and wrap around. What the loop sends, which
  timers it arms and which promises it completes is appended to the history \<open>trace\<close> of the node,
  in the order of the code.

  \<^bold>\<open>Theories that model code.\<close>
  \<^item> \<open>Prelude\<close>: integers, exceptions, computations, and the rules \<open>pres\<close> (what a computation
    preserves) and \<open>total\<close> (that it returns) by which later proofs go through code.
  \<^item> \<open>Cpp_Std\<close>: the functions of the C++ library on strings and numbers that the sources call.
  \<^item> \<open>Proto\<close>: the messages of \<open>proto/*.proto\<close>. The generated serialisers are the parameter record
    \<open>codecs\<close>.
  \<^item> \<open>Framing\<close>: the length-prefixed frames of both protocols; the locale \<open>receive_loop\<close> is the contract
    of a receive loop, interpreted on \<open>RaftNode::HandleMessage\<close> and \<open>ClientServer::OnMessage\<close>.
  \<^item> \<open>Rocks_KV_Store\<close>: \<open>RocksKVStore\<close> over the parameter record \<open>rocksdb\<close>; the locales \<open>kv_store\<close>,
    \<open>kv_store_total\<close> and \<open>kv_store_clean\<close> are what its clients rely on.
  \<^item> \<open>Command_Applier\<close>: \<open>CommandApplier\<close>, and the abstract machine on user data that it refines.
  \<^item> \<open>Raft_Storage\<close>: keys, records, \<open>Load\<close>, \<open>PersistState\<close>, \<open>PersistLog\<close> and the snapshot writes;
    \<open>represents\<close> says which durable state a store holds.
  \<^item> \<open>Raft_State\<close>: the record of \<open>RaftNode\<close>, its log functions, application and compaction.
    \<open>Raft_Rpc\<close>: sending, elections, replication. \<open>Raft_Read_Index\<close>: the read protocol of the leader.
    \<open>Raft_Handlers\<close>: the message handlers. \<open>Raft_Loop\<close>: dispatch, tasks, timers, start and stop.
  \<^item> \<open>Client_Server\<close>: validation, work queue, workers, \<open>HandleRequest\<close>. \<open>Server_Main\<close>: options,
    configuration file, command loop, life of the process.

  \<^bold>\<open>Theories that prove.\<close>
  \<^item> \<open>Raft_Invariant\<close>: the locales \<open>node_handlers\<close> and \<open>node_invariant\<close>, whose theorems go once through
    every handler, timer and task of the loop.
  \<^item> \<open>Raft_Vote\<close>, \<open>Raft_Ballots\<close>, \<open>Raft_Leadership\<close>: the vote in memory, on disk and in the messages
    of a node, and what it takes to lead. \<open>Raft_Restart\<close>: starts and elections that return.
  \<^item> \<open>Raft_Log\<close>, \<open>Raft_Matching\<close>, \<open>Raft_Snapshot\<close>: the replicated log against its reference definition,
    commitment, application, the step of Log Matching, the chunked transfer of snapshots.
  \<^item> \<open>Raft_Durable\<close>: what a follower acknowledges is on its disk.
  \<^item> \<open>Raft_Cluster\<close>: a cluster as a step relation, with crashes inside callbacks, restarts from disk
    and a network that loses, delays, duplicates and reorders frames; election safety by quorums
    (locale \<open>quorum_system\<close>). \<open>Raft_Links\<close>, \<open>Raft_Cluster_Log\<close>: every log of the cluster, in memory, on
    disk or in a message, is a chain of entries that elected leaders created; Log Matching follows.
  \<^item> \<open>Mem_Instance\<close>: a store and codecs on which all hypotheses hold, for the concrete runs.
  \<^item> \<open>Store_Properties\<close>, \<open>Election_Properties\<close>, \<open>Cluster_Properties\<close>, \<open>Replication_Properties\<close>,
    \<open>Server_Properties\<close>: the properties, each with an instance.

  \<^bold>\<open>What is assumed.\<close> Code outside the sources is a parameter with named hypotheses.
  \<open>rocksdb_ok R \<alpha>\<close>: reads return what \<open>\<alpha>\<close> says the store holds, and a batch is written whole or
  not at all. \<open>rocksdb_faultless R\<close>: the store does not report errors. \<open>rocksdb_clean R \<alpha>\<close>: a write
  that reports an error has no effect. \<open>codecs_ok\<close>: parsing a serialised message gives it back.
  \<open>codecs_total\<close>: messages can be serialised. In a run of a cluster a member that is up has a
  store that does not fail; when the store fails inside a callback the member goes down at its
  end, with whatever the callback did by then. A node does not campaign in the last 64-bit
  term (\<open>term_room\<close>), and for Log Matching a leader takes no command when fewer than 66
  indices are left (\<open>log_room\<close>): one for the entry and 64 for a batch behind it.

  \<^bold>\<open>Termination and fuel.\<close> Loops of the code are recursive functions with a termination proof.
  \<open>Divergence\<close> is an outcome of its own where a loop of the code does not end: \<open>PersistLog\<close> looks for
  the first free log key and ends only if there is one. The transfer of a snapshot is bounded by
  a number of rounds, and one round per 256 KiB chunk is shown to be enough. A worker runs for a
  given list of schedules, one per task; the destructor drains the queue when there are as many
  as queued tasks. A \<open>schedule\<close> lists what the loop thread runs before and while a client thread
  waits, so that results about client requests hold for every interleaving at that grain.

  \<^bold>\<open>Not modelled.\<close> The network library mymuduo, a git submodule that is not part of the sources:
  connections are numbers, sends and timers are entries of the history, and the parameter
  \<open>env_connected\<close> says which connections are up. RocksDB and protobuf, which appear only as
  parameters. Threads below the grain of callbacks, tasks and promises, and the memory model. The
  use of a destroyed \<open>EventLoop\<close> after an exception has left the loop, which is undefined
  behaviour: there the model goes on as if the loop were alive. The tests and the build files.
  For the cluster, Leader Completeness and the agreement of all applied commands are not shown;
  shown are election safety, Log Matching, the durability of acknowledgements, the commit rule
  of a leader, and that replicas with matching logs that apply the same range agree.
\<close>

end
